(* ===== verification/Mochad_Prelude.thy ===== *)
theory Mochad_Prelude
  imports Main "HOL-Library.Word" "HOL-Library.Char_ord"
begin

text \<open>
  The prelude of the development: the types every component shares (bytes, characters, C
  strings), the part of the C library the daemon uses as HOL functions (\<open>ctype.h\<close> in the C
  locale, \<open>strtol\<close>, \<open>strtoul\<close>, the \<open>printf\<close> conversions), ring-buffer
  arithmetic, searching by index, and the collections of facts the other theories extend.
\<close>

unbundle bit_operations_syntax

named_theorems mochad_frame
named_theorems mochad_inv
named_theorems mochad_ring

section \<open>Types and character constants\<close>

type_synonym byte = "8 word"

abbreviation chr_nul :: char where "chr_nul \<equiv> CHR 0x00"
abbreviation chr_nl :: char where "chr_nl \<equiv> CHR 0x0A"
abbreviation chr_cr :: char where "chr_cr \<equiv> CHR 0x0D"

definition nl :: string where "nl = [CHR 0x0A]"
definition nlcr :: string where "nlcr = [CHR 0x0A, CHR 0x0D]"
definition crnl :: string where "crnl = [CHR 0x0D, CHR 0x0A]"

lemmas eol_defs = nl_def nlcr_def crnl_def

definition ord :: "char \<Rightarrow> nat" where
  "ord c = of_char c"

definition chr :: "nat \<Rightarrow> char" where
  "chr n = char_of n"

definition char_of_byte :: "byte \<Rightarrow> char" where
  "char_of_byte b = char_of (unat b)"

lemma ord_less [simp]: "ord c < 256"
  by (simp add: ord_def)

lemma chr_ord [simp]: "chr (ord c) = c"
  by (simp add: chr_def ord_def)

lemma ord_chr [simp]: "n < 256 \<Longrightarrow> ord (chr n) = n"
  by (simp add: chr_def ord_def)

section \<open>ctype.h in the C locale\<close>

definition isspace :: "char \<Rightarrow> bool" where
  "isspace c = (c = CHR '' '' \<or> c = CHR 0x09 \<or> c = CHR 0x0A \<or> c = CHR 0x0B \<or> c = CHR 0x0C \<or> c = CHR 0x0D)"

definition islower :: "char \<Rightarrow> bool" where
  "islower c = (97 \<le> ord c \<and> ord c \<le> 122)"

definition isupper :: "char \<Rightarrow> bool" where
  "isupper c = (65 \<le> ord c \<and> ord c \<le> 90)"

definition isdigit :: "char \<Rightarrow> bool" where
  "isdigit c = (48 \<le> ord c \<and> ord c \<le> 57)"

definition isxdigit :: "char \<Rightarrow> bool" where
  "isxdigit c = (isdigit c \<or> (65 \<le> ord c \<and> ord c \<le> 70) \<or> (97 \<le> ord c \<and> ord c \<le> 102))"

definition toupper :: "char \<Rightarrow> char" where
  "toupper c = (if islower c then chr (ord c - 32) else c)"

definition tolower :: "char \<Rightarrow> char" where
  "tolower c = (if isupper c then chr (ord c + 32) else c)"

lemmas ctype_defs =
  isspace_def islower_def isupper_def isdigit_def isxdigit_def toupper_def tolower_def

section \<open>strtol and strtoul\<close>

definition digit_val :: "char \<Rightarrow> nat" where
  "digit_val c =
     (if isdigit c then ord c - 48
      else if 65 \<le> ord c \<and> ord c \<le> 70 then ord c - 55
      else if 97 \<le> ord c \<and> ord c \<le> 102 then ord c - 87
      else 0)"

definition digits_val :: "nat \<Rightarrow> string \<Rightarrow> nat" where
  "digits_val b ds = foldl (\<lambda>n c. b * n + digit_val c) 0 ds"

text \<open>
  The result of a conversion: the value, whether \<open>errno\<close> is set to \<open>ERANGE\<close>, whether
  any digit was converted, and the text \<open>endptr\<close> points to.
\<close>

record strto_result =
  sr_value :: int
  sr_erange :: bool
  sr_converted :: bool
  sr_rest :: string

fun split_sign :: "string \<Rightarrow> bool \<times> string" where
  "split_sign [] = (False, [])"
| "split_sign (c # cs) =
     (if c = CHR ''-'' then (True, cs) else if c = CHR ''+'' then (False, cs) else (False, c # cs))"

definition LONG_MAX :: int where "LONG_MAX = 2 ^ 63 - 1"
definition LONG_MIN :: int where "LONG_MIN = - (2 ^ 63)"
definition ULONG_MAX :: int where "ULONG_MAX = 2 ^ 64 - 1"
definition INT_MAX :: int where "INT_MAX = 2 ^ 31 - 1"

definition strtol10 :: "string \<Rightarrow> strto_result" where
  "strtol10 s =
     (let t = dropWhile isspace s;
          (neg, u) = split_sign t;
          ds = takeWhile isdigit u;
          v = int (digits_val 10 ds);
          w = (if neg then - v else v)
      in if ds = [] then \<lparr>sr_value = 0, sr_erange = False, sr_converted = False, sr_rest = s\<rparr>
         else if w > LONG_MAX then
           \<lparr>sr_value = LONG_MAX, sr_erange = True, sr_converted = True, sr_rest = dropWhile isdigit u\<rparr>
         else if w < LONG_MIN then
           \<lparr>sr_value = LONG_MIN, sr_erange = True, sr_converted = True, sr_rest = dropWhile isdigit u\<rparr>
         else \<lparr>sr_value = w, sr_erange = False, sr_converted = True, sr_rest = dropWhile isdigit u\<rparr>)"

text \<open>The optional \<open>0x\<close> prefix of base 16 counts only when a hex digit follows it.\<close>

definition strip_0x :: "string \<Rightarrow> string" where
  "strip_0x u =
     (case u of
        a # b # c # r \<Rightarrow>
          if a = CHR ''0'' \<and> (b = CHR ''x'' \<or> b = CHR ''X'') \<and> isxdigit c then c # r else u
      | _ \<Rightarrow> u)"

definition strtoul16 :: "string \<Rightarrow> strto_result" where
  "strtoul16 s =
     (let t = dropWhile isspace s;
          (neg, u0) = split_sign t;
          u = strip_0x u0;
          ds = takeWhile isxdigit u;
          v = int (digits_val 16 ds)
      in if ds = [] then \<lparr>sr_value = 0, sr_erange = False, sr_converted = False, sr_rest = s\<rparr>
         else if v > ULONG_MAX then
           \<lparr>sr_value = ULONG_MAX, sr_erange = True, sr_converted = True, sr_rest = dropWhile isxdigit u\<rparr>
         else \<lparr>sr_value = (if neg then (- v) mod 2 ^ 64 else v), sr_erange = False,
               sr_converted = True, sr_rest = dropWhile isxdigit u\<rparr>)"

section \<open>printf conversions\<close>

definition digit_char :: "nat \<Rightarrow> char" where
  "digit_char d = ''0123456789ABCDEF'' ! d"

fun num_str :: "nat \<Rightarrow> nat \<Rightarrow> string" where
  "num_str b n =
     (if b < 2 \<or> n < b then [digit_char n] else num_str b (n div b) @ [digit_char (n mod b)])"

declare num_str.simps [simp del]

definition pad0 :: "nat \<Rightarrow> string \<Rightarrow> string" where
  "pad0 w s = replicate (w - length s) CHR ''0'' @ s"

definition fmt_u :: "nat \<Rightarrow> string" where
  "fmt_u n = num_str 10 n"

definition fmt_d :: "int \<Rightarrow> string" where
  "fmt_d i = (if i < 0 then CHR ''-'' # num_str 10 (nat (- i)) else num_str 10 (nat i))"

definition fmt_02d :: "int \<Rightarrow> string" where
  "fmt_02d i = (if i < 0 then CHR ''-'' # pad0 1 (num_str 10 (nat (- i))) else pad0 2 (num_str 10 (nat i)))"

definition fmt_X :: "nat \<Rightarrow> nat \<Rightarrow> string" where
  "fmt_X w n = pad0 w (num_str 16 n)"

text \<open>
  \<open>%s\<close> on a null pointer is undefined in C; glibc, the library the daemon is built
  against, prints \<open>(null)\<close>.
\<close>

definition fmt_s :: "string option \<Rightarrow> string" where
  "fmt_s p = (case p of None \<Rightarrow> ''(null)'' | Some s \<Rightarrow> s)"

text \<open>\<open>snprintf(buf, n, \<dots>)\<close> leaves at most \<open>n - 1\<close> characters and a NUL.\<close>

definition snprintf_text :: "nat \<Rightarrow> string \<Rightarrow> string" where
  "snprintf_text n s = take (n - 1) s"

definition json_bool :: "bool \<Rightarrow> string" where
  "json_bool b = (if b then ''true'' else ''false'')"

lemma fmt_s_simps [simp]: "fmt_s None = ''(null)''" "fmt_s (Some s) = s"
  by (simp_all add: fmt_s_def)

lemma num_str_less: "n < b \<Longrightarrow> num_str b n = [digit_char n]"
  by (simp add: num_str.simps)

lemma num_str_step: "2 \<le> b \<Longrightarrow> b \<le> n \<Longrightarrow> num_str b n = num_str b (n div b) @ [digit_char (n mod b)]"
  by (subst num_str.simps) simp

lemma num_str_nonempty [simp]: "num_str b n \<noteq> []"
  by (subst num_str.simps) simp

lemma length_num_str_le: "n < b ^ Suc k \<Longrightarrow> length (num_str b n) \<le> Suc k"
proof (induction k arbitrary: n)
  case 0
  then show ?case by (simp add: num_str_less)
next
  case (Suc k)
  show ?case
  proof (cases "b < 2 \<or> n < b")
    case True
    then show ?thesis by (subst num_str.simps) simp
  next
    case False
    from Suc.prems False have "n div b < b ^ Suc k"
      by (simp add: less_mult_imp_div_less mult.commute)
    then have "length (num_str b (n div b)) \<le> Suc k"
      by (rule Suc.IH)
    with False show ?thesis by (simp add: num_str_step)
  qed
qed

lemma length_pad0 [simp]: "length (pad0 w s) = max w (length s)"
  by (simp add: pad0_def)

section \<open>Conversions of digit strings\<close>

lemma isdigit_plain: "isdigit c \<Longrightarrow> \<not> isspace c \<and> c \<noteq> CHR ''-'' \<and> c \<noteq> CHR ''+'' \<and> c \<noteq> CHR 0x22 \<and> c \<noteq> CHR 0x27"
  by (auto simp: isdigit_def isspace_def ord_def)

lemma strtol10_digits:
  assumes "v \<noteq> []" "\<forall>c \<in> set v. isdigit c"
  shows "strtol10 v =
     (if int (digits_val 10 v) > LONG_MAX
      then \<lparr>sr_value = LONG_MAX, sr_erange = True, sr_converted = True, sr_rest = []\<rparr>
      else \<lparr>sr_value = int (digits_val 10 v), sr_erange = False, sr_converted = True, sr_rest = []\<rparr>)"
proof -
  from assms isdigit_plain have v: "dropWhile isspace v = v" "split_sign v = (False, v)"
    by (cases v; auto)+
  from assms(2) have d: "takeWhile isdigit v = v" "dropWhile isdigit v = []"
    by (auto simp: takeWhile_eq_all_conv)
  have "\<not> int (digits_val 10 v) < LONG_MIN" by (simp add: LONG_MIN_def)
  then show ?thesis using assms(1) by (simp add: strtol10_def v d)
qed

end
