(* ===== verification/X10_Codes.thy ===== *)
theory X10_Codes
  imports Mochad_Prelude
begin

text \<open>
  The code tables and bit layouts of the X10 protocol: the lookup tables and the pure decoders
  of \<open>src/x10/decode.c\<close> (house, unit and function codes, RF security checksums and names,
  camera keys) and the encoding tables of \<open>src/x10/encode.c\<close>. The locales state what an
  encoder and a decoder table owe each other; they are interpreted on the code's tables.
\<close>

section \<open>Tables of decode.c\<close>

definition Paritytable :: "nat list" where
  "Paritytable =
    [0, 1, 1, 0, 1, 0, 0, 1, 1, 0, 0, 1, 0, 1, 1, 0, 1, 0, 0, 1, 0, 1, 1, 0, 0, 1, 1, 0, 1, 0, 0, 1,
     1, 0, 0, 1, 0, 1, 1, 0, 0, 1, 1, 0, 1, 0, 0, 1, 0, 1, 1, 0, 1, 0, 0, 1, 1, 0, 0, 1, 0, 1, 1, 0,
     1, 0, 0, 1, 0, 1, 1, 0, 0, 1, 1, 0, 1, 0, 0, 1, 0, 1, 1, 0, 1, 0, 0, 1, 1, 0, 0, 1, 0, 1, 1, 0,
     0, 1, 1, 0, 1, 0, 0, 1, 1, 0, 0, 1, 0, 1, 1, 0, 1, 0, 0, 1, 0, 1, 1, 0, 0, 1, 1, 0, 1, 0, 0, 1,
     1, 0, 0, 1, 0, 1, 1, 0, 0, 1, 1, 0, 1, 0, 0, 1, 0, 1, 1, 0, 1, 0, 0, 1, 1, 0, 0, 1, 0, 1, 1, 0,
     0, 1, 1, 0, 1, 0, 0, 1, 1, 0, 0, 1, 0, 1, 1, 0, 1, 0, 0, 1, 0, 1, 1, 0, 0, 1, 1, 0, 1, 0, 0, 1,
     0, 1, 1, 0, 1, 0, 0, 1, 1, 0, 0, 1, 0, 1, 1, 0, 1, 0, 0, 1, 0, 1, 1, 0, 0, 1, 1, 0, 1, 0, 0, 1,
     1, 0, 0, 1, 0, 1, 1, 0, 0, 1, 1, 0, 1, 0, 0, 1, 0, 1, 1, 0, 1, 0, 0, 1, 1, 0, 0, 1, 0, 1, 1, 0]"

definition HouseUnitTable :: string where
  "HouseUnitTable = ''MECKOGAINFDLPHBJ''"

definition HouseUnitTableRF :: string where
  "HouseUnitTableRF = ''MNOPCDABEFGHKLIJ''"

definition Funcname :: "string list" where
  "Funcname =
    [''All units off'',
     ''All lights on'',
     ''On'',
     ''Off'',
     ''Dim'',
     ''Bright'',
     ''All lights off'',
     ''Ext code 1, data, control'',
     ''Hail request'',
     ''Hail ack'',
     ''Ext code 3, security msg'',
     ''Unused'',
     ''Ext code 2, meter read, DSM'',
     ''Status on'',
     ''Status off'',
     ''Status request'']"

definition SecEventNames :: "(byte \<times> string) list" where
  "SecEventNames =
    [(0x0C, ''Motion_alert_MS10A''),
     (0x8C, ''Motion_normal_MS10A''),
     (0x0D, ''Motion_alert_low_MS10A''),
     (0x8D, ''Motion_normal_low_MS10A''),
     (0x04, ''Contact_alert_min_DS10A''),
     (0x84, ''Contact_normal_min_DS10A''),
     (0x44, ''Contact_alert_min_tamper_DS12A''),
     (0xC4, ''Contact_normal_min_tamper_DS12A''),
     (0x00, ''Contact_alert_max_DS10A''),
     (0x80, ''Contact_normal_max_DS10A''),
     (0x40, ''Contact_alert_max_tamper_DS12A''),
     (0xC0, ''Contact_normal_max_tamper_DS12A''),
     (0x01, ''Contact_alert_min_low_DS10A''),
     (0x81, ''Contact_normal_min_low_DS10A''),
     (0x05, ''Contact_alert_max_low_DS10A''),
     (0x85, ''Contact_normal_max_low_DS10A''),
     (0x06, ''Arm_KR10A''),
     (0x86, ''Disarm_KR10A''),
     (0x46, ''Lights_On_KR10A''),
     (0xC6, ''Lights_Off_KR10A''),
     (0x26, ''Panic_KR10A''),
     (0x03, ''Panic_KR15A'')]"

definition SecRemoteKeyNames :: "(byte \<times> string) list" where
  "SecRemoteKeyNames =
    [(0x0E, ''Arm_Home_min_SH624''),
     (0x06, ''Arm_Away_min_SH624''),
     (0x0A, ''Arm_Home_max_SH624''),
     (0x02, ''Arm_Away_max_SH624''),
     (0x82, ''Disarm_SH624''),
     (0x22, ''Panic_SH624''),
     (0x42, ''Lights_On_SH624''),
     (0xC2, ''Lights_Off_SH624''),
     (0x04, ''Motion_alert_SP554A''),
     (0x84, ''Motion_normal_SP554A''),
     (0x0C, ''Motion_alert_Home_Away_SP554A''),
     (0x8C, ''Motion_normal_Home_Away_SP554A'')]"

definition RFCAMKeyCodes :: "string option list" where
  "RFCAMKeyCodes =
    [Some ''CAMPRESET5'',
     Some ''CAMEDITPRESET5'',
     Some ''CAMPRESET6'',
     Some ''CAMEDITPRESET6'',
     Some ''CAMPRESET7'',
     Some ''CAMEDITPRESET7'',
     Some ''CAMPRESET8'',
     Some ''CAMEDITPRESET8'',
     Some ''CAMPRESET9'',
     Some ''CAMEDITPRESET9'',
     None,
     None,
     Some ''CAMLEFT'',
     Some ''CAMRIGHT'',
     Some ''CAMUP'',
     Some ''CAMDOWN'',
     Some ''CAMPRESET1'',
     Some ''CAMEDITPRESET1'',
     Some ''CAMPRESET2'',
     Some ''CAMEDITPRESET2'',
     Some ''CAMPRESET3'',
     Some ''CAMEDITPRESET3'',
     Some ''CAMPRESET4'',
     Some ''CAMEDITPRESET4'',
     Some ''CAMCENTER'',
     None,
     Some ''CAMSWEEP'']"

section \<open>Tables of encode.c\<close>

definition funccommands :: "string list" where
  "funccommands =
    [''ALL_UNITS_OFF'',
     ''ALL_LIGHTS_ON'',
     ''ON'',
     ''OFF'',
     ''DIM'',
     ''BRIGHT'',
     ''ALL_LIGHTS_OFF'',
     ''EXTENDED_CODE_1'',
     ''HAIL_REQUEST'',
     ''HAIL_ACK'',
     ''EXTENDED_CODE_3'',
     ''UNUSED'',
     ''EXTENDED_CODE_2'',
     ''STATUS_ON'',
     ''STATUS_OFF'',
     ''STATUS_REQUEST'',
     ''XDIM'']"

definition x10housecode :: "byte list" where
  "x10housecode = [0x06, 0x0e, 0x02, 0x0a, 0x01, 0x09, 0x05, 0x0d, 0x07, 0x0f, 0x03, 0x0b, 0x00, 0x08, 0x04, 0x0c]"

definition x10housecoderf :: "byte list" where
  "x10housecoderf = [0x06, 0x07, 0x04, 0x05, 0x08, 0x09, 0x0a, 0x0b, 0x0e, 0x0f, 0x0c, 0x0d, 0x00, 0x01, 0x02, 0x03]"

definition SecEventNameslongaddr :: "(byte \<times> string) list" where
  "SecEventNameslongaddr =
    [(0x0C, ''MOTION_ALERT''),
     (0x8C, ''MOTION_NORMAL''),
     (0x0D, ''MOTION_ALERT_LOW''),
     (0x8D, ''MOTION_NORMAL_LOW''),
     (0x04, ''CONTACT_ALERT_MIN''),
     (0x84, ''CONTACT_NORMAL_MIN''),
     (0x00, ''CONTACT_ALERT_MAX''),
     (0x80, ''CONTACT_NORMAL_MAX''),
     (0x01, ''CONTACT_ALERT_MIN_LOW''),
     (0x81, ''CONTACT_NORMAL_MIN_LOW''),
     (0x05, ''CONTACT_ALERT_MAX_LOW''),
     (0x85, ''CONTACT_NORMAL_MAX_LOW''),
     (0x06, ''ARM''),
     (0x86, ''DISARM''),
     (0x46, ''LIGHTS_ON''),
     (0xC6, ''LIGHTS_OFF''),
     (0x26, ''PANIC'')]"

definition SecRemoteKeyNames8bitaddr :: "(byte \<times> string) list" where
  "SecRemoteKeyNames8bitaddr =
    [(0x06, ''ARM''),
     (0x0E, ''ARM_HOME_MIN''),
     (0x06, ''ARM_AWAY_MIN''),
     (0x0A, ''ARM_HOME_MAX''),
     (0x02, ''ARM_AWAY_MAX''),
     (0x82, ''DISARM''),
     (0x22, ''PANIC''),
     (0x42, ''LIGHTS_ON''),
     (0xC2, ''LIGHTS_OFF'')]"

lemmas code_tables =
  HouseUnitTable_def HouseUnitTableRF_def x10housecode_def x10housecoderf_def

section \<open>Decoding house, unit and function codes\<close>

definition hi_nibble :: "byte \<Rightarrow> nat" where
  "hi_nibble b = unat (drop_bit 4 (b AND 0xF0))"

definition lo_nibble :: "byte \<Rightarrow> nat" where
  "lo_nibble b = unat (b AND 0x0F)"

text \<open>House letter and unit number (1 to 16).\<close>

definition huc_decode :: "byte \<Rightarrow> char \<times> nat" where
  "huc_decode houseunit =
     (HouseUnitTable ! hi_nibble houseunit, (ord (HouseUnitTable ! lo_nibble houseunit) - 65) + 1)"

text \<open>House letter and function number (0 to 15).\<close>

definition hfc_decode :: "byte \<Rightarrow> char \<times> nat" where
  "hfc_decode houseunit = (HouseUnitTable ! hi_nibble houseunit, lo_nibble houseunit)"

definition uc_decode :: "byte \<Rightarrow> nat" where
  "uc_decode unit = (ord (HouseUnitTable ! lo_nibble unit) - 65) + 1"

text \<open>
  House letter, function (0 on, 1 off, 2 dim, 3 bright) and unit number of a standard RF frame;
  dim and bright carry no unit and return 0.
\<close>

definition hufc_decode :: "byte \<Rightarrow> byte \<Rightarrow> char \<times> nat \<times> nat" where
  "hufc_decode houseunit unitfunc =
     (let housechar = HouseUnitTableRF ! hi_nibble houseunit
      in if unitfunc = 0x88 then (housechar, 3, 0)
         else if unitfunc = 0x98 then (housechar, 2, 0)
         else
           (housechar, unat (drop_bit 5 (unitfunc AND 0x20)),
            unat (push_bit 1 (houseunit AND 0x04) OR drop_bit 4 (unitfunc AND 0x40)
                  OR drop_bit 2 (unitfunc AND 0x08) OR drop_bit 4 (unitfunc AND 0x10)) + 1))"

text \<open>\<open>housechar - 'A'\<close>, the row of the state tables.\<close>

definition house_index :: "char \<Rightarrow> nat" where
  "house_index c = ord c - 65"

section \<open>Names\<close>

fun lookup_code :: "('c \<times> string) list \<Rightarrow> 'c \<Rightarrow> string option" where
  "lookup_code [] c = None"
| "lookup_code ((d, n) # ts) c = (if c = d then Some n else lookup_code ts c)"

fun lookup_name :: "('c \<times> string) list \<Rightarrow> string \<Rightarrow> 'c option" where
  "lookup_name [] s = None"
| "lookup_name ((d, n) # ts) s = (if s = n then Some d else lookup_name ts s)"

definition findSecEventName :: "byte \<Rightarrow> string option" where
  "findSecEventName secev = lookup_code SecEventNames secev"

definition findSecRemoteKeyName :: "byte \<Rightarrow> string option" where
  "findSecRemoteKeyName secev = lookup_code SecRemoteKeyNames secev"

section \<open>RF cameras\<close>

text \<open>
  \<open>findCamRemoteName(&buf[1], len - 1)\<close>: \<open>cam\<close> is the frame from its second byte on,
  of which \<open>commandlen\<close> bytes are valid.
\<close>

definition findCamRemoteName :: "byte list \<Rightarrow> nat \<Rightarrow> string option" where
  "findCamRemoteName cam commandlen =
     (if commandlen < 4 \<or> cam ! 0 \<noteq> 0x14 then None
      else let checksum = cam ! 1;
               keycode = cam ! 2;
               housecode = drop_bit 4 (cam ! 3) AND 0x0F;
               mychecksum = push_bit 4 housecode + (keycode - 0x2B)
           in if checksum \<noteq> mychecksum then None
              else if keycode < 0x54 then None
              else let keyindex = unat keycode - 0x54
                   in if keyindex \<ge> length RFCAMKeyCodes then None
                      else case RFCAMKeyCodes ! keyindex of
                             None \<Rightarrow> None
                           | Some k \<Rightarrow>
                               Some (snprintf_text 32
                                 ([HouseUnitTableRF ! unat housecode] @ '' '' @ k)))"

fun find_key_from :: "nat \<Rightarrow> string option list \<Rightarrow> string \<Rightarrow> int" where
  "find_key_from i [] s = -1"
| "find_key_from i (None # ks) s = find_key_from (Suc i) ks s"
| "find_key_from i (Some p # ks) s = (if s = p then int i + 0x54 else find_key_from (Suc i) ks s)"

definition findCamRemoteCommand :: "string \<Rightarrow> int" where
  "findCamRemoteCommand keyname = find_key_from 0 RFCAMKeyCodes keyname"

section \<open>RF security checksums\<close>

datatype secaf_error = Bad_checksum | Bad_parity

text \<open>
  \<open>secaf_decode\<close>: \<open>-1\<close> is \<open>Bad_checksum\<close> (also for a short frame), \<open>-2\<close>
  is \<open>Bad_parity\<close>; otherwise the three address bytes and the function byte.
\<close>

definition secaf_decode :: "byte list \<Rightarrow> nat \<Rightarrow> secaf_error + ((byte \<times> byte \<times> byte) \<times> byte)" where
  "secaf_decode buf len =
     (if len < 8 then Inl Bad_checksum
      else if (buf ! 2 XOR buf ! 3) \<noteq> 0x0F \<or> (buf ! 4 XOR buf ! 5) \<noteq> 0xFF then Inl Bad_checksum
      else if Paritytable ! unat (buf ! 6 XOR buf ! 7) \<noteq> 0 then Inl Bad_parity
      else Inr ((buf ! 2, buf ! 6, buf ! 7), buf ! 4))"

section \<open>Nibbles\<close>

lemma byte_0F_mask: "(0x0F :: byte) = mask 4"
  by (simp add: mask_eq_exp_minus_1)

lemma byte_F0_mask: "(0xF0 :: byte) = push_bit 4 (mask 4)"
  by (simp add: mask_eq_exp_minus_1 push_bit_eq_mult)

lemma take_bit_nibble: "unat (a :: byte) < 16 \<Longrightarrow> take_bit 4 a = a"
  by (simp add: word_unat_eq_iff unsigned_take_bit_eq take_bit_nat_eq_self_iff)

lemma bit_nibble: "unat (a :: byte) < 16 \<Longrightarrow> bit a n \<Longrightarrow> n < 4"
  by (metis take_bit_nibble bit_take_bit_iff)

lemma hi_nibble_less [simp]: "hi_nibble b < 16"
proof -
  have "unat (b AND 0xF0) \<le> unat (0xF0 :: byte)"
    by (rule word_and_le1 [THEN word_le_nat_alt [THEN iffD1]])
  then show ?thesis by (simp add: hi_nibble_def drop_bit_eq_div unat_div)
qed

lemma lo_nibble_less [simp]: "lo_nibble b < 16"
  by (simp add: lo_nibble_def byte_0F_mask take_bit_eq_mask [symmetric] take_bit_eq_mod unat_mod)

lemma hi_nibble_pack [simp]:
  "unat a < 16 \<Longrightarrow> unat b < 16 \<Longrightarrow> hi_nibble (push_bit 4 a OR b) = unat a"
proof -
  assume "unat a < 16" "unat b < 16"
  then have "drop_bit 4 ((push_bit 4 a OR b) AND 0xF0) = a"
    by (intro bit_word_eqI) (auto simp: bit_simps byte_F0_mask dest: bit_nibble)
  then show ?thesis by (simp add: hi_nibble_def)
qed

lemma lo_nibble_pack [simp]:
  "unat a < 16 \<Longrightarrow> unat b < 16 \<Longrightarrow> lo_nibble (push_bit 4 a OR b) = unat b"
proof -
  assume "unat a < 16" "unat b < 16"
  then have "(push_bit 4 a OR b) AND 0x0F = b"
    by (intro bit_word_eqI) (auto simp: bit_simps byte_0F_mask dest: bit_nibble)
  then show ?thesis by (simp add: lo_nibble_def)
qed

section \<open>House codings\<close>

locale house_coding =
  fixes enc :: "byte list" and dec :: string
  assumes enc_length: "length enc = 16"
    and dec_length: "length dec = 16"
    and enc_small: "h < 16 \<Longrightarrow> unat (enc ! h) < 16"
    and dec_enc: "h < 16 \<Longrightarrow> dec ! unat (enc ! h) = chr (65 + h)"
begin

lemma enc_inj: "h < 16 \<Longrightarrow> k < 16 \<Longrightarrow> enc ! h = enc ! k \<Longrightarrow> h = k"
proof -
  assume a: "h < 16" "k < 16" "enc ! h = enc ! k"
  then have "ord (chr (65 + h)) = ord (chr (65 + k))"
    using dec_enc by metis
  with a show "h = k" by simp
qed

lemma enc_onto: "n < 16 \<Longrightarrow> \<exists>h < 16. unat (enc ! h) = n"
proof -
  assume n: "n < 16"
  let ?f = "\<lambda>h. unat (enc ! h)"
  have inj: "inj_on ?f {..<16}"
    by (auto intro!: inj_onI enc_inj simp: word_unat_eq_iff)
  have "?f ` {..<16} \<subseteq> {..<16}" using enc_small by auto
  then have "?f ` {..<16} = {..<16}"
    using inj by (rule endo_inj_surj [OF finite_lessThan])
  then have "n \<in> ?f ` {..<16}" using n by blast
  then show ?thesis by auto
qed

lemma dec_letter: "n < 16 \<Longrightarrow> \<exists>h < 16. dec ! n = chr (65 + h)"
  using enc_onto dec_enc by metis

lemma dec_index: "n < 16 \<Longrightarrow> house_index (dec ! n) < 16"
  using dec_letter [of n] by (auto simp: house_index_def)

lemma dec_enc_index: "h < 16 \<Longrightarrow> house_index (dec ! unat (enc ! h)) = h"
  by (simp add: dec_enc house_index_def)

lemma enc_dec: "n < 16 \<Longrightarrow> unat (enc ! house_index (dec ! n)) = n"
  using enc_onto [of n] dec_enc_index by metis

end


lemma all_less_16: "(\<forall>h < (16::nat). P h) \<longleftrightarrow>
   P 15 \<and> P 14 \<and> P 13 \<and> P 12 \<and> P 11 \<and> P 10 \<and> P 9 \<and> P 8 \<and> P 7 \<and> P 6 \<and> P 5 \<and> P 4 \<and> P 3 \<and> P 2 \<and> P 1 \<and> P 0"
  by (simp add: numeral_eq_Suc All_less_Suc)


interpretation pl_code: house_coding x10housecode HouseUnitTable
proof
  have "\<forall>h < 16. unat (x10housecode ! h) < 16 \<and> HouseUnitTable ! unat (x10housecode ! h) = chr (65 + h)"
    unfolding all_less_16 by (simp add: code_tables chr_def char_of_def bit_0)
  then show "\<And>h. h < 16 \<Longrightarrow> unat (x10housecode ! h) < 16"
    and "\<And>h. h < 16 \<Longrightarrow> HouseUnitTable ! unat (x10housecode ! h) = chr (65 + h)" by blast+
qed (simp_all add: code_tables)

interpretation rf_code: house_coding x10housecoderf HouseUnitTableRF
proof
  have "\<forall>h < 16. unat (x10housecoderf ! h) < 16 \<and> HouseUnitTableRF ! unat (x10housecoderf ! h) = chr (65 + h)"
    unfolding all_less_16 by (simp add: code_tables chr_def char_of_def bit_0)
  then show "\<And>h. h < 16 \<Longrightarrow> unat (x10housecoderf ! h) < 16"
    and "\<And>h. h < 16 \<Longrightarrow> HouseUnitTableRF ! unat (x10housecoderf ! h) = chr (65 + h)" by blast+
qed (simp_all add: code_tables)

lemma house_index_chr [simp]: "h < 16 \<Longrightarrow> house_index (chr (65 + h)) = h"
  by (simp add: house_index_def)

section \<open>What the decoders return\<close>

text \<open>Every house index and unit number a decoder hands to the state tables is in range.\<close>

lemma huc_decode_range:
  "huc_decode b = (c, u) \<Longrightarrow> house_index c < 16 \<and> 1 \<le> u \<and> u \<le> 16"
  using pl_code.dec_index [of "hi_nibble b"] pl_code.dec_index [of "lo_nibble b"]
  by (auto simp: huc_decode_def house_index_def)

lemma hfc_decode_range: "hfc_decode b = (c, f) \<Longrightarrow> house_index c < 16 \<and> f < 16"
  using pl_code.dec_index [of "hi_nibble b"] by (auto simp: hfc_decode_def)

lemma uc_decode_range: "1 \<le> uc_decode b \<and> uc_decode b \<le> 16"
  using pl_code.dec_index [of "lo_nibble b"] by (auto simp: uc_decode_def house_index_def)

lemma and_exp_bit: "(b :: byte) AND 2 ^ k = (if bit b k then 2 ^ k else 0)"
  by (rule bit_word_eqI) (auto simp: bit_simps)

lemma byte_single_bits:
  "(b :: byte) AND 0x01 = (if bit b 0 then 0x01 else 0)"
  "b AND 0x02 = (if bit b 1 then 0x02 else 0)"
  "b AND 0x04 = (if bit b 2 then 0x04 else 0)"
  "b AND 0x08 = (if bit b 3 then 0x08 else 0)"
  "b AND 0x10 = (if bit b 4 then 0x10 else 0)"
  "b AND 0x20 = (if bit b 5 then 0x20 else 0)"
  "b AND 0x40 = (if bit b 6 then 0x40 else 0)"
  using and_exp_bit [of b 0] and_exp_bit [of b 1] and_exp_bit [of b 2] and_exp_bit [of b 3]
    and_exp_bit [of b 4] and_exp_bit [of b 5] and_exp_bit [of b 6] by simp_all

lemma hufc_unit:
  "unat (push_bit 1 (hu AND 0x04) OR drop_bit 4 (uf AND 0x40) OR drop_bit 2 (uf AND 0x08)
         OR drop_bit 4 (uf AND 0x10) :: byte)
   = 8 * of_bool (bit hu 2) + 4 * of_bool (bit uf 6) + 2 * of_bool (bit uf 3) + of_bool (bit uf 4)"
  unfolding byte_single_bits
  by (cases "bit hu 2"; cases "bit uf 6"; cases "bit uf 3"; cases "bit uf 4") simp_all

lemma hufc_func: "unat (drop_bit 5 (uf AND 0x20) :: byte) = of_bool (bit uf 5)"
  unfolding byte_single_bits by simp

lemma hufc_decode_bits:
  "hufc_decode hu uf =
     (if uf = 0x88 then (HouseUnitTableRF ! hi_nibble hu, 3, 0)
      else if uf = 0x98 then (HouseUnitTableRF ! hi_nibble hu, 2, 0)
      else (HouseUnitTableRF ! hi_nibble hu, of_bool (bit uf 5),
        Suc (8 * of_bool (bit hu 2) + 4 * of_bool (bit uf 6) + 2 * of_bool (bit uf 3) + of_bool (bit uf 4))))"
  unfolding hufc_decode_def Let_def hufc_unit hufc_func by simp

lemma hufc_decode_range:
  "hufc_decode hu uf = (c, f, u) \<Longrightarrow> house_index c < 16 \<and> f < 4 \<and> u \<le> 16 \<and> (f \<le> 1 \<longrightarrow> 1 \<le> u)"
  using rf_code.dec_index [of "hi_nibble hu"]
  by (auto simp: hufc_decode_bits split: if_splits)

section \<open>The parity table\<close>

text \<open>The parity of a byte, computed from its bits.\<close>

definition parity8 :: "nat \<Rightarrow> nat" where
  "parity8 n = (n mod 2 + n div 2 mod 2 + n div 4 mod 2 + n div 8 mod 2
     + n div 16 mod 2 + n div 32 mod 2 + n div 64 mod 2 + n div 128 mod 2) mod 2"

lemma upt_0_256: "[0..<256] = 0 # 1 # [2..<256]"
  by (simp add: upt_conv_Cons numeral_2_eq_2 del: One_nat_def)

lemma Paritytable_parity8: "Paritytable = map parity8 [0..<256]"
  unfolding upt_0_256 by (simp add: upt_rec_numeral parity8_def Paritytable_def del: One_nat_def)

lemma Paritytable_nth: "Paritytable ! unat (b :: byte) = parity8 (unat b)"
proof -
  have "unat b < 256" using unsigned_less [of b] by simp
  then show ?thesis by (simp add: Paritytable_parity8)
qed

section \<open>Name tables\<close>

locale name_table =
  fixes tab :: "('c \<times> string) list"
  assumes distinct_names: "distinct (map snd tab)"
begin

lemma lookup_name_mem: "(c, n) \<in> set tab \<Longrightarrow> lookup_name tab n = Some c"
  using distinct_names by (induction tab) force+

lemma lookup_name_sound: "lookup_name tab n = Some c \<Longrightarrow> (c, n) \<in> set tab"
  by (induction tab) (auto split: if_splits)

lemma lookup_code_sound: "lookup_code tab c = Some n \<Longrightarrow> (c, n) \<in> set tab"
  by (induction tab) (auto split: if_splits)

lemma name_of_code: "lookup_code tab c = Some n \<Longrightarrow> lookup_name tab n = Some c"
  by (intro lookup_name_mem lookup_code_sound)

lemma lookup_name_None: "lookup_name tab n = None \<longleftrightarrow> n \<notin> snd ` set tab"
  by (induction tab) (auto split: if_splits)

end

interpretation long_names: name_table SecEventNameslongaddr
  by unfold_locales (simp add: SecEventNameslongaddr_def)

interpretation short_names: name_table SecRemoteKeyNames8bitaddr
  by unfold_locales (simp add: SecRemoteKeyNames8bitaddr_def)

interpretation event_names: name_table SecEventNames
  by unfold_locales (simp add: SecEventNames_def)

interpretation key_names: name_table SecRemoteKeyNames
  by unfold_locales (simp add: SecRemoteKeyNames_def)

end
