(* ===== verification/X10_Frames.thy ===== *)
theory X10_Frames
  imports X10_Codes
begin

text \<open>
  The frames the transmit functions of \<open>src/x10/encode.c\<close> build, as byte lists: for the
  power line the buffer made as if received (which the decoder is run on) and the packet that
  is transmitted; for RF one frame that is both. The lemmas decode each frame back.
\<close>

section \<open>Function numbers\<close>

definition FUNC_ON :: nat where "FUNC_ON = 2"
definition FUNC_OFF :: nat where "FUNC_OFF = 3"
definition FUNC_DIM :: nat where "FUNC_DIM = 4"
definition FUNC_BRIGHT :: nat where "FUNC_BRIGHT = 5"
definition FUNC_EXTENDED_CODE_1 :: nat where "FUNC_EXTENDED_CODE_1 = 7"
definition FUNC_EXTENDED_DIM :: nat where "FUNC_EXTENDED_DIM = 16"

lemmas func_defs =
  FUNC_ON_def FUNC_OFF_def FUNC_DIM_def FUNC_BRIGHT_def FUNC_EXTENDED_CODE_1_def FUNC_EXTENDED_DIM_def

section \<open>Power line\<close>

definition pl_pack :: "nat \<Rightarrow> byte \<Rightarrow> byte" where
  "pl_pack house low = push_bit 4 (x10housecode ! house) OR low"

text \<open>\<open>pl_tx_houseunit\<close>: the 4 bytes decoded, the 2 bytes transmitted.\<close>

definition pl_houseunit_rx :: "nat \<Rightarrow> nat \<Rightarrow> byte list" where
  "pl_houseunit_rx house unit = [0x00, 0x02, 0x00, pl_pack house (x10housecode ! unit)]"

definition pl_houseunit_tx :: "nat \<Rightarrow> nat \<Rightarrow> byte list" where
  "pl_houseunit_tx house unit = [0x04, pl_pack house (x10housecode ! unit)]"

text \<open>\<open>pl_tx_extended_code_1\<close>: 7 bytes decoded, the last 5 transmitted.\<close>

definition pl_extended_rx :: "nat \<Rightarrow> nat \<Rightarrow> nat \<Rightarrow> nat \<Rightarrow> nat \<Rightarrow> byte list" where
  "pl_extended_rx house unit command subcmd param =
     [0x00, 0x05, 0x07, pl_pack house 0x7, x10housecode ! unit, word_of_nat param AND 0xFF,
      push_bit 4 (word_of_nat command AND 0x0F) OR (word_of_nat subcmd AND 0x0F)]"

definition pl_extended_tx :: "nat \<Rightarrow> nat \<Rightarrow> nat \<Rightarrow> nat \<Rightarrow> nat \<Rightarrow> byte list" where
  "pl_extended_tx house unit command subcmd param = drop 2 (pl_extended_rx house unit command subcmd param)"

text \<open>
  \<open>pl_tx_housefunc\<close>. Dim and bright: 5 bytes decoded; transmitted are the prefix
  \<open>0x06\<close>, the house/function byte and the dims. Extended dim and the other functions follow
  their own branches of the switch. \<open>buf\<close> has 7 bytes, those not written are not read.
\<close>

definition dims_bits :: "nat \<Rightarrow> byte" where
  "dims_bits param = push_bit 3 (word_of_nat param AND 0x1F)"

definition pl_housefunc_rx :: "nat \<Rightarrow> nat \<Rightarrow> nat \<Rightarrow> byte list" where
  "pl_housefunc_rx house func param =
     (if func = FUNC_DIM \<or> func = FUNC_BRIGHT then
        [0x00, 0x03, 0x02, dims_bits param OR 0x01, pl_pack house (word_of_nat func)]
      else if func = FUNC_EXTENDED_DIM then
        [0x00, 0x05, 0x07, pl_pack house 0x7, 0x02, word_of_nat param AND 0xFF, 0x31]
      else [0x00, 0x02, 0x01, pl_pack house (word_of_nat func)])"

definition pl_housefunc_tx :: "nat \<Rightarrow> nat \<Rightarrow> nat \<Rightarrow> byte list" where
  "pl_housefunc_tx house func param =
     (if func = FUNC_DIM \<or> func = FUNC_BRIGHT then
        [0x06, pl_pack house (word_of_nat func), 0x06 OR dims_bits param]
      else if func = FUNC_EXTENDED_DIM then drop 2 (pl_housefunc_rx house func param)
      else [0x06, pl_pack house (word_of_nat func)])"

section \<open>RF\<close>

text \<open>
  \<open>rf_tx_houseunitfunc\<close> up to its checks: \<open>unit\<close> is \<open>-1\<close> when the command named
  no unit, and is masked before it is tested, as in the code. \<open>None\<close> is the \<open>-1\<close> return.
\<close>

definition rf_frame :: "nat \<Rightarrow> int \<Rightarrow> nat \<Rightarrow> byte list option" where
  "rf_frame house unit func =
     (let unit8 = word_of_int (unit AND 8) :: byte;
          unit4 = word_of_int (unit AND 4) :: byte;
          unit2 = word_of_int (unit AND 2) :: byte;
          unit1 = word_of_int (unit AND 1) :: byte;
          b2 = push_bit 4 (x10housecoderf ! house) OR drop_bit 1 unit8;
          low = push_bit 4 unit4 OR push_bit 2 unit2 OR push_bit 4 unit1;
          frame = (\<lambda>b4. Some [0xEB, 0x20, b2, NOT b2, b4, NOT b4])
      in if func = FUNC_OFF then (if unit < 0 then None else frame (0x20 OR low))
         else if func = FUNC_ON then (if unit < 0 then None else frame low)
         else if func = FUNC_DIM then frame 0x98
         else if func = FUNC_BRIGHT then frame 0x88
         else None)"

definition rfsec_frame_short :: "64 word \<Rightarrow> byte \<Rightarrow> byte list" where
  "rfsec_frame_short rfaddr func =
     [0xEB, 0x20, ucast rfaddr, ucast rfaddr XOR 0x0F, func, NOT func]"

definition rfsec_frame_long :: "64 word \<Rightarrow> byte \<Rightarrow> byte list" where
  "rfsec_frame_long rfaddr func =
     (let addr1 = ucast (drop_bit 16 rfaddr) :: byte
      in [0xEB, 0x29, addr1, addr1 XOR 0x0F, func, NOT func, ucast (drop_bit 8 rfaddr), ucast rfaddr])"

definition rfcam_frame :: "nat \<Rightarrow> int \<Rightarrow> byte list" where
  "rfcam_frame h rfcamkey =
     (let house = push_bit 4 (x10housecoderf ! h);
          key = word_of_int rfcamkey :: byte
      in [0xEB, 0x14, house + (key - 0x2B), key, house])"

section \<open>Power line round trips\<close>

lemma code_unat_less [simp]: "h < 16 \<Longrightarrow> unat (x10housecode ! h) < 16"
  by (rule pl_code.enc_small)

lemma codeRF_unat_less [simp]: "h < 16 \<Longrightarrow> unat (x10housecoderf ! h) < 16"
  by (rule rf_code.enc_small)

lemma unat_word_of_nat_nibble [simp]: "n < 16 \<Longrightarrow> unat (word_of_nat n :: byte) = n"
  by (simp add: unat_of_nat)

lemma huc_decode_pack:
  "h < 16 \<Longrightarrow> u < 16 \<Longrightarrow> huc_decode (pl_pack h (x10housecode ! u)) = (chr (65 + h), u + 1)"
  by (simp add: huc_decode_def pl_pack_def pl_code.dec_enc)

lemma hfc_decode_pack:
  "h < 16 \<Longrightarrow> f < 16 \<Longrightarrow> hfc_decode (pl_pack h (word_of_nat f)) = (chr (65 + h), f)"
  by (simp add: hfc_decode_def pl_pack_def pl_code.dec_enc)

lemma hfc_decode_pack_7: "h < 16 \<Longrightarrow> hfc_decode (pl_pack h 0x7) = (chr (65 + h), 7)"
  using hfc_decode_pack [of h 7] by simp

lemma uc_decode_code: "u < 16 \<Longrightarrow> uc_decode (x10housecode ! u) = u + 1"
proof -
  assume u: "u < 16"
  then have "lo_nibble (x10housecode ! u) = unat (x10housecode ! u)"
    using lo_nibble_pack [of 0 "x10housecode ! u"] by simp
  with u show ?thesis by (simp add: uc_decode_def pl_code.dec_enc)
qed

lemma byte_1F_mask: "(0x1F :: byte) = mask 5"
  by (simp add: mask_eq_exp_minus_1)

lemma byte_F8_mask: "(0xF8 :: byte) = push_bit 3 (mask 5)"
  by (simp add: mask_eq_exp_minus_1 push_bit_eq_mult)

lemma dims_decode: "unat (drop_bit 3 ((dims_bits p OR 0x01) AND 0xF8)) = p mod 32"
proof -
  have "drop_bit 3 ((dims_bits p OR 0x01) AND 0xF8) = take_bit 5 (word_of_nat p :: byte)"
    by (rule bit_word_eqI)
      (auto simp: dims_bits_def bit_simps byte_1F_mask byte_F8_mask bit_1_iff)
  then have "unat (drop_bit 3 ((dims_bits p OR 0x01) AND 0xF8)) = take_bit 5 (unat (word_of_nat p :: byte))"
    by (simp only: unsigned_take_bit_eq)
  then show ?thesis by (simp add: unat_of_nat take_bit_eq_mod mod_mod_cancel)
qed

section \<open>RF round trips\<close>

lemma byte_FF: "(0xFF :: byte) = mask 8"
  by (simp add: mask_eq_exp_minus_1)

lemma byte_xor_not [simp]: "b XOR NOT b = (0xFF :: byte)"
  by (rule bit_word_eqI) (auto simp: bit_simps byte_FF)

lemma byte_xor_same [simp]: "b XOR (b XOR c) = (c :: byte)"
  by (rule bit_word_eqI) (auto simp: bit_simps)

text \<open>The function byte of an on (or off) frame and the unit bit of its house byte, per unit.\<close>

lemma rf_unit_bits:
  assumes "u < 16"
  shows "hufc_decode (push_bit 4 a OR drop_bit 1 (word_of_int (int u AND 8)))
      (push_bit 4 (word_of_int (int u AND 4)) OR push_bit 2 (word_of_int (int u AND 2))
       OR push_bit 4 (word_of_int (int u AND 1))) =
      (HouseUnitTableRF ! hi_nibble (push_bit 4 a OR drop_bit 1 (word_of_int (int u AND 8))), 0, u + 1)" (is "?on u")
   and "hufc_decode (push_bit 4 a OR drop_bit 1 (word_of_int (int u AND 8)))
      (0x20 OR (push_bit 4 (word_of_int (int u AND 4)) OR push_bit 2 (word_of_int (int u AND 2))
       OR push_bit 4 (word_of_int (int u AND 1)))) =
      (HouseUnitTableRF ! hi_nibble (push_bit 4 a OR drop_bit 1 (word_of_int (int u AND 8))), 1, u + 1)" (is "?off u")
proof -
  have "\<forall>u < 16. ?on u \<and> ?off u"
    unfolding all_less_16 by (simp add: hufc_decode_bits bit_simps)
  with assms show "?on u" "?off u" by blast+
qed

lemma rf_hi_nibble:
  "h < 16 \<Longrightarrow> hi_nibble (push_bit 4 (x10housecoderf ! h) OR drop_bit 1 (word_of_int (k AND 8))) =
     unat (x10housecoderf ! h)"
proof -
  assume h: "h < 16"
  have "drop_bit 1 (word_of_int (k AND 8) :: byte) = (if bit k 3 then 4 else 0)"
    by (simp only: of_int_and_eq of_int_numeral byte_single_bits) (simp add: bit_simps)
  with h show ?thesis by simp
qed

text \<open>The frame of a valid on, off, dim or bright command and what the decoder makes of it.\<close>

lemma rf_frame_on_off:
  assumes "h < 16" "u < 16" "f = FUNC_ON \<or> f = FUNC_OFF"
  shows "\<exists>b2 b4. rf_frame h (int u) f = Some [0xEB, 0x20, b2, NOT b2, b4, NOT b4] \<and>
     hufc_decode b2 b4 = (chr (65 + h), f - 2, u + 1)"
  using assms
  by (auto simp: rf_frame_def Let_def func_defs rf_unit_bits [simplified] rf_hi_nibble [simplified] rf_code.dec_enc)

lemma rf_frame_dim_bright:
  assumes "h < 16" "f = FUNC_DIM \<or> f = FUNC_BRIGHT"
  shows "\<exists>b2 b4. rf_frame h k f = Some [0xEB, 0x20, b2, NOT b2, b4, NOT b4] \<and>
     hufc_decode b2 b4 = (chr (65 + h), f - 2, 0)"
  using assms
  by (auto simp: rf_frame_def Let_def func_defs rf_hi_nibble [simplified] rf_code.dec_enc hufc_decode_def)

lemma rf_frame_None:
  "rf_frame h k f = None \<longleftrightarrow>
     f \<notin> {FUNC_ON, FUNC_OFF, FUNC_DIM, FUNC_BRIGHT} \<or> (f \<in> {FUNC_ON, FUNC_OFF} \<and> k < 0)"
  by (auto simp: rf_frame_def Let_def func_defs)

section \<open>RF security round trips\<close>

lemma rfsec_short_checks:
  "rfsec_frame_short a f = [0xEB, 0x20, ucast a, ucast a XOR 0x0F, f, NOT f]"
  by (simp add: rfsec_frame_short_def)

lemma secaf_decode_frame:
  "secaf_decode (rfsec_frame_long a f) 8 =
     (if parity8 (unat (ucast (drop_bit 8 a) XOR ucast a :: byte)) = 0
      then Inr ((ucast (drop_bit 16 a), ucast (drop_bit 8 a), ucast a), f)
      else Inl Bad_parity)"
  by (simp add: secaf_decode_def rfsec_frame_long_def Let_def Paritytable_nth)

section \<open>Camera round trips\<close>

lemma find_key_from_bounds:
  "find_key_from i ks s = k \<Longrightarrow> k \<noteq> -1 \<Longrightarrow>
     \<exists>j < length ks. k = int (i + j) + 0x54 \<and> ks ! j = Some s"
proof (induction i ks s rule: find_key_from.induct)
  case (1 i s)
  then show ?case by simp
next
  case (2 i ks s)
  then obtain j where "j < length ks" "k = int (Suc i + j) + 0x54" "ks ! j = Some s" by auto
  then show ?case by (intro exI [of _ "Suc j"]) simp
next
  case (3 i p ks s)
  show ?case
  proof (cases "s = p")
    case True
    with 3 show ?thesis by (intro exI [of _ 0]) auto
  next
    case False
    with 3 obtain j where "j < length ks" "k = int (Suc i + j) + 0x54" "ks ! j = Some s" by auto
    then show ?thesis by (intro exI [of _ "Suc j"]) simp
  qed
qed

lemma findCamRemoteCommand_sound:
  "findCamRemoteCommand s = k \<Longrightarrow> k > 0 \<Longrightarrow>
     \<exists>j < length RFCAMKeyCodes. k = int j + 0x54 \<and> RFCAMKeyCodes ! j = Some s"
  using find_key_from_bounds [of 0 RFCAMKeyCodes s k] by (auto simp: findCamRemoteCommand_def)

lemma RFCAMKeyCodes_short: "Some s \<in> set RFCAMKeyCodes \<Longrightarrow> length s < 30"
  by (auto simp: RFCAMKeyCodes_def)

lemma length_RFCAMKeyCodes [simp]: "length RFCAMKeyCodes = 27"
  by (simp add: RFCAMKeyCodes_def)

lemma drop_push_nibble: "unat (a :: byte) < 16 \<Longrightarrow> drop_bit 4 (push_bit 4 a) AND 0x0F = a"
  by (rule bit_word_eqI) (auto simp: bit_simps byte_0F_mask dest: bit_nibble)

lemma rfcam_roundtrip:
  assumes "h < 16" "findCamRemoteCommand s = k" "k > 0"
  shows "findCamRemoteName (tl (rfcam_frame h k)) 4 = Some ([chr (65 + h)] @ '' '' @ s)"
proof -
  obtain j where j: "j < 27" "k = int j + 0x54" "RFCAMKeyCodes ! j = Some s"
    using findCamRemoteCommand_sound [OF assms(2,3)] by auto
  have len: "length s < 30"
    using j by (metis RFCAMKeyCodes_short nth_mem length_RFCAMKeyCodes)
  have key: "unat (word_of_int k :: byte) = j + 0x54"
  proof -
    have "(word_of_int k :: byte) = word_of_nat (j + 0x54)" using j(2) by simp
    with j(1) show ?thesis by (simp only: unat_of_nat) simp
  qed
  then have ge: "\<not> word_of_int k < (0x54 :: byte)"
    by (simp add: word_less_nat_alt)
  show ?thesis
    using assms(1) j(1,3) len key ge
    by (simp add: findCamRemoteName_def rfcam_frame_def Let_def drop_push_nibble rf_code.dec_enc
        snprintf_text_def)
qed

section \<open>Properties\<close>

text \<open>
  C25: Every function frame the transmitter builds decodes to the house letter and function it was
  built for; dim and bright carry the level modulo 32 (five bits), and the transmitted packet
  holds the same house/function byte.
\<close>

theorem pl_function_roundtrip:
  assumes "h < 16" "f < 16"
  shows "if f = FUNC_DIM \<or> f = FUNC_BRIGHT then
      hfc_decode (pl_housefunc_rx h f p ! 4) = (chr (65 + h), f) \<and>
      unat (drop_bit 3 (pl_housefunc_rx h f p ! 3 AND 0xF8)) = p mod 32 \<and>
      pl_housefunc_tx h f p = [0x06, pl_housefunc_rx h f p ! 4, 0x06 OR dims_bits p]
    else hfc_decode (pl_housefunc_rx h f p ! 3) = (chr (65 + h), f) \<and>
      pl_housefunc_tx h f p = [0x06, pl_housefunc_rx h f p ! 3]"
  using assms hfc_decode_pack [OF assms] dims_decode [of p]
  by (auto simp: pl_housefunc_rx_def pl_housefunc_tx_def func_defs)

theorem pl_function_roundtrip_witness:
  "hfc_decode (pl_housefunc_rx 2 4 40 ! 4) = (CHR ''C'', 4) \<and>
   unat (drop_bit 3 (pl_housefunc_rx 2 4 40 ! 3 AND 0xF8)) = 8"
  using pl_function_roundtrip [of 2 4 40]
  by (simp add: func_defs chr_def char_of_def bit_0)

text \<open>
  C26: An RF on or off command for any of the 256 units, and an RF dim or bright command, builds a
  frame with correct complement bytes that the receiver decodes to the same house, function and
  unit; every other function, and on or off without a unit, builds none.
\<close>

theorem rf_frame_roundtrip:
  assumes "h < 16" "u < 16"
  shows "(f \<in> {FUNC_ON, FUNC_OFF} \<longrightarrow>
       (\<exists>b2 b4. rf_frame h (int u) f = Some [0xEB, 0x20, b2, NOT b2, b4, NOT b4] \<and>
          hufc_decode b2 b4 = (chr (65 + h), f - 2, u + 1))) \<and>
     (f \<in> {FUNC_DIM, FUNC_BRIGHT} \<longrightarrow>
       (\<exists>b2 b4. rf_frame h k f = Some [0xEB, 0x20, b2, NOT b2, b4, NOT b4] \<and>
          hufc_decode b2 b4 = (chr (65 + h), f - 2, 0))) \<and>
     (f \<notin> {FUNC_ON, FUNC_OFF, FUNC_DIM, FUNC_BRIGHT} \<longrightarrow> rf_frame h k f = None) \<and>
     (f \<in> {FUNC_ON, FUNC_OFF} \<longrightarrow> rf_frame h (-1) f = None)"
  using rf_frame_on_off [OF assms, of f] rf_frame_dim_bright [OF assms(1), of f k]
  by (intro conjI impI) (simp_all add: rf_frame_None)

theorem rf_frame_roundtrip_witness:
  "\<exists>b2 b4. rf_frame 0 0 FUNC_ON = Some [0xEB, 0x20, b2, NOT b2, b4, NOT b4] \<and>
     hufc_decode b2 b4 = (CHR ''A'', 0, 1)"
  using rf_frame_roundtrip [of 0 0 FUNC_ON]
  by (simp add: FUNC_ON_def chr_def char_of_def bit_0)

text \<open>
  C31: The check of a long RF security frame accepts exactly the frames of at least eight bytes
  whose address checksum and function complement match and whose two low address bytes have
  together an even number of one bits; the frame the transmitter builds always passes the checksum.
\<close>

theorem secaf_decode_spec:
  "(secaf_decode buf len = Inr r \<longleftrightarrow>
     8 \<le> len \<and> buf ! 3 = buf ! 2 XOR 0x0F \<and> buf ! 5 = NOT (buf ! 4) \<and>
     parity8 (unat (buf ! 6 XOR buf ! 7)) = 0 \<and> r = ((buf ! 2, buf ! 6, buf ! 7), buf ! 4)) \<and>
   secaf_decode (rfsec_frame_long a f) 8 \<noteq> Inl Bad_checksum"
proof -
  have x: "x XOR y = 0x0F \<longleftrightarrow> y = x XOR 0x0F" for x y :: byte
    by (metis byte_xor_same)
  have n: "x XOR y = 0xFF \<longleftrightarrow> y = NOT x" for x y :: byte
    by (metis byte_xor_same byte_xor_not)
  have "secaf_decode buf len = Inr r \<longleftrightarrow>
     8 \<le> len \<and> buf ! 3 = buf ! 2 XOR 0x0F \<and> buf ! 5 = NOT (buf ! 4) \<and>
     parity8 (unat (buf ! 6 XOR buf ! 7)) = 0 \<and> r = ((buf ! 2, buf ! 6, buf ! 7), buf ! 4)"
    unfolding secaf_decode_def Paritytable_nth x n by auto
  then show ?thesis by (simp add: secaf_decode_frame)
qed

text \<open>
  C32: A camera frame for any known key name decodes back to the house letter and that name.
\<close>

theorem rfcam_frame_roundtrip:
  assumes "h < 16" "findCamRemoteCommand s > 0"
  shows "findCamRemoteName (tl (rfcam_frame h (findCamRemoteCommand s))) 4 =
    Some ([chr (65 + h)] @ '' '' @ s)"
  by (rule rfcam_roundtrip) (use assms in auto)

theorem rfcam_frame_roundtrip_witness:
  "findCamRemoteName (tl (rfcam_frame 1 0x60)) 4 = Some ''B CAMLEFT''"
proof -
  have k: "findCamRemoteCommand ''CAMLEFT'' = 0x60"
    by (simp add: findCamRemoteCommand_def RFCAMKeyCodes_def)
  from rfcam_frame_roundtrip [of 1 "''CAMLEFT''"] show ?thesis
    by (simp add: k chr_def char_of_def bit_0)
qed

end
