(* ===== verification/X10_State.thy ===== *)
theory X10_State
  imports X10_Codes "HOL-Library.Multiset"
begin

text \<open>
  \<open>src/x10/x10state.c\<close>: the selected units, on/off state and dim level of the 256 house/unit
  devices, the per-house address/function protocol state, and the table of security sensors.
  The static arrays are total functions on indices; that no cell outside the arrays' bounds is
  ever written is one of the facts proved. The sensor table is the list of its first
  \<open>X10sensorcount\<close> entries.
\<close>

section \<open>State\<close>

record x10secsensor =
  secaddr :: "64 word"
  lastupdate :: int
  secaddr8 :: byte
  sensorstatus :: byte

record x10state =
  HouseUnitState :: "nat \<Rightarrow> nat \<Rightarrow> byte"
  HouseUnitSelected :: "nat \<Rightarrow> nat \<Rightarrow> byte"
  HouseUnitDim :: "nat \<Rightarrow> nat \<Rightarrow> byte"
  X10protostate :: "nat \<Rightarrow> int"
  X10sensors :: "x10secsensor list"

definition X10SENSORS_MAX :: nat where "X10SENSORS_MAX = 512"

text \<open>The character constants \<open>'0'\<close> and \<open>'1'\<close>.\<close>

abbreviation ch0 :: byte where "ch0 \<equiv> 0x30"
abbreviation ch1 :: byte where "ch1 \<equiv> 0x31"

definition set_cell :: "nat \<Rightarrow> nat \<Rightarrow> byte \<Rightarrow> (nat \<Rightarrow> nat \<Rightarrow> byte) \<Rightarrow> nat \<Rightarrow> nat \<Rightarrow> byte" where
  "set_cell h u v f = f(h := (f h)(u := v))"

text \<open>\<open>memset(a, 0, sizeof a)\<close> of a 16 by 16 array, and of one row of it.\<close>

definition clear_array :: "(nat \<Rightarrow> nat \<Rightarrow> byte) \<Rightarrow> nat \<Rightarrow> nat \<Rightarrow> byte" where
  "clear_array f = (\<lambda>h u. if h < 16 \<and> u < 16 then 0 else f h u)"

definition clear_row :: "nat \<Rightarrow> (nat \<Rightarrow> nat \<Rightarrow> byte) \<Rightarrow> nat \<Rightarrow> nat \<Rightarrow> byte" where
  "clear_row h f = f(h := (\<lambda>u. if u < 16 then 0 else f h u))"

section \<open>Operations\<close>

definition hua_sec_init :: "x10state \<Rightarrow> x10state" where
  "hua_sec_init s =
     s\<lparr>HouseUnitState := clear_array (HouseUnitState s),
       HouseUnitSelected := clear_array (HouseUnitSelected s),
       HouseUnitDim := clear_array (HouseUnitDim s),
       X10protostate := (\<lambda>h. if h < 16 then 0 else X10protostate s h),
       X10sensors := []\<rparr>"

text \<open>The loop over the known sensors: the first with the address is updated.\<close>

fun sec_update :: "64 word \<Rightarrow> byte \<Rightarrow> int \<Rightarrow> x10secsensor list \<Rightarrow> x10secsensor list option" where
  "sec_update a func now [] = None"
| "sec_update a func now (sen # ss) =
     (if a = secaddr sen then Some (sen\<lparr>sensorstatus := func, lastupdate := now\<rparr> # ss)
      else map_option ((#) sen) (sec_update a func now ss))"

definition secaddr32 :: "byte \<times> byte \<times> byte \<Rightarrow> 64 word" where
  "secaddr32 a = (case a of (a0, a1, a2) \<Rightarrow>
     push_bit 16 (ucast a0) OR push_bit 8 (ucast a1) OR ucast a2)"

definition hua_sec_event :: "int \<Rightarrow> byte \<times> byte \<times> byte \<Rightarrow> byte \<Rightarrow> byte \<Rightarrow> x10state \<Rightarrow> x10state" where
  "hua_sec_event now a funcint a8 s =
     (case sec_update (secaddr32 a) funcint now (X10sensors s) of
        Some ss \<Rightarrow> s\<lparr>X10sensors := ss\<rparr>
      | None \<Rightarrow>
          if length (X10sensors s) + 1 \<ge> X10SENSORS_MAX then s
          else s\<lparr>X10sensors := X10sensors s @
                 [\<lparr>secaddr = secaddr32 a, lastupdate = now, secaddr8 = a8, sensorstatus = funcint\<rparr>]\<rparr>)"

definition hua_init :: "nat \<Rightarrow> x10state \<Rightarrow> x10state" where
  "hua_init house s = s\<lparr>HouseUnitSelected := clear_row house (HouseUnitSelected s)\<rparr>"

definition hua_getstatus :: "nat \<Rightarrow> nat \<Rightarrow> x10state \<Rightarrow> byte" where
  "hua_getstatus house unit s = HouseUnitState s house unit"

definition hua_getstatus_xdim :: "nat \<Rightarrow> nat \<Rightarrow> x10state \<Rightarrow> byte" where
  "hua_getstatus_xdim house unit s = HouseUnitDim s house unit"

definition select_unit :: "nat \<Rightarrow> nat \<Rightarrow> x10state \<Rightarrow> x10state" where
  "select_unit house unit s =
     s\<lparr>HouseUnitSelected := set_cell house unit ch1 (HouseUnitSelected s)\<rparr>"

definition set_proto :: "nat \<Rightarrow> int \<Rightarrow> x10state \<Rightarrow> x10state" where
  "set_proto house p s = s\<lparr>X10protostate := (X10protostate s)(house := p)\<rparr>"

definition hua_setstatus_xdim :: "nat \<Rightarrow> nat \<Rightarrow> byte \<Rightarrow> x10state \<Rightarrow> x10state" where
  "hua_setstatus_xdim house unit xdim s =
     (let s = set_proto house 1 (select_unit house unit (hua_init house s))
      in s\<lparr>HouseUnitDim := set_cell house unit xdim (HouseUnitDim s),
           HouseUnitState := set_cell house unit (if xdim > 0 then ch1 else ch0) (HouseUnitState s)\<rparr>)"

definition hua_add :: "nat \<Rightarrow> nat \<Rightarrow> x10state \<Rightarrow> x10state" where
  "hua_add house unit s =
     (if X10protostate s house = 0 then select_unit house unit s
      else if X10protostate s house = 1 then
        set_proto house 0 (select_unit house unit (hua_init house s))
      else s)"

text \<open>One iteration of the loops of \<open>hua_func_all\<close> and \<open>hua_func\<close>.\<close>

definition set_unit :: "nat \<Rightarrow> byte \<Rightarrow> nat \<Rightarrow> x10state \<Rightarrow> x10state" where
  "set_unit house func u s =
     s\<lparr>HouseUnitState := set_cell house u func (HouseUnitState s),
       HouseUnitDim := set_cell house u (if func = ch1 then 63 else 0) (HouseUnitDim s)\<rparr>"

definition hua_func_all :: "nat \<Rightarrow> byte \<Rightarrow> x10state \<Rightarrow> x10state" where
  "hua_func_all house func s = fold (set_unit house func) [0..<16] (set_proto house 1 s)"

definition hua_func_all_on :: "nat \<Rightarrow> x10state \<Rightarrow> x10state" where
  "hua_func_all_on house = hua_func_all house ch1"

definition hua_func_all_off :: "nat \<Rightarrow> x10state \<Rightarrow> x10state" where
  "hua_func_all_off house = hua_func_all house ch0"

definition hua_func :: "nat \<Rightarrow> byte \<Rightarrow> x10state \<Rightarrow> x10state" where
  "hua_func house func s =
     fold (\<lambda>u s. if HouseUnitSelected s house u \<noteq> 0 then set_unit house func u s else s)
       [0..<16] (set_proto house 1 s)"

definition hua_func_on :: "nat \<Rightarrow> x10state \<Rightarrow> x10state" where
  "hua_func_on house = hua_func house ch1"

definition hua_func_off :: "nat \<Rightarrow> x10state \<Rightarrow> x10state" where
  "hua_func_off house = hua_func house ch0"

text \<open>
  The status of the first sensor whose address and address kind match and whose status byte is
  one the switch names: 1 alert, 0 normal; \<open>-1\<close> when there is none.
\<close>

definition sec_alert_codes :: "byte list" where
  "sec_alert_codes = [0x00, 0x01, 0x04, 0x05, 0x0C, 0x0D]"

definition sec_normal_codes :: "byte list" where
  "sec_normal_codes = [0x80, 0x81, 0x84, 0x85, 0x8C, 0x8D]"

fun getstatus_sec_from :: "bool \<Rightarrow> 64 word \<Rightarrow> x10secsensor list \<Rightarrow> int" where
  "getstatus_sec_from rf8 a [] = -1"
| "getstatus_sec_from rf8 a (sen # ss) =
     (if rf8 \<and> secaddr8 sen \<noteq> 0 \<and> a = secaddr sen then
        (if sensorstatus sen = 0x04 then 1
         else if sensorstatus sen = 0x84 then 0
         else getstatus_sec_from rf8 a ss)
      else if \<not> rf8 \<and> secaddr8 sen = 0 \<and> a = secaddr sen then
        (if sensorstatus sen \<in> set sec_alert_codes then 1
         else if sensorstatus sen \<in> set sec_normal_codes then 0
         else getstatus_sec_from rf8 a ss)
      else getstatus_sec_from rf8 a ss)"

definition hua_getstatus_sec :: "bool \<Rightarrow> 64 word \<Rightarrow> x10state \<Rightarrow> int" where
  "hua_getstatus_sec rf8 a s = getstatus_sec_from rf8 a (X10sensors s)"


section \<open>The status report of hua_show\<close>

definition cmpX10sensor :: "x10secsensor \<Rightarrow> x10secsensor \<Rightarrow> int" where
  "cmpX10sensor e1 e2 = sint (ucast (secaddr e1 - secaddr e2) :: 32 word)"

text \<open>\<open>qsort\<close> of the C library, by insertion.\<close>

fun insert_by :: "('a \<Rightarrow> 'a \<Rightarrow> int) \<Rightarrow> 'a \<Rightarrow> 'a list \<Rightarrow> 'a list" where
  "insert_by cmp x [] = [x]"
| "insert_by cmp x (y # ys) = (if cmp x y \<le> 0 then x # y # ys else y # insert_by cmp x ys)"

definition c_qsort :: "('a \<Rightarrow> 'a \<Rightarrow> int) \<Rightarrow> 'a list \<Rightarrow> 'a list" where
  "c_qsort cmp xs = foldr (insert_by cmp) xs []"

definition sort_sensors :: "x10state \<Rightarrow> x10state" where
  "sort_sensors s = s\<lparr>X10sensors := c_qsort cmpX10sensor (X10sensors s)\<rparr>"

text \<open>\<open>snprintf(buf + strlen(buf), sizeof(buf) - strlen(buf), \<dots>)\<close> with \<open>char buf[n]\<close>.\<close>

definition append_snprintf :: "nat \<Rightarrow> string \<Rightarrow> string \<Rightarrow> string" where
  "append_snprintf n buf s = buf @ take (n - length buf - 1) s"

text \<open>
  The loops over the 16 units of a house, common to the selection and the status report:
  \<open>row\<close> is the array row tested, \<open>item u\<close> the text printed for unit \<open>u\<close>.
\<close>

definition house_line_step ::
  "(nat \<Rightarrow> byte) \<Rightarrow> (nat \<Rightarrow> string) \<Rightarrow> nat \<Rightarrow> nat \<Rightarrow> bool \<times> string \<Rightarrow> bool \<times> string" where
  "house_line_step row item h u acc =
     (case acc of (labeldone, buf) \<Rightarrow>
        if row u \<noteq> 0 then
          (if \<not> labeldone then
             (True, append_snprintf 2048 buf (''House '' @ [chr (h + 65)] @ '': '' @ item u))
           else (labeldone, append_snprintf 2048 buf ('','' @ item u)))
        else (labeldone, buf))"

definition house_line :: "(nat \<Rightarrow> byte) \<Rightarrow> (nat \<Rightarrow> string) \<Rightarrow> nat \<Rightarrow> string option" where
  "house_line row item h =
     (let (labeldone, buf) = fold (house_line_step row item h) [0..<16] (False, [])
      in if labeldone then Some (append_snprintf 2048 buf nlcr) else None)"

definition selected_line :: "x10state \<Rightarrow> nat \<Rightarrow> string option" where
  "selected_line s h = house_line (HouseUnitSelected s h) (\<lambda>u. fmt_u (u + 1)) h"

definition status_line :: "x10state \<Rightarrow> nat \<Rightarrow> string option" where
  "status_line s h =
     house_line (HouseUnitState s h)
       (\<lambda>u. fmt_u (u + 1) @ ''='' @ [char_of_byte (HouseUnitState s h u)]) h"

text \<open>C's integer division truncates towards zero.\<close>

definition c_div :: "int \<Rightarrow> int \<Rightarrow> int" where
  "c_div a b = sgn a * sgn b * (\<bar>a\<bar> div \<bar>b\<bar>)"

definition sensor_line :: "int \<Rightarrow> x10secsensor \<Rightarrow> string" where
  "sensor_line now sen =
     (let deltat = now - lastupdate sen;
          mins = c_div deltat 60;
          secs = deltat - mins * 60;
          message = (if secaddr8 sen \<noteq> 0 then findSecRemoteKeyName (sensorstatus sen)
                     else findSecEventName (sensorstatus sen))
      in ''Sensor addr: '' @ fmt_X 6 (unat (secaddr sen)) @ '' Last: '' @ fmt_02d mins @ '':''
         @ fmt_02d secs @ '' '' @ fmt_s message @ '' '' @ nlcr)"

section \<open>Closed forms of the loops\<close>

lemma set_cell_apply [simp]:
  "set_cell h u v f k w = (if k = h \<and> w = u then v else f k w)"
  by (simp add: set_cell_def)

lemma clear_row_apply [simp]: "clear_row h f k w = (if k = h \<and> w < 16 then 0 else f k w)"
  by (simp add: clear_row_def)

lemma set_unit_simps [simp]:
  "HouseUnitSelected (set_unit h f u s) = HouseUnitSelected s"
  "X10protostate (set_unit h f u s) = X10protostate s"
  "X10sensors (set_unit h f u s) = X10sensors s"
  by (simp_all add: set_unit_def)

lemma set_proto_simps [simp]:
  "HouseUnitState (set_proto h p s) = HouseUnitState s"
  "HouseUnitSelected (set_proto h p s) = HouseUnitSelected s"
  "HouseUnitDim (set_proto h p s) = HouseUnitDim s"
  "X10sensors (set_proto h p s) = X10sensors s"
  "X10protostate (set_proto h p s) k = (if k = h then p else X10protostate s k)"
  by (simp_all add: set_proto_def)

lemma select_unit_simps [simp]:
  "HouseUnitState (select_unit h u s) = HouseUnitState s"
  "HouseUnitDim (select_unit h u s) = HouseUnitDim s"
  "X10protostate (select_unit h u s) = X10protostate s"
  "X10sensors (select_unit h u s) = X10sensors s"
  "HouseUnitSelected (select_unit h u s) k w =
     (if k = h \<and> w = u then ch1 else HouseUnitSelected s k w)"
  by (simp_all add: select_unit_def)

lemma hua_init_simps [simp]:
  "HouseUnitState (hua_init h s) = HouseUnitState s"
  "HouseUnitDim (hua_init h s) = HouseUnitDim s"
  "X10protostate (hua_init h s) = X10protostate s"
  "X10sensors (hua_init h s) = X10sensors s"
  "HouseUnitSelected (hua_init h s) k w = (if k = h \<and> w < 16 then 0 else HouseUnitSelected s k w)"
  by (simp_all add: hua_init_def)

text \<open>The loop body of both functions, on the units that satisfy a test the loop keeps.\<close>

definition func_loop :: "(nat \<Rightarrow> bool) \<Rightarrow> nat \<Rightarrow> byte \<Rightarrow> nat list \<Rightarrow> x10state \<Rightarrow> x10state" where
  "func_loop P house func us s = fold (\<lambda>u s. if P u then set_unit house func u s else s) us s"

lemma func_loop_frame [simp]:
  "HouseUnitSelected (func_loop P h f us s) = HouseUnitSelected s"
  "X10protostate (func_loop P h f us s) = X10protostate s"
  "X10sensors (func_loop P h f us s) = X10sensors s"
  by (induction us arbitrary: s) (auto simp: func_loop_def)

lemma func_loop_state [simp]:
  "HouseUnitState (func_loop P h f us s) k w =
     (if k = h \<and> w \<in> set us \<and> P w then f else HouseUnitState s k w)"
  by (induction us arbitrary: s) (auto simp: func_loop_def set_unit_def)

lemma func_loop_dim [simp]:
  "HouseUnitDim (func_loop P h f us s) k w =
     (if k = h \<and> w \<in> set us \<and> P w then (if f = ch1 then 63 else 0) else HouseUnitDim s k w)"
  by (induction us arbitrary: s) (auto simp: func_loop_def set_unit_def)

lemma hua_func_all_loop: "hua_func_all h f s = func_loop (\<lambda>_. True) h f [0..<16] (set_proto h 1 s)"
  by (simp add: hua_func_all_def func_loop_def)

lemma hua_func_fold:
  "fold (\<lambda>u s. if HouseUnitSelected s h u \<noteq> 0 then set_unit h f u s else s) us s =
     func_loop (\<lambda>u. HouseUnitSelected s h u \<noteq> 0) h f us s"
  by (induction us arbitrary: s) (auto simp: func_loop_def)

lemma hua_func_loop:
  "hua_func h f s = func_loop (\<lambda>u. HouseUnitSelected s h u \<noteq> 0) h f [0..<16] (set_proto h 1 s)"
  by (simp add: hua_func_def hua_func_fold)

lemmas hua_loops = hua_func_all_loop hua_func_loop
lemmas hua_funcs = hua_func_all_on_def hua_func_all_off_def hua_func_on_def hua_func_off_def
lemmas hua_devs = hua_add_def hua_setstatus_xdim_def Let_def

section \<open>Well-formedness\<close>

text \<open>
  A state cell is unknown, off or on; a selection cell is clear or set; a device has a nonzero
  dim level exactly when it is on; the protocol state is 0 or 1. Sensors have distinct 24-bit
  addresses and never fill the table.
\<close>

definition dev_ok :: "x10state \<Rightarrow> nat \<Rightarrow> nat \<Rightarrow> bool" where
  "dev_ok s h u \<longleftrightarrow>
     HouseUnitState s h u \<in> {0, ch0, ch1} \<and> HouseUnitSelected s h u \<in> {0, ch1} \<and>
     (HouseUnitDim s h u \<noteq> 0 \<longleftrightarrow> HouseUnitState s h u = ch1)"

definition sensors_ok :: "x10secsensor list \<Rightarrow> bool" where
  "sensors_ok ss \<longleftrightarrow>
     distinct (map secaddr ss) \<and> length ss < X10SENSORS_MAX \<and> (\<forall>x \<in> set ss. secaddr x < 2 ^ 24)"

definition x10_wf :: "x10state \<Rightarrow> bool" where
  "x10_wf s \<longleftrightarrow>
     (\<forall>h < 16. \<forall>u < 16. dev_ok s h u) \<and> (\<forall>h < 16. X10protostate s h \<in> {0, 1}) \<and>
     sensors_ok (X10sensors s)"

lemma x10_wf_sec_init [mochad_inv]: "x10_wf (hua_sec_init s)"
  by (simp add: x10_wf_def dev_ok_def sensors_ok_def hua_sec_init_def clear_array_def X10SENSORS_MAX_def)

lemma x10_wf_add [mochad_inv]: "x10_wf s \<Longrightarrow> x10_wf (hua_add h u s)"
  by (auto simp: x10_wf_def dev_ok_def hua_add_def)

lemma x10_wf_xdim [mochad_inv]: "x10_wf s \<Longrightarrow> x10_wf (hua_setstatus_xdim h u d s)"
  by (auto simp: x10_wf_def dev_ok_def hua_setstatus_xdim_def Let_def word_gt_0)

lemma x10_wf_func_loop: "x10_wf s \<Longrightarrow> f \<in> {ch0, ch1} \<Longrightarrow> x10_wf (func_loop P h f us s)"
  by (auto simp: x10_wf_def dev_ok_def)

lemma x10_wf_proto: "x10_wf s \<Longrightarrow> x10_wf (set_proto h 1 s)"
  by (auto simp: x10_wf_def dev_ok_def)

lemma x10_wf_funcs [mochad_inv]:
  assumes "x10_wf s"
  shows "x10_wf (hua_func_all_on h s)" "x10_wf (hua_func_all_off h s)"
    "x10_wf (hua_func_on h s)" "x10_wf (hua_func_off h s)"
  by (simp_all add: hua_funcs hua_loops x10_wf_func_loop x10_wf_proto assms)

section \<open>The sensor table\<close>

lemma sec_update_None: "sec_update a f n ss = None \<longleftrightarrow> a \<notin> secaddr ` set ss"
  by (induction ss) auto

lemma sec_update_Some:
  "sec_update a f n ss = Some ss' \<Longrightarrow>
     map secaddr ss' = map secaddr ss \<and> map secaddr8 ss' = map secaddr8 ss"
  by (induction ss arbitrary: ss') (auto split: if_splits)

lemma secaddr32_less: "secaddr32 a < 2 ^ 24"
proof -
  obtain a0 a1 a2 where a: "a = (a0, a1, a2)" by (cases a)
  have "take_bit 24 (secaddr32 a) = secaddr32 a"
    by (rule bit_word_eqI) (auto simp: a secaddr32_def bit_simps dest: bit_imp_le_length)
  then have "unat (secaddr32 a) = take_bit 24 (unat (secaddr32 a))"
    by (metis unsigned_take_bit_eq)
  then have "unat (secaddr32 a) < 2 ^ 24"
    by (metis take_bit_nat_less_exp)
  then show ?thesis by (simp add: word_less_nat_alt)
qed

lemma sensors_ok_update:
  "sec_update a f n ss = Some ss' \<Longrightarrow> sensors_ok ss \<Longrightarrow> sensors_ok ss'"
proof -
  assume u: "sec_update a f n ss = Some ss'" and ok: "sensors_ok ss"
  have m: "map secaddr ss' = map secaddr ss" using sec_update_Some [OF u] by simp
  then have "length ss' = length ss" by (metis length_map)
  moreover have "secaddr ` set ss' = secaddr ` set ss" using m by (metis set_map)
  ultimately show ?thesis using ok m unfolding sensors_ok_def by (metis (mono_tags) imageE imageI)
qed

lemma hua_sec_event_None:
  "sec_update (secaddr32 a) f n (X10sensors s) = None \<Longrightarrow>
     hua_sec_event n a f a8 s =
       (if length (X10sensors s) + 1 \<ge> X10SENSORS_MAX then s
        else s\<lparr>X10sensors := X10sensors s @
          [\<lparr>secaddr = secaddr32 a, lastupdate = n, secaddr8 = a8, sensorstatus = f\<rparr>]\<rparr>)"
  by (simp add: hua_sec_event_def)

lemma sensors_ok_snoc:
  "sensors_ok ss \<Longrightarrow> secaddr x \<notin> secaddr ` set ss \<Longrightarrow> secaddr x < 2 ^ 24 \<Longrightarrow>
     length ss + 1 < X10SENSORS_MAX \<Longrightarrow> sensors_ok (ss @ [x])"
  by (auto simp: sensors_ok_def)

lemma x10_wf_sensors: "x10_wf s \<Longrightarrow> sensors_ok ss \<Longrightarrow> x10_wf (s\<lparr>X10sensors := ss\<rparr>)"
  by (simp add: x10_wf_def dev_ok_def)

lemma x10_wf_sec_event [mochad_inv]:
  assumes wf: "x10_wf s"
  shows "x10_wf (hua_sec_event n a f a8 s)"
proof (cases "sec_update (secaddr32 a) f n (X10sensors s)")
  case None
  from wf have "sensors_ok (X10sensors s)" by (simp add: x10_wf_def)
  moreover from None have "secaddr32 a \<notin> secaddr ` set (X10sensors s)" by (simp add: sec_update_None)
  ultimately show ?thesis
    unfolding hua_sec_event_None [OF None]
    using wf secaddr32_less [of a] by (auto intro!: x10_wf_sensors sensors_ok_snoc)
next
  case (Some ss)
  with wf show ?thesis
    by (auto simp: hua_sec_event_def x10_wf_def dev_ok_def dest: sensors_ok_update)
qed

definition sensor_map :: "x10state \<Rightarrow> 64 word \<rightharpoonup> byte" where
  "sensor_map s = map_of (map (\<lambda>x. (secaddr x, sensorstatus x)) (X10sensors s))"

lemma sec_update_map:
  "sec_update a f n ss = Some ss' \<Longrightarrow>
     map_of (map (\<lambda>x. (secaddr x, sensorstatus x)) ss') =
     (map_of (map (\<lambda>x. (secaddr x, sensorstatus x)) ss))(a \<mapsto> f)"
  by (induction ss arbitrary: ss') (auto split: if_splits simp: fun_eq_iff)

text \<open>The table as a map: an event stores its status unless the address is new and the table full.\<close>

lemma sensor_map_event:
  "sensor_map (hua_sec_event n a f a8 s) =
     (if secaddr32 a \<in> dom (sensor_map s) \<or> length (X10sensors s) + 1 < X10SENSORS_MAX
      then (sensor_map s)(secaddr32 a \<mapsto> f) else sensor_map s)"
proof (cases "sec_update (secaddr32 a) f n (X10sensors s)")
  case None
  then have "secaddr32 a \<notin> secaddr ` set (X10sensors s)" by (simp add: sec_update_None)
  then have m: "map_of (map (\<lambda>x. (secaddr x, sensorstatus x)) (X10sensors s)) (secaddr32 a) = None"
    by (simp add: map_of_eq_None_iff image_image)
  then show ?thesis
    unfolding hua_sec_event_None [OF None] sensor_map_def
    by (auto simp: fun_eq_iff map_add_def domIff split: option.splits)
next
  case (Some ss)
  then have "secaddr32 a \<in> secaddr ` set (X10sensors s)"
    by (metis option.distinct(1) sec_update_None)
  then have "secaddr32 a \<in> dom (sensor_map s)"
    by (simp add: sensor_map_def dom_map_of_conv_image_fst image_image)
  with Some show ?thesis
    by (simp add: hua_sec_event_def sensor_map_def sec_update_map)
qed

section \<open>Memory footprint\<close>

text \<open>Two states that differ at most inside the bounds of the arrays.\<close>

definition same_outside :: "x10state \<Rightarrow> x10state \<Rightarrow> bool" where
  "same_outside s t \<longleftrightarrow>
     (\<forall>h u. \<not> (h < 16 \<and> u < 16) \<longrightarrow>
        HouseUnitState t h u = HouseUnitState s h u \<and>
        HouseUnitSelected t h u = HouseUnitSelected s h u \<and>
        HouseUnitDim t h u = HouseUnitDim s h u) \<and>
     (\<forall>h. \<not> h < 16 \<longrightarrow> X10protostate t h = X10protostate s h)"

lemma same_outside_refl [simp]: "same_outside s s"
  by (simp add: same_outside_def)

lemma same_outside_trans [trans]: "same_outside s t \<Longrightarrow> same_outside t r \<Longrightarrow> same_outside s r"
  by (simp add: same_outside_def)

lemma same_outside_add [mochad_frame]: "h < 16 \<Longrightarrow> u < 16 \<Longrightarrow> same_outside s (hua_add h u s)"
  by (auto simp: same_outside_def hua_add_def)

lemma same_outside_xdim [mochad_frame]:
  "h < 16 \<Longrightarrow> u < 16 \<Longrightarrow> same_outside s (hua_setstatus_xdim h u d s)"
  by (auto simp: same_outside_def hua_setstatus_xdim_def Let_def)

lemma same_outside_funcs [mochad_frame]:
  assumes "h < 16"
  shows "same_outside s (hua_func_all_on h s)" "same_outside s (hua_func_all_off h s)"
    "same_outside s (hua_func_on h s)" "same_outside s (hua_func_off h s)"
  using assms by (auto simp: same_outside_def hua_funcs hua_loops)

lemma same_outside_sec_event [mochad_frame]: "same_outside s (hua_sec_event n a f a8 s)"
  by (auto simp: same_outside_def hua_sec_event_def split: option.splits)

lemma same_outside_sec_init [mochad_frame]: "same_outside s (hua_sec_init s)"
  by (auto simp: same_outside_def hua_sec_init_def clear_array_def)

section \<open>Abstract specification of a house\<close>

text \<open>
  What X10 promises of one house code: addresses are collected until a function arrives; the
  function applies to the collected units; the next address starts a new collection.
\<close>

record house_spec =
  collecting :: bool
  chosen :: "nat set"
  lit :: "nat set"

definition spec_add :: "nat \<Rightarrow> house_spec \<Rightarrow> house_spec" where
  "spec_add u a = a\<lparr>collecting := True, chosen := (if collecting a then insert u (chosen a) else {u})\<rparr>"

definition spec_func :: "bool \<Rightarrow> house_spec \<Rightarrow> house_spec" where
  "spec_func on a = a\<lparr>collecting := False, lit := (if on then lit a \<union> chosen a else lit a - chosen a)\<rparr>"

definition spec_all :: "bool \<Rightarrow> house_spec \<Rightarrow> house_spec" where
  "spec_all on a = a\<lparr>collecting := False, lit := (if on then {..<16} else {})\<rparr>"

definition spec_xdim :: "nat \<Rightarrow> bool \<Rightarrow> house_spec \<Rightarrow> house_spec" where
  "spec_xdim u on a = a\<lparr>collecting := False, chosen := {u}, lit := (if on then insert u (lit a) else lit a - {u})\<rparr>"

definition house_abs :: "nat \<Rightarrow> x10state \<Rightarrow> house_spec" where
  "house_abs h s =
     \<lparr>collecting = (X10protostate s h = 0),
      chosen = {u. u < 16 \<and> HouseUnitSelected s h u \<noteq> 0},
      lit = {u. u < 16 \<and> HouseUnitState s h u = ch1}\<rparr>"

lemma house_abs_other:
  assumes "k \<noteq> h"
  shows "house_abs k (hua_add h u s) = house_abs k s"
    "house_abs k (hua_setstatus_xdim h u d s) = house_abs k s"
    "house_abs k (hua_func_all_on h s) = house_abs k s"
    "house_abs k (hua_func_all_off h s) = house_abs k s"
    "house_abs k (hua_func_on h s) = house_abs k s"
    "house_abs k (hua_func_off h s) = house_abs k s"
  using assms by (simp_all add: house_abs_def hua_devs hua_funcs hua_loops)

lemma house_abs_add:
  assumes "x10_wf s" "h < 16" "u < 16"
  shows "house_abs h (hua_add h u s) = spec_add u (house_abs h s)"
proof -
  from assms have "X10protostate s h \<in> {0, 1}" by (auto simp: x10_wf_def)
  with assms(3) show ?thesis
    by (auto simp: house_abs_def hua_add_def spec_add_def)
qed

lemma house_abs_func:
  "house_abs h (hua_func_on h s) = spec_func True (house_abs h s)"
  "house_abs h (hua_func_off h s) = spec_func False (house_abs h s)"
  by (auto simp: house_abs_def hua_funcs hua_loops spec_func_def)

lemma house_abs_all:
  "house_abs h (hua_func_all_on h s) = spec_all True (house_abs h s)"
  "house_abs h (hua_func_all_off h s) = spec_all False (house_abs h s)"
  by (auto simp: house_abs_def hua_funcs hua_loops spec_all_def)

lemma house_abs_xdim:
  assumes "u < 16"
  shows "house_abs h (hua_setstatus_xdim h u d s) = spec_xdim u (d \<noteq> 0) (house_abs h s)"
  using assms by (auto simp: house_abs_def hua_setstatus_xdim_def Let_def spec_xdim_def word_gt_0)

text \<open>Selecting several units: the state after a run of addresses.\<close>

lemma spec_add_fold:
  "us \<noteq> [] \<Longrightarrow>
     fold spec_add us a = a\<lparr>collecting := True, chosen := (if collecting a then chosen a \<union> set us else set us)\<rparr>"
proof (induction us arbitrary: a)
  case Nil
  then show ?case by simp
next
  case (Cons u us)
  show ?case
  proof (cases "us = []")
    case True
    then show ?thesis by (simp add: spec_add_def)
  next
    case False
    then show ?thesis by (simp add: Cons.IH) (simp add: spec_add_def)
  qed
qed

lemma fold_hua_add:
  assumes "x10_wf s" "h < 16" "\<forall>u \<in> set us. u < 16"
  shows "x10_wf (fold (hua_add h) us s)"
    and "house_abs h (fold (hua_add h) us s) = fold spec_add us (house_abs h s)"
  using assms
  by (induction us arbitrary: s) (auto simp: x10_wf_add house_abs_add)

section \<open>Sorting the sensors\<close>

lemma mset_insert_by [simp]: "mset (insert_by cmp x ys) = add_mset x (mset ys)"
  by (induction ys) auto

lemma mset_c_qsort [simp]: "mset (c_qsort cmp xs) = mset xs"
  by (induction xs) (auto simp: c_qsort_def)

lemma set_c_qsort [simp]: "set (c_qsort cmp xs) = set xs"
  by (metis mset_c_qsort set_mset_mset)

lemma sint_word_of_int_32:
  "- 2147483648 \<le> i \<Longrightarrow> i < 2147483648 \<Longrightarrow> sint (word_of_int i :: 32 word) = i"
  by (simp add: signed_of_int signed_take_bit_int_eq_self)

lemma cmpX10sensor_diff:
  assumes "secaddr x < 2 ^ 24" "secaddr y < 2 ^ 24"
  shows "cmpX10sensor x y = int (unat (secaddr x)) - int (unat (secaddr y))"
proof -
  let ?i = "uint (secaddr x) - uint (secaddr y)"
  have b: "0 \<le> uint (secaddr x)" "uint (secaddr x) < 16777216"
    "0 \<le> uint (secaddr y)" "uint (secaddr y) < 16777216"
    using assms by (simp_all add: word_less_def)
  have "uint (secaddr x - secaddr y) = ?i mod 2 ^ 64"
    by (simp add: uint_word_ariths)
  then have "(ucast (secaddr x - secaddr y) :: 32 word) = word_of_int (?i mod 2 ^ 64)"
    by (metis of_int_uint)
  also have "\<dots> = word_of_int ?i"
    unfolding word_of_int_eq_iff by (simp add: take_bit_eq_mod mod_mod_cancel)
  finally have "cmpX10sensor x y = sint (word_of_int ?i :: 32 word)"
    by (simp only: cmpX10sensor_def)
  also have "\<dots> = ?i"
    by (rule sint_word_of_int_32) (use b in linarith)+
  finally show ?thesis by simp
qed

lemma sorted_insert_by:
  assumes "\<And>a b. a \<in> insert x (set ys) \<Longrightarrow> b \<in> insert x (set ys) \<Longrightarrow>
     cmp a b = int (unat (secaddr a)) - int (unat (secaddr b))"
    and "sorted (map secaddr ys)"
  shows "sorted (map secaddr (insert_by cmp x ys))"
  using assms
proof (induction ys)
  case Nil
  then show ?case by simp
next
  case (Cons y ys)
  have c: "cmp x y \<le> 0 \<longleftrightarrow> secaddr x \<le> secaddr y"
    using Cons.prems(1) [of x y] by (simp add: word_le_def)
  have ih: "sorted (map secaddr (insert_by cmp x ys))"
    by (rule Cons.IH) (use Cons.prems in auto)
  have s: "set (insert_by cmp x ys) = insert x (set ys)"
    by (metis mset_insert_by set_mset_add_mset_insert set_mset_mset)
  show ?case
    using Cons.prems(2) ih c s by auto
qed

text \<open>On a well-formed table the report lists the sensors by address, every sensor once.\<close>

lemma sort_sensors_sorted:
  assumes "sensors_ok ss"
  shows "sorted (map secaddr (c_qsort cmpX10sensor ss))"
  using assms
proof (induction ss)
  case Nil
  then show ?case by (simp add: c_qsort_def)
next
  case (Cons x ss)
  have set: "set (foldr (insert_by cmpX10sensor) ss []) = set ss"
    using set_c_qsort [of cmpX10sensor ss] by (simp add: c_qsort_def)
  have "sensors_ok ss" using Cons.prems by (auto simp: sensors_ok_def)
  then have "sorted (map secaddr (foldr (insert_by cmpX10sensor) ss []))"
    using Cons.IH by (simp add: c_qsort_def)
  then have "sorted (map secaddr (insert_by cmpX10sensor x (foldr (insert_by cmpX10sensor) ss [])))"
  proof (rule sorted_insert_by [rotated])
    fix a b
    assume "a \<in> insert x (set (foldr (insert_by cmpX10sensor) ss []))"
      and "b \<in> insert x (set (foldr (insert_by cmpX10sensor) ss []))"
    then show "cmpX10sensor a b = int (unat (secaddr a)) - int (unat (secaddr b))"
      unfolding set using Cons.prems by (intro cmpX10sensor_diff) (auto simp: sensors_ok_def)
  qed
  then show ?case by (simp add: c_qsort_def)
qed

lemma sensors_ok_qsort: "sensors_ok ss \<Longrightarrow> sensors_ok (c_qsort cmpX10sensor ss)"
proof -
  assume ok: "sensors_ok ss"
  have m: "mset (map secaddr (c_qsort cmpX10sensor ss)) = mset (map secaddr ss)"
    by simp
  have "distinct (map secaddr (c_qsort cmpX10sensor ss)) = distinct (map secaddr ss)"
    by (rule mset_eq_imp_distinct_iff [OF m])
  moreover have "length (c_qsort cmpX10sensor ss) = length ss"
    by (metis mset_c_qsort size_mset)
  ultimately show ?thesis using ok by (simp add: sensors_ok_def)
qed

lemma x10_wf_sort [mochad_inv]: "x10_wf s \<Longrightarrow> x10_wf (sort_sensors s)"
  by (simp add: x10_wf_def dev_ok_def sort_sensors_def sensors_ok_qsort)

lemma same_outside_sort [mochad_frame]: "same_outside s (sort_sensors s)"
  by (simp add: same_outside_def sort_sensors_def)

section \<open>Sensor status queries\<close>

lemma getstatus_sec_absent: "a \<notin> secaddr ` set ss \<Longrightarrow> getstatus_sec_from r a ss = -1"
  by (induction ss) auto

text \<open>With distinct addresses the query answers from the one sensor with that address.\<close>

lemma getstatus_sec_found:
  assumes "distinct (map secaddr ss)" "x \<in> set ss"
  shows "getstatus_sec_from r (secaddr x) ss =
     (if r \<noteq> (secaddr8 x \<noteq> 0) then -1
      else if r then (if sensorstatus x = 0x04 then 1 else if sensorstatus x = 0x84 then 0 else -1)
      else (if sensorstatus x \<in> set sec_alert_codes then 1
            else if sensorstatus x \<in> set sec_normal_codes then 0 else -1))"
  using assms
proof (induction ss)
  case Nil
  then show ?case by simp
next
  case (Cons y ss)
  show ?case
  proof (cases "x = y")
    case True
    with Cons.prems have "getstatus_sec_from r (secaddr x) ss = -1"
      by (intro getstatus_sec_absent) auto
    with True show ?thesis by auto
  next
    case False
    with Cons.prems have "x \<in> set ss" by simp
    with Cons.prems have "secaddr x \<noteq> secaddr y" by (metis distinct.simps(2) imageI list.simps(9) set_map)
    with False Cons show ?thesis by (simp add: image_iff)
  qed
qed

section \<open>Properties\<close>

text \<open>
  C11: The operations on the state tables implement the house protocol of X10: through the
  abstraction, collecting an address, a function on the collected units, an all-units function and
  an extended dim are the operations of the specification, and no other house changes.
\<close>

theorem house_refinement:
  assumes "x10_wf s" "h < 16" "u < 16" "k \<noteq> h"
  shows "house_abs h (hua_add h u s) = spec_add u (house_abs h s) \<and>
    house_abs h (hua_func_on h s) = spec_func True (house_abs h s) \<and>
    house_abs h (hua_func_off h s) = spec_func False (house_abs h s) \<and>
    house_abs h (hua_func_all_on h s) = spec_all True (house_abs h s) \<and>
    house_abs h (hua_func_all_off h s) = spec_all False (house_abs h s) \<and>
    house_abs h (hua_setstatus_xdim h u d s) = spec_xdim u (d \<noteq> 0) (house_abs h s) \<and>
    house_abs k (hua_add h u s) = house_abs k s \<and>
    house_abs k (hua_func_on h s) = house_abs k s \<and>
    house_abs k (hua_func_off h s) = house_abs k s \<and>
    house_abs k (hua_func_all_on h s) = house_abs k s \<and>
    house_abs k (hua_func_all_off h s) = house_abs k s \<and>
    house_abs k (hua_setstatus_xdim h u d s) = house_abs k s"
  by (simp only: house_abs_add [OF assms(1-3)] house_abs_func house_abs_all house_abs_xdim [OF assms(3)]
      house_abs_other [OF assms(4)] simp_thms)

definition x10_zero :: x10state where
  "x10_zero = \<lparr>HouseUnitState = (\<lambda>_ _. 0), HouseUnitSelected = (\<lambda>_ _. 0), HouseUnitDim = (\<lambda>_ _. 0),
     X10protostate = (\<lambda>_. 0), X10sensors = []\<rparr>"

lemma x10_wf_zero [simp]: "x10_wf x10_zero"
  by (simp add: x10_wf_def dev_ok_def sensors_ok_def x10_zero_def X10SENSORS_MAX_def)

lemma house_abs_zero: "house_abs h x10_zero = \<lparr>collecting = True, chosen = {}, lit = {}\<rparr>"
  by (simp add: house_abs_def x10_zero_def)

theorem house_refinement_witness:
  "lit (house_abs 2 (hua_func_on 2 (hua_add 2 5 x10_zero))) = {5}"
proof -
  have wf: "x10_wf (hua_add 2 5 x10_zero)" by (simp add: x10_wf_add)
  show ?thesis
    using house_refinement [of x10_zero 2 5 0 0] house_refinement [OF wf, of 2 5 0 0]
    by (simp add: house_abs_zero spec_add_def spec_func_def)
qed

text \<open>
  C29: Addressing any number of units of a house and then sending on turns on exactly these units
  in addition to the ones already on (off turns exactly them off), and the next address starts a
  new selection.
\<close>

theorem select_then_switch:
  assumes "x10_wf s" "h < 16" "us \<noteq> []" "\<forall>u \<in> set us. u < 16" "\<not> collecting (house_abs h s)" "v < 16"
  shows "lit (house_abs h (hua_func_on h (fold (hua_add h) us s))) = lit (house_abs h s) \<union> set us \<and>
    lit (house_abs h (hua_func_off h (fold (hua_add h) us s))) = lit (house_abs h s) - set us \<and>
    chosen (house_abs h (hua_add h v (hua_func_on h (fold (hua_add h) us s)))) = {v}"
proof -
  let ?s = "fold (hua_add h) us s"
  note wf = fold_hua_add(1) [OF assms(1,2,4)] and ab = fold_hua_add(2) [OF assms(1,2,4)]
  have wf': "x10_wf (hua_func_on h ?s)" by (rule x10_wf_funcs [OF wf])
  have "house_abs h ?s = (house_abs h s)\<lparr>collecting := True, chosen := set us\<rparr>"
    using ab spec_add_fold [OF assms(3)] assms(5) by simp
  then show ?thesis
    by (simp add: house_abs_func house_abs_add [OF wf' assms(2,6)] spec_func_def spec_add_def)
qed

theorem select_then_switch_witness:
  "lit (house_abs 0 (hua_func_on 0 (fold (hua_add 0) [3, 7, 3] (hua_func_all_off 0 x10_zero)))) = {3, 7}"
proof -
  have wf: "x10_wf (hua_func_all_off 0 x10_zero)" by (simp add: x10_wf_funcs)
  from select_then_switch [OF wf, of 0 "[3, 7, 3]" 1] show ?thesis
    by (simp add: house_abs_all spec_all_def) auto
qed

text \<open>
  C30: The sensor table is a map: an event stores its function under its 24-bit address and changes
  no other entry, unless the address is new and 511 sensors are known, when it is dropped.
\<close>

theorem sensor_table_is_map:
  "sensor_map (hua_sec_event now a func a8 s) =
     (if secaddr32 a \<in> dom (sensor_map s) \<or> length (X10sensors s) < 511
      then (sensor_map s)(secaddr32 a \<mapsto> func) else sensor_map s)"
  using sensor_map_event [of now a func a8 s] by (simp add: X10SENSORS_MAX_def)

text \<open>
  C39: The status report sorts the sensors by address although the comparison returns the
  difference of 64-bit addresses cut to an int: the sorted table holds the same sensors, in
  increasing order, and is again well-formed.
\<close>

theorem sensors_sorted_for_report:
  assumes "x10_wf s"
  shows "sorted (map secaddr (X10sensors (sort_sensors s))) \<and>
    mset (X10sensors (sort_sensors s)) = mset (X10sensors s) \<and> x10_wf (sort_sensors s)"
  using assms x10_wf_sort sort_sensors_sorted by (simp add: x10_wf_def sort_sensors_def)

theorem sensors_sorted_for_report_witness:
  "map secaddr (X10sensors (sort_sensors
     (hua_sec_event 7 (0, 0, 5) 4 1 (hua_sec_event 7 (1, 2, 3) 0x0C 0 x10_zero)))) = [5, 0x10203]"
proof -
  let ?s = "hua_sec_event 7 (0, 0, 5) 4 1 (hua_sec_event 7 (1, 2, 3) 0x0C 0 x10_zero)"
  have a: "map secaddr (X10sensors ?s) = [0x10203, 5]"
    by (simp add: hua_sec_event_def x10_zero_def secaddr32_def X10SENSORS_MAX_def)
  have "x10_wf ?s" by (simp add: x10_wf_sec_event)
  from sensors_sorted_for_report [OF this]
  have st: "sorted (map secaddr (X10sensors (sort_sensors ?s)))"
    and "mset (X10sensors (sort_sensors ?s)) = mset (X10sensors ?s)" by auto
  then have "mset (map secaddr (X10sensors (sort_sensors ?s))) = mset (map secaddr (X10sensors ?s))"
    by (simp only: mset_map)
  then have "mset (map secaddr (X10sensors (sort_sensors ?s))) = mset [0x10203, 5]" by (simp only: a)
  from properties_for_sort [OF this st]
  have "sort [0x10203, 5] = map secaddr (X10sensors (sort_sensors ?s))" .
  then show ?thesis by simp
qed

text \<open>
  C38: A security status query answers from the one known sensor with the address asked for: 1 for
  an alert code, 0 for a normal code, and -1 for an unknown address, for a sensor of the other
  address kind and for any other code.
\<close>

theorem getstatus_sec_answer:
  assumes "x10_wf s"
  shows "(a \<notin> secaddr ` set (X10sensors s) \<longrightarrow> hua_getstatus_sec r a s = -1) \<and>
    (\<forall>x \<in> set (X10sensors s). hua_getstatus_sec r (secaddr x) s =
       (if r \<noteq> (secaddr8 x \<noteq> 0) then -1
        else if r then (if sensorstatus x = 0x04 then 1 else if sensorstatus x = 0x84 then 0 else -1)
        else (if sensorstatus x \<in> set sec_alert_codes then 1
              else if sensorstatus x \<in> set sec_normal_codes then 0 else -1)))"
proof (intro conjI impI ballI)
  have d: "distinct (map secaddr (X10sensors s))" using assms by (simp add: x10_wf_def sensors_ok_def)
  show "hua_getstatus_sec r a s = -1" if "a \<notin> secaddr ` set (X10sensors s)"
    unfolding hua_getstatus_sec_def using that by (rule getstatus_sec_absent)
  show "hua_getstatus_sec r (secaddr x) s =
       (if r \<noteq> (secaddr8 x \<noteq> 0) then -1
        else if r then (if sensorstatus x = 0x04 then 1 else if sensorstatus x = 0x84 then 0 else -1)
        else (if sensorstatus x \<in> set sec_alert_codes then 1
              else if sensorstatus x \<in> set sec_normal_codes then 0 else -1))"
    if "x \<in> set (X10sensors s)" for x
    unfolding hua_getstatus_sec_def using d that by (rule getstatus_sec_found)
qed

theorem getstatus_sec_answer_witness:
  "hua_getstatus_sec False 0x10203 (hua_sec_event 7 (1, 2, 3) 0x8C 0 x10_zero) = 0"
proof -
  let ?s = "hua_sec_event 7 (1, 2, 3) 0x8C 0 x10_zero"
  have wf: "x10_wf ?s" by (simp add: x10_wf_sec_event)
  have "X10sensors ?s = [\<lparr>secaddr = 0x10203, lastupdate = 7, secaddr8 = 0, sensorstatus = 0x8C\<rparr>]"
    by (simp add: hua_sec_event_def x10_zero_def secaddr32_def X10SENSORS_MAX_def)
  with getstatus_sec_answer [OF wf, of 0 False] show ?thesis
    by (simp add: sec_alert_codes_def sec_normal_codes_def)
qed

end
