(* ===== verification/X10_Event.thy ===== *)
theory X10_Event
  imports X10_Codes
begin

text \<open>
  \<open>src/x10/mochad_event.c\<close> and \<open>.h\<close>: the normalized event and its text formats. A
  formatter returns the bytes it leaves in the buffer (without the final NUL); \<open>None\<close> is the
  \<open>-1\<close> of an error (a null event, an empty buffer or a text that does not fit).
\<close>

datatype direction = MOCHAD_EVENT_DIRECTION_RX | MOCHAD_EVENT_DIRECTION_TX

datatype transport =
    MOCHAD_EVENT_TRANSPORT_PL
  | MOCHAD_EVENT_TRANSPORT_RF
  | MOCHAD_EVENT_TRANSPORT_RFSEC
  | MOCHAD_EVENT_TRANSPORT_RFCAM

datatype event_detail =
    MOCHAD_EVENT_DETAIL_HOUSE_UNIT
  | MOCHAD_EVENT_DETAIL_HOUSE
  | MOCHAD_EVENT_DETAIL_RFSEC_SHORT
  | MOCHAD_EVENT_DETAIL_RFSEC_LONG
  | MOCHAD_EVENT_DETAIL_RFCAM

record mochad_event =
  ev_direction :: direction
  ev_transport :: transport
  ev_detail :: event_detail
  ev_house :: char
  ev_unit :: nat
  ev_function :: "string option"
  ev_has_level :: bool
  ev_level :: nat
  ev_has_extended_data :: bool
  ev_extended_data :: byte
  ev_extended_command :: byte
  ev_security_short_addr :: byte
  ev_security_long_addr :: "byte \<times> byte \<times> byte"
  ev_camera_command :: "string option"

text \<open>\<open>memset(&event, 0, sizeof event)\<close>: the first enumerators, zeros and null pointers.\<close>

definition event_zero :: mochad_event where
  "event_zero =
     \<lparr>ev_direction = MOCHAD_EVENT_DIRECTION_RX, ev_transport = MOCHAD_EVENT_TRANSPORT_PL,
      ev_detail = MOCHAD_EVENT_DETAIL_HOUSE_UNIT, ev_house = CHR 0x00, ev_unit = 0,
      ev_function = None, ev_has_level = False, ev_level = 0, ev_has_extended_data = False,
      ev_extended_data = 0, ev_extended_command = 0, ev_security_short_addr = 0,
      ev_security_long_addr = (0, 0, 0), ev_camera_command = None\<rparr>"

fun direction_label :: "direction \<Rightarrow> string" where
  "direction_label MOCHAD_EVENT_DIRECTION_TX = ''Tx''"
| "direction_label MOCHAD_EVENT_DIRECTION_RX = ''Rx''"

fun transport_label :: "transport \<Rightarrow> string" where
  "transport_label MOCHAD_EVENT_TRANSPORT_PL = ''PL''"
| "transport_label MOCHAD_EVENT_TRANSPORT_RF = ''RF''"
| "transport_label MOCHAD_EVENT_TRANSPORT_RFSEC = ''RFSEC''"
| "transport_label MOCHAD_EVENT_TRANSPORT_RFCAM = ''RFCAM''"

definition format_checked :: "nat \<Rightarrow> string \<Rightarrow> string option" where
  "format_checked buffer_len txt =
     (if buffer_len = 0 then None else if length txt \<ge> buffer_len then None else Some txt)"

definition hex2 :: "byte \<Rightarrow> string" where
  "hex2 b = fmt_X 2 (unat b)"

definition legacy_text :: "mochad_event \<Rightarrow> string" where
  "legacy_text ev =
     (let d = direction_label (ev_direction ev); t = transport_label (ev_transport ev);
          head = d @ '' '' @ t @ '' ''
      in case ev_detail ev of
        MOCHAD_EVENT_DETAIL_HOUSE_UNIT \<Rightarrow>
          (let hu = head @ ''HouseUnit: '' @ [ev_house ev] @ fmt_d (int (ev_unit ev))
           in if ev_has_extended_data ev then
                hu @ '' Func: '' @ fmt_s (ev_function ev) @ '' Data: '' @ hex2 (ev_extended_data ev)
                @ '' Command: '' @ hex2 (ev_extended_command ev)
              else case ev_function ev of None \<Rightarrow> hu | Some f \<Rightarrow> hu @ '' Func: '' @ f)
      | MOCHAD_EVENT_DETAIL_HOUSE \<Rightarrow>
          (let hf = head @ ''House: '' @ [ev_house ev] @ '' Func: '' @ fmt_s (ev_function ev)
           in if ev_has_level ev then hf @ ''('' @ fmt_d (int (ev_level ev)) @ '')'' else hf)
      | MOCHAD_EVENT_DETAIL_RFSEC_SHORT \<Rightarrow>
          head @ ''Addr: 0x'' @ hex2 (ev_security_short_addr ev) @ '' Func: '' @ fmt_s (ev_function ev)
      | MOCHAD_EVENT_DETAIL_RFSEC_LONG \<Rightarrow>
          (case ev_security_long_addr ev of (a0, a1, a2) \<Rightarrow>
             head @ ''Addr: '' @ hex2 a0 @ '':'' @ hex2 a1 @ '':'' @ hex2 a2
             @ '' Func: '' @ fmt_s (ev_function ev))
      | MOCHAD_EVENT_DETAIL_RFCAM \<Rightarrow> head @ fmt_s (ev_camera_command ev))"

definition mochad_event_format_legacy_body :: "mochad_event option \<Rightarrow> nat \<Rightarrow> string option" where
  "mochad_event_format_legacy_body event buffer_len =
     (case event of None \<Rightarrow> None | Some ev \<Rightarrow> format_checked buffer_len (legacy_text ev))"

definition mochad_event_format_legacy_line :: "mochad_event option \<Rightarrow> nat \<Rightarrow> string option" where
  "mochad_event_format_legacy_line event buffer_len =
     (case mochad_event_format_legacy_body event buffer_len of
        None \<Rightarrow> None
      | Some body \<Rightarrow> if length body + 1 \<ge> buffer_len then None else Some (body @ nl))"

definition mochad_event_format_xmlsocket_line :: "mochad_event option \<Rightarrow> nat \<Rightarrow> string option" where
  "mochad_event_format_xmlsocket_line event buffer_len =
     (case mochad_event_format_legacy_body event buffer_len of
        None \<Rightarrow> None
      | Some body \<Rightarrow> if length body + 1 \<ge> buffer_len then None else Some (body @ [chr_nul]))"

definition mochad_event_format_openremote_line :: "mochad_event option \<Rightarrow> nat \<Rightarrow> string option" where
  "mochad_event_format_openremote_line event buffer_len =
     mochad_event_format_legacy_line event buffer_len"

section \<open>Lengths\<close>

lemma hex2_length [simp]: "length (hex2 b) = 2"
proof -
  have "unat b < 16 ^ Suc 1" using unsigned_less [of b] by simp
  then have "length (num_str 16 (unat b)) \<le> Suc 1" by (rule length_num_str_le)
  then show ?thesis by (simp add: hex2_def fmt_X_def)
qed

lemma fmt_d_small: "n < 100 \<Longrightarrow> length (fmt_d (int n)) \<le> 2"
  using length_num_str_le [of n 10 1] by (simp add: fmt_d_def)

lemma format_checked_Some [simp]:
  "format_checked n s = Some t \<longleftrightarrow> t = s \<and> length s < n"
  by (auto simp: format_checked_def)

lemma direction_label_length [simp]: "length (direction_label d) = 2"
  by (cases d) simp_all

lemma transport_label_length: "length (transport_label t) \<le> 5"
  by (cases t) simp_all

text \<open>
  An event as the decoders build it: unit and level are two-digit numbers at most and the
  names are short. Its text always fits the 256-byte buffer of the dispatcher.
\<close>

definition event_small :: "mochad_event \<Rightarrow> bool" where
  "event_small ev \<longleftrightarrow>
     ev_unit ev < 100 \<and> ev_level ev < 100 \<and>
     length (fmt_s (ev_function ev)) \<le> 40 \<and> length (fmt_s (ev_camera_command ev)) \<le> 40"

lemma legacy_text_length: "event_small ev \<Longrightarrow> length (legacy_text ev) < 120"
proof -
  assume small: "event_small ev"
  have t: "length (transport_label (ev_transport ev)) \<le> 5"
    by (rule transport_label_length)
  from small have u: "length (fmt_d (int (ev_unit ev))) \<le> 2"
    and l: "length (fmt_d (int (ev_level ev))) \<le> 2"
    by (simp_all add: event_small_def fmt_d_small)
  from small have f: "length (fmt_s (ev_function ev)) \<le> 40"
    and c: "length (fmt_s (ev_camera_command ev)) \<le> 40" by (simp_all add: event_small_def)
  from t u l f c show ?thesis
    by (cases "ev_detail ev"; cases "ev_function ev"; cases "ev_security_long_addr ev")
      (auto simp: legacy_text_def Let_def)
qed

text \<open>Where the legacy line fits, the XML socket line is the same text ended by a NUL.\<close>

lemma xmlsocket_legacy:
  "mochad_event_format_xmlsocket_line ev n = Some s \<longleftrightarrow>
     (\<exists>body. s = body @ [chr_nul] \<and> mochad_event_format_legacy_line ev n = Some (body @ nl))"
  by (auto simp: mochad_event_format_xmlsocket_line_def mochad_event_format_legacy_line_def
      eol_defs split: option.splits if_splits)

section \<open>Properties\<close>

text \<open>
  C37: Every event whose numbers have at most two digits and whose names are at most 40 characters
  long is formatted completely into the dispatcher's 256-byte buffer: the legacy line is its text
  and a newline, the OpenRemote line is the same, and the XML socket line ends in NUL instead.
\<close>

theorem event_lines_fit:
  assumes "event_small ev"
  shows "mochad_event_format_legacy_line (Some ev) 256 = Some (legacy_text ev @ nl) \<and>
    mochad_event_format_openremote_line (Some ev) 256 = Some (legacy_text ev @ nl) \<and>
    mochad_event_format_xmlsocket_line (Some ev) 256 = Some (legacy_text ev @ [chr_nul])"
  using legacy_text_length [OF assms]
  by (auto simp: mochad_event_format_legacy_line_def mochad_event_format_openremote_line_def
      mochad_event_format_xmlsocket_line_def mochad_event_format_legacy_body_def format_checked_def
      split: option.splits)

theorem event_lines_fit_witness:
  "mochad_event_format_legacy_line
     (Some (event_zero\<lparr>ev_house := CHR ''A'', ev_unit := 16, ev_function := Some ''On''\<rparr>)) 256 =
   Some (''Rx PL HouseUnit: A16 Func: On'' @ nl)"
proof -
  have s: "event_small (event_zero\<lparr>ev_house := CHR ''A'', ev_unit := 16, ev_function := Some ''On''\<rparr>)"
    by (simp add: event_small_def event_zero_def)
  have "num_str 10 16 = ''16''" by (simp add: num_str.simps digit_char_def)
  then have "legacy_text (event_zero\<lparr>ev_house := CHR ''A'', ev_unit := 16, ev_function := Some ''On''\<rparr>) =
      ''Rx PL HouseUnit: A16 Func: On''"
    by (simp add: legacy_text_def event_zero_def fmt_d_def)
  with event_lines_fit [OF s] show ?thesis by simp
qed

end
