(* ===== verification/Bounded_Queue.thy ===== *)
theory Bounded_Queue
  imports Mochad_Prelude
begin

text \<open>
  The contract of the daemon's two ring buffers: a bounded FIFO with an abstraction to lists.
  \<open>contents\<close> is the abstraction, \<open>qinv\<close> the representation invariant, \<open>valid\<close> the
  chunks the code accepts at all, \<open>payload\<close> what a chunk adds and \<open>amount\<close> what a
  removal takes. The clients of the contract reason about runs of operations.
\<close>

section \<open>Ring slices\<close>

definition ring_slice :: "(nat \<Rightarrow> 'a) \<Rightarrow> nat \<Rightarrow> nat \<Rightarrow> nat \<Rightarrow> 'a list" where
  "ring_slice f m s n = map (\<lambda>i. f ((s + i) mod m)) [0..<n]"

lemma length_ring_slice [simp]: "length (ring_slice f m s n) = n"
  by (simp add: ring_slice_def)

lemma ring_slice_0 [simp]: "ring_slice f m s 0 = []"
  by (simp add: ring_slice_def)

lemma ring_slice_nth [simp]: "i < n \<Longrightarrow> ring_slice f m s n ! i = f ((s + i) mod m)"
  by (simp add: ring_slice_def)

lemma ring_slice_Suc: "ring_slice f m s (Suc n) = ring_slice f m s n @ [f ((s + n) mod m)]"
  by (simp add: ring_slice_def)

lemma ring_slice_drop: "drop k (ring_slice f m s n) = ring_slice f m ((s + k) mod m) (n - k)"
  by (rule nth_equalityI) (auto simp: mod_add_left_eq add.assoc)

lemma ring_slice_start_mod: "ring_slice f m (s mod m) n = ring_slice f m s n"
  by (rule nth_equalityI) (auto simp: mod_add_left_eq)

lemma ring_slice_cong:
  "(\<And>i. i < n \<Longrightarrow> f ((s + i) mod m) = g ((s + i) mod m)) \<Longrightarrow> ring_slice f m s n = ring_slice g m s n"
  by (simp add: ring_slice_def)

lemma mod_less_double: "x < 2 * m \<Longrightarrow> x mod m = (if x < m then x else x - (m :: nat))"
  by (simp add: le_mod_geq)

lemma mod_offset_neq:
  assumes "i < n" "n < m"
  shows "(s + i) mod m \<noteq> (s + n) mod (m :: nat)"
proof
  assume "(s + i) mod m = (s + n) mod m"
  then have "(s + n) mod m = (s + i) mod m" by simp
  with assms(1) have "m dvd (s + n) - (s + i)"
    by (subst (asm) mod_eq_dvd_iff_nat) auto
  then have "m dvd n - i" by simp
  with assms show False using dvd_imp_le [of m "n - i"] by simp
qed

text \<open>A slice that is followed by one written cell, not itself in the slice.\<close>

lemma ring_slice_write:
  assumes "n < m"
  shows "ring_slice (f((s + n) mod m := x)) m s (Suc n) = ring_slice f m s n @ [x]"
proof -
  have "ring_slice (f((s + n) mod m := x)) m s n = ring_slice f m s n"
  proof (rule ring_slice_cong)
    fix i assume "i < n"
    then have "(s + i) mod m \<noteq> (s + n) mod m" using assms by (rule mod_offset_neq)
    then show "(f((s + n) mod m := x)) ((s + i) mod m) = f ((s + i) mod m)" by simp
  qed
  then show ?thesis by (simp add: ring_slice_Suc)
qed

section \<open>The contract\<close>

locale bounded_queue =
  fixes contents :: "'q \<Rightarrow> 'a list"
    and qinv :: "'q \<Rightarrow> bool"
    and cap :: nat
    and valid :: "'c \<Rightarrow> bool"
    and payload :: "'c \<Rightarrow> 'a list"
    and amount :: "'k \<Rightarrow> nat"
    and enq :: "'c \<Rightarrow> 'q \<Rightarrow> 'q option"
    and deq :: "'k \<Rightarrow> 'q \<Rightarrow> 'q"
  assumes contents_cap: "qinv q \<Longrightarrow> length (contents q) \<le> cap"
    and enq_fits: "qinv q \<Longrightarrow> valid c \<Longrightarrow> length (contents q) + length (payload c) \<le> cap \<Longrightarrow>
      \<exists>q'. enq c q = Some q' \<and> qinv q' \<and> contents q' = contents q @ payload c"
    and enq_rejects: "qinv q \<Longrightarrow> \<not> (valid c \<and> length (contents q) + length (payload c) \<le> cap) \<Longrightarrow>
      enq c q = None"
    and deq_drops: "qinv q \<Longrightarrow> amount k \<le> length (contents q) \<Longrightarrow>
      qinv (deq k q) \<and> contents (deq k q) = drop (amount k) (contents q)"
begin

lemma enq_Some_iff:
  "qinv q \<Longrightarrow> (\<exists>q'. enq c q = Some q') \<longleftrightarrow> valid c \<and> length (contents q) + length (payload c) \<le> cap"
  using enq_fits [of q c] enq_rejects [of q c] by fastforce

lemma enq_contents:
  "qinv q \<Longrightarrow> enq c q = Some q' \<Longrightarrow> qinv q' \<and> contents q' = contents q @ payload c"
  using enq_fits [of q c] enq_Some_iff [of q c] by fastforce

end

text \<open>
  A run of operations: what the queue accepted, what was taken out, and the final queue. A
  removal of more than there is is cut down by its caller, so it does not occur in a run.
\<close>

datatype ('c, 'k) queue_op = Enq 'c | Deq 'k

fun queue_run ::
  "('q \<Rightarrow> 'a list) \<Rightarrow> ('c \<Rightarrow> 'a list) \<Rightarrow> ('k \<Rightarrow> nat) \<Rightarrow> ('c \<Rightarrow> 'q \<Rightarrow> 'q option) \<Rightarrow> ('k \<Rightarrow> 'q \<Rightarrow> 'q) \<Rightarrow>
   ('c, 'k) queue_op list \<Rightarrow> 'q \<Rightarrow> 'a list \<times> 'a list \<times> 'q" where
  "queue_run contents payload amount enq deq [] q = ([], [], q)"
| "queue_run contents payload amount enq deq (Enq c # ops) q =
     (case enq c q of
        None \<Rightarrow> queue_run contents payload amount enq deq ops q
      | Some q' \<Rightarrow>
          (case queue_run contents payload amount enq deq ops q' of
             (acc, out, r) \<Rightarrow> (payload c @ acc, out, r)))"
| "queue_run contents payload amount enq deq (Deq k # ops) q =
     (if amount k \<le> length (contents q) then
        (case queue_run contents payload amount enq deq ops (deq k q) of
           (acc, out, r) \<Rightarrow> (acc, take (amount k) (contents q) @ out, r))
      else queue_run contents payload amount enq deq ops q)"

context bounded_queue
begin

text \<open>Nothing is lost, duplicated or reordered: in plus initial contents is out plus final contents.\<close>

lemma run_conserves:
  "qinv q \<Longrightarrow> queue_run contents payload amount enq deq ops q = (acc, out, r) \<Longrightarrow>
     qinv r \<and> contents q @ acc = out @ contents r"
proof (induction ops arbitrary: q acc out r)
  case Nil
  then show ?case by simp
next
  case (Cons oper ops)
  show ?case
  proof (cases oper)
    case (Enq c)
    show ?thesis
    proof (cases "enq c q")
      case None
      with Enq Cons show ?thesis by simp
    next
      case (Some q')
      with Cons.prems(1) have q': "qinv q'" "contents q' = contents q @ payload c"
        using enq_contents by blast+
      with Cons.prems(2) Enq Some show ?thesis
        using Cons.IH [OF q'(1)] by (fastforce split: prod.splits)
    qed
  next
    case (Deq k)
    show ?thesis
    proof (cases "amount k \<le> length (contents q)")
      case True
      with Cons.prems(1) have d: "qinv (deq k q)" "contents (deq k q) = drop (amount k) (contents q)"
        using deq_drops by blast+
      obtain acc' out' where run: "queue_run contents payload amount enq deq ops (deq k q) = (acc', out', r)"
        and eqs: "acc = acc'" "out = take (amount k) (contents q) @ out'"
        using Cons.prems(2) Deq True by (auto split: prod.splits)
      from Cons.IH [OF d(1) run] d(2) have "qinv r" "drop (amount k) (contents q) @ acc' = out' @ contents r"
        by simp_all
      with eqs show ?thesis by (metis append.assoc append_take_drop_id)
    next
      case False
      with Deq Cons show ?thesis by simp
    qed
  qed
qed

lemma run_bounded:
  "qinv q \<Longrightarrow> queue_run contents payload amount enq deq ops q = (acc, out, r) \<Longrightarrow>
     length (contents r) \<le> cap"
  using run_conserves contents_cap by blast

end

end
