(* ===== verification/Usb_Transmit.thy ===== *)
theory Usb_Transmit
  imports Bounded_Queue
begin

text \<open>
  Transmission to the controller: the FIFO of \<open>src/usb/x10_write.c\<close> and the interrupt
  transfers of \<open>src/core/mochad.c\<close> (\<open>write_usb\<close>, \<open>IntrOut_cb\<close>, the X10
  acknowledgement logic, start, cancel and free). libusb is a parameter: \<open>sub k\<close> is
  the result of the \<open>k\<close>-th call of \<open>libusb_submit_transfer\<close>. The field
  \<open>wire\<close> is not a variable of the program: it records the packets libusb accepted.
\<close>

section \<open>State\<close>

datatype transfer_status =
    LIBUSB_TRANSFER_COMPLETED
  | LIBUSB_TRANSFER_ERROR
  | LIBUSB_TRANSFER_TIMED_OUT
  | LIBUSB_TRANSFER_CANCELLED
  | LIBUSB_TRANSFER_STALL
  | LIBUSB_TRANSFER_NO_DEVICE
  | LIBUSB_TRANSFER_OVERFLOW

record usb_state =
  Outrecs :: "nat \<Rightarrow> byte list"
  Outhead :: nat
  Outtail :: nat
  Outbusy :: bool
  PollTimeOut :: int
  Cm19a :: bool
  Devh :: bool
  InEndpoint :: byte
  OutEndpoint :: byte
  IntrOut_transfer :: bool
  IntrIn_transfer :: bool
  IntrOut_submitted :: bool
  IntrOut_canceling :: bool
  IntrOut_completed :: bool
  IntrIn_submitted :: bool
  IntrIn_canceling :: bool
  X10_ack_received :: bool
  X10_ack_timed_out :: bool
  UsbOutCompletedCount :: "64 word"
  UsbAckReceivedCount :: "64 word"
  UsbAckTimeoutCount :: "64 word"
  UsbUnexpectedOneByteCount :: "64 word"
  IntrOutBuf :: "byte list"
  Do_exit :: int
  n_submit :: nat
  wire :: "byte list list"

definition ENODEV :: int where "ENODEV = 19"
definition EBUSY :: int where "EBUSY = 16"
definition EINVAL :: int where "EINVAL = 22"
definition ENOMEM :: int where "ENOMEM = 12"
definition ETIMEDOUT :: int where "ETIMEDOUT = 110"
definition LIBUSB_ERROR_NOT_FOUND :: int where "LIBUSB_ERROR_NOT_FOUND = -5"
definition LIBUSB_ERROR_INTERRUPTED :: int where "LIBUSB_ERROR_INTERRUPTED = -10"

lemmas errno_defs =
  ENODEV_def EBUSY_def EINVAL_def ENOMEM_def ETIMEDOUT_def
  LIBUSB_ERROR_NOT_FOUND_def LIBUSB_ERROR_INTERRUPTED_def

definition OUTPTRSSIZE :: nat where "OUTPTRSSIZE = 256"

text \<open>The initial values of the static variables.\<close>

definition usb_init :: usb_state where
  "usb_init =
     \<lparr>Outrecs = (\<lambda>_. []), Outhead = 0, Outtail = 0, Outbusy = False, PollTimeOut = -1, Cm19a = False,
      Devh = False, InEndpoint = 0, OutEndpoint = 0, IntrOut_transfer = False, IntrIn_transfer = False,
      IntrOut_submitted = False, IntrOut_canceling = False, IntrOut_completed = True,
      IntrIn_submitted = False, IntrIn_canceling = False, X10_ack_received = False,
      X10_ack_timed_out = False, UsbOutCompletedCount = 0, UsbAckReceivedCount = 0,
      UsbAckTimeoutCount = 0, UsbUnexpectedOneByteCount = 0, IntrOutBuf = replicate 8 0,
      Do_exit = 0, n_submit = 0, wire = []\<rparr>"

section \<open>libusb output transfers\<close>

definition libusb_submit_out :: "(nat \<Rightarrow> int) \<Rightarrow> byte list \<Rightarrow> usb_state \<Rightarrow> int \<times> usb_state" where
  "libusb_submit_out sub buf s =
     (let r = sub (n_submit s)
      in (r, s\<lparr>n_submit := n_submit s + 1, wire := (if r < 0 then wire s else wire s @ [buf])\<rparr>))"

definition write_usb :: "(nat \<Rightarrow> int) \<Rightarrow> byte list \<Rightarrow> usb_state \<Rightarrow> int \<times> usb_state" where
  "write_usb sub buf s =
     (if \<not> IntrOut_transfer s \<or> \<not> Devh s then (- ENODEV, s)
      else if IntrOut_submitted s \<or> IntrOut_canceling s then (- EBUSY, s)
      else if length buf > 8 then (- EINVAL, s)
      else
        let s = s\<lparr>IntrOutBuf := buf @ drop (length buf) (IntrOutBuf s), IntrOut_completed := False,
                  X10_ack_received := False, X10_ack_timed_out := False\<rparr>;
            (r, s) = libusb_submit_out sub buf s
        in if r < 0 then (r, s\<lparr>IntrOut_completed := True\<rparr>)
           else (0, s\<lparr>IntrOut_submitted := True, IntrOut_canceling := False\<rparr>))"

section \<open>The FIFO of x10_write.c\<close>

definition next_index :: "nat \<Rightarrow> nat" where
  "next_index idx = (idx + 1) mod OUTPTRSSIZE"

definition add_x10out :: "byte list \<Rightarrow> usb_state \<Rightarrow> int \<times> usb_state" where
  "add_x10out buf s =
     (if length buf > 8 then (-1, s)
      else let nxt = next_index (Outtail s)
           in if nxt = Outhead s then (-1, s)
              else (int (length buf), s\<lparr>Outrecs := (Outrecs s)(nxt := buf), Outtail := nxt\<rparr>))"

definition send_next_x10out :: "(nat \<Rightarrow> int) \<Rightarrow> usb_state \<Rightarrow> int \<times> usb_state" where
  "send_next_x10out sub s =
     (if Outbusy s then
        (if Outhead s = Outtail s then (0, s\<lparr>Outbusy := False, PollTimeOut := -1\<rparr>)
         else let next = next_index (Outhead s);
                  (r, s) = write_usb sub (Outrecs s next) s
              in if r < 0 then (r, s\<lparr>PollTimeOut := 2 * 1000\<rparr>)
                 else (0, s\<lparr>Outhead := next\<rparr>))
      else (0, s))"

definition x10_write :: "(nat \<Rightarrow> int) \<Rightarrow> byte list \<Rightarrow> usb_state \<Rightarrow> int \<times> usb_state" where
  "x10_write sub buf s =
     (if length buf > 8 then (-1, s)
      else if Outbusy s then add_x10out buf s
      else
        let s = s\<lparr>Outbusy := True\<rparr>;
            (r, s) = write_usb sub buf s
        in if r < 0 then (r, s\<lparr>Outbusy := False, PollTimeOut := -1\<rparr>)
           else (int (length buf), s\<lparr>PollTimeOut := 2 * 1000\<rparr>))"

section \<open>Acknowledgements and callbacks\<close>

definition maybe_finish_x10_transmit :: "(nat \<Rightarrow> int) \<Rightarrow> usb_state \<Rightarrow> usb_state" where
  "maybe_finish_x10_transmit sub s =
     (if \<not> IntrOut_completed s then s
      else if Cm19a s then
        snd (send_next_x10out sub (s\<lparr>X10_ack_received := False, X10_ack_timed_out := False\<rparr>))
      else if \<not> X10_ack_received s \<and> \<not> X10_ack_timed_out s then s
      else snd (send_next_x10out sub (s\<lparr>X10_ack_received := False, X10_ack_timed_out := False\<rparr>)))"

definition IntrOut_cb :: "(nat \<Rightarrow> int) \<Rightarrow> transfer_status \<Rightarrow> usb_state \<Rightarrow> usb_state" where
  "IntrOut_cb sub status s =
     (let s = s\<lparr>IntrOut_submitted := False, IntrOut_canceling := False\<rparr>
      in if status = LIBUSB_TRANSFER_COMPLETED then
           maybe_finish_x10_transmit sub
             (s\<lparr>IntrOut_completed := True, UsbOutCompletedCount := UsbOutCompletedCount s + 1\<rparr>)
         else if status = LIBUSB_TRANSFER_CANCELLED then s\<lparr>IntrOut_completed := True\<rparr>
         else s\<lparr>IntrOut_completed := True, Do_exit := 2\<rparr>)"

text \<open>The one-byte branch of \<open>IntrIn_cb\<close>.\<close>

definition one_byte_input :: "(nat \<Rightarrow> int) \<Rightarrow> byte \<Rightarrow> usb_state \<Rightarrow> usb_state" where
  "one_byte_input sub b s =
     (if b = 0x55 then
        maybe_finish_x10_transmit sub
          (s\<lparr>X10_ack_received := True, UsbAckReceivedCount := UsbAckReceivedCount s + 1\<rparr>)
      else s\<lparr>UsbUnexpectedOneByteCount := UsbUnexpectedOneByteCount s + 1\<rparr>)"

text \<open>The branch of the main loop for \<open>poll\<close> returning 0, after the libusb events.\<close>

definition poll_timed_out :: "(nat \<Rightarrow> int) \<Rightarrow> usb_state \<Rightarrow> usb_state" where
  "poll_timed_out sub s =
     maybe_finish_x10_transmit sub
       (s\<lparr>X10_ack_timed_out := True, UsbAckTimeoutCount := UsbAckTimeoutCount s + 1\<rparr>)"

section \<open>Starting, cancelling and freeing transfers\<close>

definition transfer_is_active :: "bool \<Rightarrow> bool \<Rightarrow> bool" where
  "transfer_is_active submitted canceling \<longleftrightarrow> submitted \<or> canceling"

definition start_transfers :: "(nat \<Rightarrow> int) \<Rightarrow> usb_state \<Rightarrow> int \<times> usb_state" where
  "start_transfers sub s =
     (if IntrIn_submitted s then (- EBUSY, s)
      else let r = sub (n_submit s); s = s\<lparr>n_submit := n_submit s + 1\<rparr>
           in if r < 0 then (r, s)
              else (0, s\<lparr>IntrIn_submitted := True, IntrIn_canceling := False\<rparr>))"

text \<open>
  \<open>cancel_transfer_if_active\<close> on one transfer: allocated, submitted and canceling flags, with
  the result \<open>r\<close> of \<open>libusb_cancel_transfer\<close>.
\<close>

definition cancel_transfer_if_active :: "int \<Rightarrow> bool \<Rightarrow> bool \<Rightarrow> bool \<Rightarrow> int \<times> bool \<times> bool" where
  "cancel_transfer_if_active r allocated submitted canceling =
     (if \<not> allocated \<or> \<not> transfer_is_active submitted canceling then (0, submitted, canceling)
      else if r = LIBUSB_ERROR_NOT_FOUND then (0, False, False)
      else if r < 0 then (r, submitted, canceling)
      else (0, submitted, True))"

definition cancel_transfers :: "int \<Rightarrow> int \<Rightarrow> usb_state \<Rightarrow> usb_state" where
  "cancel_transfers r_out r_in s =
     (let (_, sub1, can1) = cancel_transfer_if_active r_out (IntrOut_transfer s) (IntrOut_submitted s) (IntrOut_canceling s);
          (_, sub2, can2) = cancel_transfer_if_active r_in (IntrIn_transfer s) (IntrIn_submitted s) (IntrIn_canceling s)
      in s\<lparr>IntrOut_submitted := sub1, IntrOut_canceling := can1,
           IntrIn_submitted := sub2, IntrIn_canceling := can2\<rparr>)"

definition any_active :: "usb_state \<Rightarrow> bool" where
  "any_active s \<longleftrightarrow>
     transfer_is_active (IntrIn_submitted s) (IntrIn_canceling s) \<or>
     transfer_is_active (IntrOut_submitted s) (IntrOut_canceling s)"

text \<open>Whether the transfer is still allocated afterwards.\<close>

definition free_transfer_if_inactive :: "bool \<Rightarrow> bool \<Rightarrow> bool \<Rightarrow> bool" where
  "free_transfer_if_inactive allocated submitted canceling =
     (if \<not> allocated then False else if transfer_is_active submitted canceling then True else False)"

definition free_transfers :: "usb_state \<Rightarrow> usb_state" where
  "free_transfers s =
     s\<lparr>IntrIn_transfer := free_transfer_if_inactive (IntrIn_transfer s) (IntrIn_submitted s) (IntrIn_canceling s),
       IntrOut_transfer := free_transfer_if_inactive (IntrOut_transfer s) (IntrOut_submitted s) (IntrOut_canceling s)\<rparr>"

text \<open>\<open>alloc_transfers\<close>: whether each \<open>libusb_alloc_transfer\<close> returned a transfer.\<close>

definition alloc_transfers :: "bool \<Rightarrow> bool \<Rightarrow> usb_state \<Rightarrow> int \<times> usb_state" where
  "alloc_transfers in_ok out_ok s =
     (let s = s\<lparr>IntrIn_transfer := in_ok\<rparr>
      in if \<not> in_ok then (- ENOMEM, s)
         else let s = s\<lparr>IntrOut_transfer := out_ok\<rparr>
              in if \<not> out_ok then
                   (- ENOMEM, s\<lparr>IntrIn_transfer :=
                      free_transfer_if_inactive (IntrIn_transfer s) (IntrIn_submitted s) (IntrIn_canceling s)\<rparr>)
                 else (0, s))"

section \<open>Start-up packets\<close>

definition initcm15abinary :: "byte list list" where "initcm15abinary = []"

definition initcm19abinary :: "byte list list" where
  "initcm19abinary =
    [[0x80, 0x05, 0x1b, 0x14, 0x28, 0x20, 0x24, 0x29],
     [0x83, 0x03],
     [0x84, 0x37, 0x02, 0x60, 0x00, 0x00, 0x00, 0x00],
     [0x80, 0x01, 0x00, 0x14, 0x20, 0x24, 0x28, 0x29],
     [0x83, 0x02, 0x0f],
     [0x83, 0x37, 0x02, 0x60, 0x00, 0x00, 0x00, 0x00],
     [0x20, 0x34, 0xcb, 0x58, 0xa7],
     [0x80, 0x05, 0x01, 0x14, 0x20, 0x24, 0x28, 0x29]]"

definition initcm1Xa :: "(nat \<Rightarrow> int) \<Rightarrow> byte list list \<Rightarrow> usb_state \<Rightarrow> usb_state" where
  "initcm1Xa sub ps s = fold (\<lambda>p s. snd (x10_write sub p s)) ps s"

section \<open>The FIFO as a bounded queue\<close>

definition pending_count :: "usb_state \<Rightarrow> nat" where
  "pending_count s = (Outtail s + OUTPTRSSIZE - Outhead s) mod OUTPTRSSIZE"

text \<open>The packets accepted and not yet handed to libusb, oldest first.\<close>

definition pending :: "usb_state \<Rightarrow> byte list list" where
  "pending s = ring_slice (Outrecs s) OUTPTRSSIZE (Outhead s + 1) (pending_count s)"

definition fifo_inv :: "usb_state \<Rightarrow> bool" where
  "fifo_inv s \<longleftrightarrow> Outhead s < OUTPTRSSIZE \<and> Outtail s < OUTPTRSSIZE"

lemma length_pending [simp]: "length (pending s) = pending_count s"
  by (simp add: pending_def)

lemma pending_count_if:
  "fifo_inv s \<Longrightarrow> pending_count s =
     (if Outhead s \<le> Outtail s then Outtail s - Outhead s else Outtail s + OUTPTRSSIZE - Outhead s)"
  by (auto simp: pending_count_def fifo_inv_def mod_less_double)

lemma next_index_if: "i < OUTPTRSSIZE \<Longrightarrow> next_index i = (if i + 1 = OUTPTRSSIZE then 0 else i + 1)"
  by (simp add: next_index_def)

lemma next_index_less [simp]: "next_index i < OUTPTRSSIZE"
  by (simp add: next_index_def OUTPTRSSIZE_def)

lemma pending_count_less: "fifo_inv s \<Longrightarrow> pending_count s < OUTPTRSSIZE"
  by (simp add: pending_count_def OUTPTRSSIZE_def)

lemma fifo_full_iff: "fifo_inv s \<Longrightarrow> next_index (Outtail s) = Outhead s \<longleftrightarrow> pending_count s = 255"
  by (auto simp: pending_count_if next_index_if fifo_inv_def OUTPTRSSIZE_def)

lemma fifo_empty_iff: "fifo_inv s \<Longrightarrow> Outhead s = Outtail s \<longleftrightarrow> pending s = []"
  by (auto simp: pending_count_if fifo_inv_def simp flip: length_0_conv)

lemma next_tail_slice: "fifo_inv s \<Longrightarrow> next_index (Outtail s) = (Outhead s + 1 + pending_count s) mod OUTPTRSSIZE"
proof -
  assume inv: "fifo_inv s"
  have "Outhead s + 1 + pending_count s = Outtail s + 1 + (if Outhead s \<le> Outtail s then 0 else OUTPTRSSIZE)"
    unfolding pending_count_if [OF inv] using inv by (auto simp: fifo_inv_def)
  then have "(Outhead s + 1 + pending_count s) mod OUTPTRSSIZE = (Outtail s + 1) mod OUTPTRSSIZE"
    by (cases "Outhead s \<le> Outtail s") (simp_all only: if_True if_False mod_add_self2 add_0_right)
  then show ?thesis by (simp add: next_index_def)
qed

lemma pending_nonempty: "pending s \<noteq> [] \<longleftrightarrow> 0 < pending_count s"
  by (metis length_greater_0_conv length_pending)

lemma add_x10out_fits:
  assumes "fifo_inv s" "length buf \<le> 8" "pending_count s < 255"
  shows "\<exists>s'. add_x10out buf s = (int (length buf), s') \<and> fifo_inv s' \<and> pending s' = pending s @ [buf]"
proof -
  let ?s' = "s\<lparr>Outrecs := (Outrecs s)(next_index (Outtail s) := buf), Outtail := next_index (Outtail s)\<rparr>"
  from assms have "next_index (Outtail s) \<noteq> Outhead s" using fifo_full_iff [of s] by auto
  with assms have "add_x10out buf s = (int (length buf), ?s')"
    by (simp add: add_x10out_def Let_def)
  moreover have inv: "fifo_inv ?s'" using assms by (simp add: fifo_inv_def)
  moreover have "pending_count ?s' = Suc (pending_count s)"
    unfolding pending_count_if [OF inv] pending_count_if [OF assms(1)] using assms
    by (auto simp: next_index_if fifo_inv_def pending_count_if OUTPTRSSIZE_def)
  moreover have "ring_slice ((Outrecs s)(next_index (Outtail s) := buf)) OUTPTRSSIZE (Outhead s + 1)
      (Suc (pending_count s)) = pending s @ [buf]"
    unfolding next_tail_slice [OF assms(1)] pending_def
    by (rule ring_slice_write) (rule pending_count_less [OF assms(1)])
  ultimately show ?thesis by (simp add: pending_def)
qed

lemma add_x10out_rejects:
  "fifo_inv s \<Longrightarrow> \<not> (length buf \<le> 8 \<and> pending_count s < 255) \<Longrightarrow> add_x10out buf s = (-1, s)"
  using fifo_full_iff [of s] pending_count_less [of s]
  by (auto simp: add_x10out_def Let_def OUTPTRSSIZE_def)

text \<open>\<open>Outhead = next\<close>: the oldest packet leaves the queue.\<close>

definition pop_x10out :: "usb_state \<Rightarrow> usb_state" where
  "pop_x10out s = s\<lparr>Outhead := next_index (Outhead s)\<rparr>"

lemma pop_x10out_drops:
  assumes "fifo_inv s" "pending s \<noteq> []"
  shows "fifo_inv (pop_x10out s) \<and> pending (pop_x10out s) = drop 1 (pending s)"
proof -
  have inv: "fifo_inv (pop_x10out s)" using assms by (simp add: fifo_inv_def pop_x10out_def)
  have "0 < pending_count s" using assms(2) by (simp add: pending_nonempty)
  then have c: "pending_count (pop_x10out s) = pending_count s - 1"
    unfolding pending_count_if [OF inv] pending_count_if [OF assms(1)] using assms(1)
    by (auto simp: next_index_if fifo_inv_def pop_x10out_def pending_count_if)
  have "drop 1 (pending s) = ring_slice (Outrecs s) OUTPTRSSIZE ((Outhead s + 1 + 1) mod OUTPTRSSIZE) (pending_count s - 1)"
    unfolding pending_def by (rule ring_slice_drop)
  also have "\<dots> = ring_slice (Outrecs s) OUTPTRSSIZE (next_index (Outhead s) + 1) (pending_count s - 1)"
    unfolding next_index_def
    by (metis ring_slice_start_mod mod_add_left_eq)
  finally show ?thesis using inv c by (simp add: pending_def pop_x10out_def)
qed

lemma pending_first:
  assumes "fifo_inv s" "pending s \<noteq> []"
  shows "Outrecs s (next_index (Outhead s)) = hd (pending s)"
proof -
  have "0 < pending_count s" using assms(2) by (simp add: pending_nonempty)
  then show ?thesis
    using assms(2) by (simp add: hd_conv_nth) (simp add: pending_def next_index_def)
qed

interpretation x10_fifo: bounded_queue pending fifo_inv 255 "\<lambda>buf. length buf \<le> 8" "\<lambda>buf. [buf]"
    "\<lambda>u::unit. 1" "\<lambda>buf s. (case add_x10out buf s of (r, s') \<Rightarrow> if r < 0 then None else Some s')"
    "\<lambda>u. pop_x10out"
proof
  show "fifo_inv s \<Longrightarrow> length (pending s) \<le> 255" for s
    using pending_count_less [of s] by (simp add: OUTPTRSSIZE_def)
next
  fix s and buf :: "byte list"
  assume "fifo_inv s" "length buf \<le> 8" "length (pending s) + length [buf] \<le> 255"
  then show "\<exists>s'. (case add_x10out buf s of (r, s') \<Rightarrow> if r < 0 then None else Some s') = Some s' \<and>
      fifo_inv s' \<and> pending s' = pending s @ [buf]"
    using add_x10out_fits [of s buf] by fastforce
next
  fix s and buf :: "byte list"
  assume "fifo_inv s" "\<not> (length buf \<le> 8 \<and> length (pending s) + length [buf] \<le> 255)"
  then show "(case add_x10out buf s of (r, s') \<Rightarrow> if r < 0 then None else Some s') = None"
    using add_x10out_rejects [of s buf] by fastforce
next
  fix s and u :: unit
  assume "fifo_inv s" "1 \<le> length (pending s)"
  then show "fifo_inv (pop_x10out s) \<and> pending (pop_x10out s) = drop 1 (pending s)"
    by (intro pop_x10out_drops) (simp_all add: pending_nonempty)
qed

section \<open>The transmitter as a state machine\<close>

text \<open>
  The events of normal operation: a packet to write, the callback of the one outstanding
  transfer, a one-byte input and a timeout of \<open>poll\<close>.
\<close>

datatype tx_event = Write "byte list" | Out_callback transfer_status | In_byte byte | Poll_timeout

inductive tx_step :: "(nat \<Rightarrow> int) \<Rightarrow> usb_state \<Rightarrow> tx_event \<Rightarrow> usb_state \<Rightarrow> bool" for sub where
  step_write: "x10_write sub buf s = (r, t) \<Longrightarrow> tx_step sub s (Write buf) t"
| step_out: "IntrOut_submitted s \<Longrightarrow> tx_step sub s (Out_callback st) (IntrOut_cb sub st s)"
| step_in: "tx_step sub s (In_byte b) (one_byte_input sub b s)"
| step_timeout: "tx_step sub s Poll_timeout (poll_timed_out sub s)"

inductive_cases tx_step_cases [elim]: "tx_step sub s e t"
inductive_simps tx_step_simps:
  "tx_step sub s (Write buf) t"
  "tx_step sub s (Out_callback st) t"
  "tx_step sub s (In_byte b) t"
  "tx_step sub s Poll_timeout t"

text \<open>The packet an event puts into the caller's hands as accepted.\<close>

fun tx_accepts :: "(nat \<Rightarrow> int) \<Rightarrow> tx_event \<Rightarrow> usb_state \<Rightarrow> byte list list" where
  "tx_accepts sub (Write buf) s = (if fst (x10_write sub buf s) < 0 then [] else [buf])"
| "tx_accepts sub _ s = []"

inductive tx_run :: "(nat \<Rightarrow> int) \<Rightarrow> usb_state \<Rightarrow> tx_event list \<Rightarrow> byte list list \<Rightarrow> usb_state \<Rightarrow> bool"
  for sub where
  run_nil: "tx_run sub s [] [] s"
| run_cons: "tx_step sub s e t \<Longrightarrow> tx_run sub t es acc u \<Longrightarrow>
     tx_run sub s (e # es) (tx_accepts sub e s @ acc) u"

text \<open>
  The invariant of normal operation: a transfer is outstanding exactly when none is completed,
  an idle transmitter has nothing pending and nothing outstanding, and the poll timeout is armed
  exactly while it is busy.
\<close>

definition tx_inv :: "usb_state \<Rightarrow> bool" where
  "tx_inv s \<longleftrightarrow>
     fifo_inv s \<and> IntrOut_submitted s = (\<not> IntrOut_completed s) \<and> \<not> IntrOut_canceling s \<and>
     (\<not> Outbusy s \<longrightarrow> pending s = [] \<and> \<not> IntrOut_submitted s) \<and>
     PollTimeOut s = (if Outbusy s then 2000 else -1) \<and>
     (\<forall>p \<in> set (pending s). length p \<le> 8)"

lemmas tx_invD = tx_inv_def [THEN iffD1]

lemma tx_inv_init: "tx_inv usb_init"
  by (simp add: tx_inv_def usb_init_def fifo_inv_def pending_def pending_count_def OUTPTRSSIZE_def)

subsection \<open>write_usb\<close>

lemma write_usb_frame:
  assumes "write_usb sub buf s = (r, t)"
  shows "Outrecs t = Outrecs s" "Outhead t = Outhead s" "Outtail t = Outtail s"
    "Outbusy t = Outbusy s" "PollTimeOut t = PollTimeOut s" "Cm19a t = Cm19a s"
    "Devh t = Devh s" "IntrOut_transfer t = IntrOut_transfer s"
    "wire t = (if r < 0 then wire s else wire s @ [buf])"
  using assms
  by (auto simp: write_usb_def libusb_submit_out_def Let_def errno_defs split: if_splits)

lemma write_usb_flags:
  assumes "write_usb sub buf s = (r, t)" "IntrOut_submitted s = (\<not> IntrOut_completed s)" "\<not> IntrOut_canceling s"
  shows "IntrOut_submitted t = (\<not> IntrOut_completed t)" "\<not> IntrOut_canceling t"
    "r < 0 \<Longrightarrow> IntrOut_submitted t = IntrOut_submitted s"
    "\<not> r < 0 \<Longrightarrow> r = 0 \<and> IntrOut_submitted t \<and> \<not> IntrOut_submitted s \<and> length buf \<le> 8
       \<and> \<not> X10_ack_received t \<and> \<not> X10_ack_timed_out t"
  using assms
  by (auto simp: write_usb_def libusb_submit_out_def Let_def errno_defs split: if_splits)

lemma write_usb_succeeds:
  assumes "IntrOut_transfer s" "Devh s" "\<not> IntrOut_submitted s" "\<not> IntrOut_canceling s" "length buf \<le> 8"
    "\<And>k. 0 \<le> sub k"
  shows "\<exists>t. write_usb sub buf s = (0, t)"
  using assms by (auto simp: write_usb_def libusb_submit_out_def Let_def)
    (use not_le in blast)+

lemma pending_cong:
  "Outrecs t = Outrecs s \<Longrightarrow> Outhead t = Outhead s \<Longrightarrow> Outtail t = Outtail s \<Longrightarrow>
     pending t = pending s \<and> fifo_inv t = fifo_inv s"
  by (simp add: pending_def pending_count_def fifo_inv_def)

lemma pending_simps [simp]:
  "pending (s\<lparr>Outbusy := b\<rparr>) = pending s" "fifo_inv (s\<lparr>Outbusy := b\<rparr>) = fifo_inv s"
  "pending (s\<lparr>PollTimeOut := i\<rparr>) = pending s" "fifo_inv (s\<lparr>PollTimeOut := i\<rparr>) = fifo_inv s"
  "pending (s\<lparr>X10_ack_received := b\<rparr>) = pending s" "fifo_inv (s\<lparr>X10_ack_received := b\<rparr>) = fifo_inv s"
  "pending (s\<lparr>X10_ack_timed_out := b\<rparr>) = pending s" "fifo_inv (s\<lparr>X10_ack_timed_out := b\<rparr>) = fifo_inv s"
  "pending (s\<lparr>IntrOut_submitted := b\<rparr>) = pending s" "fifo_inv (s\<lparr>IntrOut_submitted := b\<rparr>) = fifo_inv s"
  "pending (s\<lparr>IntrOut_canceling := b\<rparr>) = pending s" "fifo_inv (s\<lparr>IntrOut_canceling := b\<rparr>) = fifo_inv s"
  "pending (s\<lparr>IntrOut_completed := b\<rparr>) = pending s" "fifo_inv (s\<lparr>IntrOut_completed := b\<rparr>) = fifo_inv s"
  "pending (s\<lparr>Do_exit := i\<rparr>) = pending s" "fifo_inv (s\<lparr>Do_exit := i\<rparr>) = fifo_inv s"
  "pending (s\<lparr>UsbOutCompletedCount := w\<rparr>) = pending s" "fifo_inv (s\<lparr>UsbOutCompletedCount := w\<rparr>) = fifo_inv s"
  "pending (s\<lparr>UsbAckReceivedCount := w\<rparr>) = pending s" "fifo_inv (s\<lparr>UsbAckReceivedCount := w\<rparr>) = fifo_inv s"
  "pending (s\<lparr>UsbAckTimeoutCount := w\<rparr>) = pending s" "fifo_inv (s\<lparr>UsbAckTimeoutCount := w\<rparr>) = fifo_inv s"
  "pending (s\<lparr>UsbUnexpectedOneByteCount := w\<rparr>) = pending s"
  "fifo_inv (s\<lparr>UsbUnexpectedOneByteCount := w\<rparr>) = fifo_inv s"
  by (simp_all add: pending_def pending_count_def fifo_inv_def)

subsection \<open>x10_write\<close>

lemma x10_write_busy:
  assumes "tx_inv s" "Outbusy s" "x10_write sub buf s = (r, t)"
  shows "tx_inv t \<and> wire t = wire s \<and> pending t = pending s @ (if r < 0 then [] else [buf])
     \<and> (r < 0 \<longleftrightarrow> length buf > 8 \<or> length (pending s) = 255) \<and> (r < 0 \<longrightarrow> t = s)"
proof -
  from assms(1) have inv: "fifo_inv s" by (simp add: tx_inv_def)
  then have le: "pending_count s \<le> 255" using x10_fifo.contents_cap by fastforce
  show ?thesis
  proof (cases "length buf \<le> 8 \<and> pending_count s < 255")
    case True
    then obtain s' where s': "add_x10out buf s = (int (length buf), s')" "fifo_inv s'"
      "pending s' = pending s @ [buf]"
      using add_x10out_fits [OF inv] by blast
    then have f: "wire s' = wire s" "Outbusy s' = Outbusy s" "PollTimeOut s' = PollTimeOut s"
      "IntrOut_submitted s' = IntrOut_submitted s" "IntrOut_completed s' = IntrOut_completed s"
      "IntrOut_canceling s' = IntrOut_canceling s"
      by (auto simp: add_x10out_def Let_def split: if_splits)
    from True s' assms have rt: "r = int (length buf)" "t = s'" by (auto simp: x10_write_def)
    with True s' f assms(1,2) show ?thesis by (simp add: tx_inv_def)
  next
    case False
    with add_x10out_rejects [OF inv, of buf] assms(2,3) have rt: "r = -1" "t = s"
      by (auto simp: x10_write_def split: if_splits)
    with False le assms(1) show ?thesis by auto
  qed
qed

lemma x10_write_idle:
  assumes "tx_inv s" "\<not> Outbusy s" "x10_write sub buf s = (r, t)"
  shows "tx_inv t \<and> wire t = wire s @ (if r < 0 then [] else [buf]) \<and> pending t = [] \<and>
     (\<not> r < 0 \<longrightarrow> r = int (length buf) \<and> IntrOut_submitted t \<and> length buf \<le> 8)"
proof (cases "length buf > 8")
  case True
  with assms show ?thesis by (auto simp: x10_write_def tx_inv_def)
next
  case False
  obtain r' u where w: "write_usb sub buf (s\<lparr>Outbusy := True\<rparr>) = (r', u)" by fastforce
  note fr = write_usb_frame [OF w, simplified]
  have fl: "IntrOut_submitted u = (\<not> IntrOut_completed u)" "\<not> IntrOut_canceling u"
    "r' < 0 \<Longrightarrow> \<not> IntrOut_submitted u" "\<not> r' < 0 \<Longrightarrow> r' = 0 \<and> IntrOut_submitted u"
    using write_usb_flags [OF w] assms(1,2) by (auto simp: tx_inv_def)
  have pend: "pending u = []" "fifo_inv u"
    using pending_cong [OF fr(1-3)] assms(1,2) by (simp_all add: tx_inv_def)
  from False assms(2,3) w have rt:
    "r = (if r' < 0 then r' else int (length buf))"
    "t = (if r' < 0 then u\<lparr>Outbusy := False, PollTimeOut := -1\<rparr> else u\<lparr>PollTimeOut := 2000\<rparr>)"
    by (auto simp: x10_write_def Let_def split: if_splits)
  show ?thesis
    unfolding rt using fr fl pend False by (auto simp: tx_inv_def)
qed

subsection \<open>Advancing the queue\<close>

text \<open>What an advance may do, once no transfer is outstanding: hand over the oldest packet.\<close>

lemma send_next_effect:
  assumes "tx_inv s" "\<not> IntrOut_submitted s" "send_next_x10out sub s = (r, t)"
  shows "tx_inv t"
    "(wire t = wire s \<and> pending t = pending s \<and> \<not> IntrOut_submitted t) \<or>
     (pending s \<noteq> [] \<and> wire t = wire s @ [hd (pending s)] \<and> pending t = tl (pending s) \<and> IntrOut_submitted t)"
proof -
  from assms(1) have inv: "fifo_inv s" by (simp add: tx_inv_def)
  show "tx_inv t" and "(wire t = wire s \<and> pending t = pending s \<and> \<not> IntrOut_submitted t) \<or>
     (pending s \<noteq> [] \<and> wire t = wire s @ [hd (pending s)] \<and> pending t = tl (pending s) \<and> IntrOut_submitted t)"
  proof (atomize (full), cases "\<not> Outbusy s \<or> Outhead s = Outtail s")
    case True
    with assms fifo_empty_iff [OF inv] show "tx_inv t \<and> ((wire t = wire s \<and> pending t = pending s \<and> \<not> IntrOut_submitted t) \<or>
     (pending s \<noteq> [] \<and> wire t = wire s @ [hd (pending s)] \<and> pending t = tl (pending s) \<and> IntrOut_submitted t))"
      by (auto simp: send_next_x10out_def tx_inv_def split: if_splits)
  next
    case False
    then have ne: "pending s \<noteq> []" using fifo_empty_iff [OF inv] by simp
    obtain r' u where w: "write_usb sub (Outrecs s (next_index (Outhead s))) s = (r', u)" by fastforce
    note fr = write_usb_frame [OF w]
    have fl: "IntrOut_submitted u = (\<not> IntrOut_completed u)" "\<not> IntrOut_canceling u"
      "r' < 0 \<Longrightarrow> \<not> IntrOut_submitted u" "\<not> r' < 0 \<Longrightarrow> IntrOut_submitted u"
      using write_usb_flags [OF w] assms(1,2) by (auto simp: tx_inv_def)
    have pu: "pending u = pending s" "fifo_inv u" using pending_cong [OF fr(1-3)] inv by simp_all
    from False assms(3) w have t:
      "t = (if r' < 0 then u\<lparr>PollTimeOut := 2000\<rparr> else pop_x10out u)"
      by (auto simp: send_next_x10out_def Let_def pop_x10out_def fr(2) split: if_splits)
    have pop: "fifo_inv (pop_x10out u)" "pending (pop_x10out u) = tl (pending s)"
      using pop_x10out_drops [of u] pu ne by (simp_all add: drop_Suc)
    have same: "wire (pop_x10out u) = wire u" "Outbusy (pop_x10out u) = Outbusy u"
      "PollTimeOut (pop_x10out u) = PollTimeOut u" "IntrOut_submitted (pop_x10out u) = IntrOut_submitted u"
      "IntrOut_completed (pop_x10out u) = IntrOut_completed u"
      "IntrOut_canceling (pop_x10out u) = IntrOut_canceling u"
      by (simp_all add: pop_x10out_def)
    show "tx_inv t \<and> ((wire t = wire s \<and> pending t = pending s \<and> \<not> IntrOut_submitted t) \<or>
     (pending s \<noteq> [] \<and> wire t = wire s @ [hd (pending s)] \<and> pending t = tl (pending s) \<and> IntrOut_submitted t))"
    proof (cases "r' < 0")
      case True
      with t fr fl pu assms(1) False show ?thesis by (auto simp: tx_inv_def)
    next
      case r: False
      have "\<forall>p \<in> set (tl (pending s)). length p \<le> 8"
        using assms(1) by (metis tx_inv_def list.set_sel(2) ne)
      with t r fr fl pu pop same assms(1) False ne show ?thesis
        by (auto simp: tx_inv_def pending_first [OF inv ne])
    qed
  qed
qed

text \<open>
  The conditions under which the queue may advance: the transfer is complete and, on a CM15A,
  an acknowledgement or a timeout has been recorded since it was submitted.
\<close>

definition may_advance :: "usb_state \<Rightarrow> bool" where
  "may_advance s \<longleftrightarrow> IntrOut_completed s \<and> (Cm19a s \<or> X10_ack_received s \<or> X10_ack_timed_out s)"

lemma maybe_finish_cases:
  "maybe_finish_x10_transmit sub s =
     (if may_advance s then
        snd (send_next_x10out sub (s\<lparr>X10_ack_received := False, X10_ack_timed_out := False\<rparr>))
      else s)"
  by (simp add: maybe_finish_x10_transmit_def may_advance_def)

lemma tx_inv_flags [simp]:
  "tx_inv (s\<lparr>X10_ack_received := b\<rparr>) = tx_inv s"
  "tx_inv (s\<lparr>X10_ack_timed_out := b\<rparr>) = tx_inv s"
  "tx_inv (s\<lparr>UsbOutCompletedCount := w\<rparr>) = tx_inv s"
  "tx_inv (s\<lparr>UsbAckReceivedCount := w\<rparr>) = tx_inv s"
  "tx_inv (s\<lparr>UsbAckTimeoutCount := w\<rparr>) = tx_inv s"
  "tx_inv (s\<lparr>UsbUnexpectedOneByteCount := w\<rparr>) = tx_inv s"
  "tx_inv (s\<lparr>Do_exit := i\<rparr>) = tx_inv s"
  by (simp_all add: tx_inv_def)

text \<open>The effect of every step but a write: nothing, or the oldest packet goes out.\<close>

definition advance_effect :: "usb_state \<Rightarrow> usb_state \<Rightarrow> bool" where
  "advance_effect s t \<longleftrightarrow>
     (wire t = wire s \<and> pending t = pending s) \<or>
     (pending s \<noteq> [] \<and> wire t = wire s @ [hd (pending s)] \<and> pending t = tl (pending s) \<and> IntrOut_submitted t)"

lemma maybe_finish_effect:
  assumes "tx_inv s"
  shows "tx_inv (maybe_finish_x10_transmit sub s)" "advance_effect s (maybe_finish_x10_transmit sub s)"
    "wire (maybe_finish_x10_transmit sub s) \<noteq> wire s \<Longrightarrow> may_advance s"
proof -
  let ?s = "s\<lparr>X10_ack_received := False, X10_ack_timed_out := False\<rparr>"
  obtain r t where st: "send_next_x10out sub ?s = (r, t)" by fastforce
  show "tx_inv (maybe_finish_x10_transmit sub s)" "advance_effect s (maybe_finish_x10_transmit sub s)"
    "wire (maybe_finish_x10_transmit sub s) \<noteq> wire s \<Longrightarrow> may_advance s"
    using assms send_next_effect [OF _ _ st]
    by (auto simp: maybe_finish_cases st advance_effect_def may_advance_def tx_inv_def [of s] split: if_splits)
qed

text \<open>The state an event's handler has when it decides whether to advance.\<close>

fun tx_noted :: "tx_event \<Rightarrow> usb_state \<Rightarrow> usb_state" where
  "tx_noted (Out_callback LIBUSB_TRANSFER_COMPLETED) s =
     s\<lparr>IntrOut_submitted := False, IntrOut_canceling := False, IntrOut_completed := True,
       UsbOutCompletedCount := UsbOutCompletedCount s + 1\<rparr>"
| "tx_noted (Out_callback LIBUSB_TRANSFER_CANCELLED) s =
     s\<lparr>IntrOut_submitted := False, IntrOut_canceling := False, IntrOut_completed := True\<rparr>"
| "tx_noted (Out_callback _) s =
     s\<lparr>IntrOut_submitted := False, IntrOut_canceling := False, IntrOut_completed := True, Do_exit := 2\<rparr>"
| "tx_noted (In_byte b) s =
     (if b = 0x55 then s\<lparr>X10_ack_received := True, UsbAckReceivedCount := UsbAckReceivedCount s + 1\<rparr>
      else s\<lparr>UsbUnexpectedOneByteCount := UsbUnexpectedOneByteCount s + 1\<rparr>)"
| "tx_noted Poll_timeout s =
     s\<lparr>X10_ack_timed_out := True, UsbAckTimeoutCount := UsbAckTimeoutCount s + 1\<rparr>"
| "tx_noted (Write buf) s = s"

lemma tx_step_noted:
  assumes "tx_step sub s e t" "\<forall>buf. e \<noteq> Write buf"
  shows "t = maybe_finish_x10_transmit sub (tx_noted e s) \<or> t = tx_noted e s"
  using assms
proof cases
  case (step_out st)
  then show ?thesis by (cases st) (simp_all add: IntrOut_cb_def Let_def)
qed (auto simp: one_byte_input_def poll_timed_out_def)

lemma tx_noted_inv:
  assumes "tx_step sub s e t" "tx_inv s"
  shows "tx_inv (tx_noted e s)" "wire (tx_noted e s) = wire s" "pending (tx_noted e s) = pending s"
proof -
  have "tx_inv (tx_noted e s) \<and> wire (tx_noted e s) = wire s \<and> pending (tx_noted e s) = pending s"
    using assms
  proof cases
    case (step_out st)
    with assms(2) show ?thesis by (cases st) (auto simp: tx_inv_def)
  qed (use assms(2) in auto)
  then show "tx_inv (tx_noted e s)" "wire (tx_noted e s) = wire s" "pending (tx_noted e s) = pending s"
    by auto
qed

lemma tx_step_advance:
  assumes "tx_step sub s e t" "tx_inv s" "\<forall>buf. e \<noteq> Write buf"
  shows "tx_inv t" "advance_effect s t" "wire t \<noteq> wire s \<Longrightarrow> may_advance (tx_noted e s)"
  using tx_step_noted [OF assms(1,3)] tx_noted_inv [OF assms(1,2)]
    maybe_finish_effect [of "tx_noted e s" sub]
  by (auto simp: advance_effect_def)

subsection \<open>Runs\<close>

lemma tx_step_conserves:
  assumes "tx_step sub s e t" "tx_inv s"
  shows "tx_inv t \<and> wire t @ pending t = wire s @ pending s @ tx_accepts sub e s"
proof (cases "\<exists>buf. e = Write buf")
  case True
  then obtain buf r where e: "e = Write buf" and w: "x10_write sub buf s = (r, t)"
    using assms(1) by (auto simp: tx_step_simps)
  show ?thesis
  proof (cases "Outbusy s")
    case True
    with x10_write_busy [OF assms(2) True w] show ?thesis by (simp add: e w)
  next
    case False
    moreover from False assms(2) have "pending s = []" by (simp add: tx_inv_def)
    ultimately show ?thesis using x10_write_idle [OF assms(2) False w] by (simp add: e w)
  qed
next
  case False
  then have "tx_accepts sub e s = []" by (cases e) auto
  with False tx_step_advance [OF assms] show ?thesis
    by (auto simp: advance_effect_def)
qed

lemma tx_run_inv:
  assumes "tx_run sub s es acc t" "tx_inv s"
  shows "tx_inv t \<and> wire t @ pending t = wire s @ pending s @ acc"
  using assms
proof (induction rule: tx_run.induct)
  case (run_cons s e t es acc u)
  from tx_step_conserves [OF run_cons.hyps(1) run_cons.prems] run_cons.IH show ?case by auto
qed simp

subsection \<open>Draining\<close>

text \<open>A packet is in flight and nothing has been heard of it; the controller is attached.\<close>

definition in_flight :: "usb_state \<Rightarrow> bool" where
  "in_flight s \<longleftrightarrow>
     tx_inv s \<and> Outbusy s \<and> IntrOut_submitted s \<and> \<not> X10_ack_received s \<and> \<not> X10_ack_timed_out s \<and>
     IntrOut_transfer s \<and> Devh s"

text \<open>What a controller does for one packet: completion, and on a CM15A the acknowledgement.\<close>

definition tx_round :: "bool \<Rightarrow> tx_event list" where
  "tx_round cm19a = (if cm19a then [Out_callback LIBUSB_TRANSFER_COMPLETED]
                     else [Out_callback LIBUSB_TRANSFER_COMPLETED, In_byte 0x55])"

lemma send_next_in_flight:
  assumes s: "tx_inv s" "Outbusy s" "\<not> IntrOut_submitted s" "IntrOut_transfer s" "Devh s"
    and dev: "\<And>k. 0 \<le> sub k" and ne: "pending s \<noteq> []" and st: "send_next_x10out sub s = (r, t)"
  shows "in_flight t \<and> wire t = wire s @ [hd (pending s)] \<and> pending t = tl (pending s) \<and> Cm19a t = Cm19a s"
proof -
  have inv: "fifo_inv s" using s by (simp add: tx_inv_def)
  then have diff: "Outhead s \<noteq> Outtail s" using ne fifo_empty_iff by blast
  let ?p = "Outrecs s (next_index (Outhead s))"
  have "length ?p \<le> 8" using s ne by (simp add: pending_first [OF inv ne] tx_inv_def)
  then obtain u where w: "write_usb sub ?p s = (0, u)"
    using write_usb_succeeds [of s ?p sub] s dev by (auto simp: tx_inv_def)
  note fr = write_usb_frame [OF w]
  have fl: "IntrOut_submitted u" "\<not> X10_ack_received u" "\<not> X10_ack_timed_out u"
    using write_usb_flags [OF w] s(1) by (auto simp: tx_inv_def)
  have t: "t = pop_x10out u"
    using st diff s(2) w by (simp add: send_next_x10out_def pop_x10out_def fr(2))
  then have sub: "IntrOut_submitted t" using fl by (simp add: pop_x10out_def)
  from send_next_effect [OF s(1,3) st] sub have "tx_inv t" "wire t = wire s @ [hd (pending s)]"
    "pending t = tl (pending s)" by auto
  with t fr fl s show ?thesis by (simp add: in_flight_def pop_x10out_def)
qed

lemma send_next_idle:
  "tx_inv s \<Longrightarrow> Outbusy s \<Longrightarrow> pending s = [] \<Longrightarrow>
     send_next_x10out sub s = (0, s\<lparr>Outbusy := False, PollTimeOut := -1\<rparr>)"
  using fifo_empty_iff [of s] by (simp add: send_next_x10out_def tx_inv_def)

text \<open>The state after the round's events, when the queue is advanced.\<close>

definition round_end :: "usb_state \<Rightarrow> usb_state" where
  "round_end s =
     (let s = s\<lparr>IntrOut_submitted := False, IntrOut_canceling := False, IntrOut_completed := True,
                UsbOutCompletedCount := UsbOutCompletedCount s + 1\<rparr>;
          s = (if Cm19a s then s else s\<lparr>UsbAckReceivedCount := UsbAckReceivedCount s + 1\<rparr>)
      in s\<lparr>X10_ack_received := False, X10_ack_timed_out := False\<rparr>)"

lemma round_end_props:
  assumes "in_flight s"
  shows "tx_inv (round_end s)" "Outbusy (round_end s)" "\<not> IntrOut_submitted (round_end s)"
    "IntrOut_transfer (round_end s)" "Devh (round_end s)" "pending (round_end s) = pending s"
    "wire (round_end s) = wire s" "Cm19a (round_end s) = Cm19a s"
  using assms by (auto simp: in_flight_def round_end_def Let_def tx_inv_def)

lemma tx_round_run:
  assumes "in_flight s"
  shows "tx_run sub s (tx_round (Cm19a s)) [] (snd (send_next_x10out sub (round_end s)))"
proof (cases "Cm19a s")
  case True
  have "tx_step sub s (Out_callback LIBUSB_TRANSFER_COMPLETED) (snd (send_next_x10out sub (round_end s)))"
    using assms True
    by (auto simp: tx_step_simps in_flight_def IntrOut_cb_def Let_def maybe_finish_cases may_advance_def round_end_def)
  from run_cons [OF this run_nil] True show ?thesis by (simp add: tx_round_def)
next
  case False
  let ?c = "IntrOut_cb sub LIBUSB_TRANSFER_COMPLETED s"
  have c: "tx_step sub s (Out_callback LIBUSB_TRANSFER_COMPLETED) ?c"
    using assms by (auto simp: tx_step_simps in_flight_def)
  have "one_byte_input sub 0x55 ?c = snd (send_next_x10out sub (round_end s))"
    using assms False
    by (simp add: one_byte_input_def in_flight_def IntrOut_cb_def Let_def maybe_finish_cases may_advance_def round_end_def)
  then have a: "tx_step sub ?c (In_byte 0x55) (snd (send_next_x10out sub (round_end s)))"
    by (simp add: tx_step_simps)
  from run_cons [OF c run_cons [OF a run_nil]] False show ?thesis by (simp add: tx_round_def)
qed

lemma tx_run_append:
  "tx_run sub s es acc t \<Longrightarrow> tx_run sub t es' acc' u \<Longrightarrow> tx_run sub s (es @ es') (acc @ acc') u"
  by (induction rule: tx_run.induct) (auto intro: run_cons)

lemma tx_drain:
  assumes "in_flight s" "\<And>k. 0 \<le> sub k" "pending s = ps"
  shows "\<exists>t. tx_run sub s (concat (replicate (Suc (length ps)) (tx_round (Cm19a s)))) [] t \<and>
     wire t = wire s @ ps \<and> pending t = [] \<and> \<not> Outbusy t \<and> PollTimeOut t = -1"
  using assms
proof (induction ps arbitrary: s)
  case Nil
  note re = round_end_props [OF Nil.prems(1)]
  from Nil.prems(3) send_next_idle [OF re(1,2), of sub] tx_round_run [OF Nil.prems(1), of sub] show ?case
    by (intro exI [of _ "snd (send_next_x10out sub (round_end s))"]) (simp add: re)
next
  case (Cons p ps)
  note re = round_end_props [OF Cons.prems(1)]
  obtain r t where st: "send_next_x10out sub (round_end s) = (r, t)" by fastforce
  have t: "in_flight t" "wire t = wire s @ [p]" "pending t = ps" "Cm19a t = Cm19a s"
    using send_next_in_flight [OF re(1-5) Cons.prems(2) _ st] re(6-8) Cons.prems(3) by auto
  obtain u where u: "tx_run sub t (concat (replicate (Suc (length ps)) (tx_round (Cm19a t)))) [] u"
    "wire u = wire t @ ps" "pending u = []" "\<not> Outbusy u" "PollTimeOut u = -1"
    using Cons.IH [OF t(1) Cons.prems(2) t(3)] by blast
  have "tx_run sub s (tx_round (Cm19a s)) [] t"
    using tx_round_run [OF Cons.prems(1), of sub] st by simp
  from tx_run_append [OF this u(1)] u t show ?case by (intro exI [of _ u]) simp
qed

subsection \<open>Pacing\<close>

text \<open>
  A packet has been handed over and the events \<open>es\<close> have followed: its round is over when the
  transfer has called back and, on a CM15A, an acknowledgement or a timeout has been heard; the
  events that may find it over and advance the queue are these three.
\<close>

fun is_out_callback :: "tx_event \<Rightarrow> bool" where
  "is_out_callback (Out_callback st) = True"
| "is_out_callback e = False"

definition round_over :: "bool \<Rightarrow> tx_event list \<Rightarrow> bool" where
  "round_over cm19a es \<longleftrightarrow>
     list_ex is_out_callback es \<and> (cm19a \<or> In_byte 0x55 \<in> set es \<or> Poll_timeout \<in> set es)"

fun advances :: "tx_event \<Rightarrow> bool" where
  "advances (Out_callback st) = (st = LIBUSB_TRANSFER_COMPLETED)"
| "advances (In_byte b) = (b = 0x55)"
| "advances Poll_timeout = True"
| "advances (Write buf) = False"

text \<open>The state after a hand-over in \<open>s\<close> and the events \<open>es\<close>, while the queue has not advanced.\<close>

definition waiting :: "usb_state \<Rightarrow> tx_event list \<Rightarrow> usb_state \<Rightarrow> bool" where
  "waiting s es u \<longleftrightarrow>
     tx_inv u \<and> Outbusy u \<and> IntrOut_transfer u \<and> Devh u \<and> Cm19a u = Cm19a s \<and>
     n_submit u = n_submit s \<and> wire u = wire s \<and> IntrOut_completed u = list_ex is_out_callback es \<and>
     X10_ack_received u = (In_byte 0x55 \<in> set es) \<and> X10_ack_timed_out u = (Poll_timeout \<in> set es)"

lemma waiting_start: "in_flight s \<Longrightarrow> waiting s [] s"
  by (auto simp: waiting_def in_flight_def tx_inv_def)

lemma waiting_write:
  assumes "waiting s es u" "x10_write sub buf u = (r, t)"
  shows "waiting s (es @ [Write buf]) t"
proof -
  from assms(1) have u: "tx_inv u" "Outbusy u" by (simp_all add: waiting_def)
  have "Outbusy t = Outbusy u \<and> IntrOut_transfer t = IntrOut_transfer u \<and> Devh t = Devh u \<and> Cm19a t = Cm19a u \<and>
      n_submit t = n_submit u \<and> IntrOut_completed t = IntrOut_completed u \<and>
      X10_ack_received t = X10_ack_received u \<and> X10_ack_timed_out t = X10_ack_timed_out u"
    using assms(2) u(2) by (auto simp: x10_write_def add_x10out_def Let_def split: if_splits)
  with x10_write_busy [OF u assms(2)] assms(1) show ?thesis by (simp add: waiting_def)
qed

text \<open>An event other than a write is noted; then the queue advances exactly if the round is over.\<close>

lemma waiting_noted:
  assumes "waiting s es u" "tx_step sub u e t" "\<forall>buf. e \<noteq> Write buf"
  shows "waiting s (es @ [e]) (tx_noted e u) \<and> pending (tx_noted e u) = pending u \<and>
    t = (if advances e then maybe_finish_x10_transmit sub (tx_noted e u) else tx_noted e u)"
proof -
  from assms(1) have inv: "tx_inv u" by (simp add: waiting_def)
  note n = tx_noted_inv [OF assms(2) inv]
  have f: "Outbusy (tx_noted e u) = Outbusy u" "IntrOut_transfer (tx_noted e u) = IntrOut_transfer u"
    "Devh (tx_noted e u) = Devh u" "Cm19a (tx_noted e u) = Cm19a u" "n_submit (tx_noted e u) = n_submit u"
    "IntrOut_completed (tx_noted e u) = (IntrOut_completed u \<or> is_out_callback e)"
    "X10_ack_received (tx_noted e u) = (X10_ack_received u \<or> e = In_byte 0x55)"
    "X10_ack_timed_out (tx_noted e u) = (X10_ack_timed_out u \<or> e = Poll_timeout)"
    by (induction e u rule: tx_noted.induct) auto
  have "t = (if advances e then maybe_finish_x10_transmit sub (tx_noted e u) else tx_noted e u)"
    using assms(2,3)
  proof cases
    case (step_out st)
    then show ?thesis by (cases st) (simp_all add: IntrOut_cb_def Let_def)
  qed (auto simp: one_byte_input_def poll_timed_out_def)
  with assms(1) n f show ?thesis by (auto simp: waiting_def)
qed

lemma waiting_may_advance: "waiting s es u \<Longrightarrow> may_advance u \<longleftrightarrow> round_over (Cm19a s) es"
  by (auto simp: waiting_def may_advance_def round_over_def)

lemma waiting_step:
  assumes "waiting s es u" "tx_step sub u e t" "\<not> (round_over (Cm19a s) (es @ [e]) \<and> advances e)"
  shows "waiting s (es @ [e]) t"
proof (cases "\<exists>buf. e = Write buf")
  case True
  with assms(1,2) waiting_write show ?thesis by (auto simp: tx_step_simps)
next
  case False
  with waiting_noted [OF assms(1,2)] have w: "waiting s (es @ [e]) (tx_noted e u)"
    and t: "t = (if advances e then maybe_finish_x10_transmit sub (tx_noted e u) else tx_noted e u)" by auto
  with assms(3) waiting_may_advance [OF w] show ?thesis by (auto simp: maybe_finish_cases)
qed

lemma waiting_run:
  assumes "tx_run sub u es acc t" "waiting s es0 u" "\<not> round_over (Cm19a s) (es0 @ es)"
  shows "waiting s (es0 @ es) t"
  using assms
proof (induction arbitrary: es0 rule: tx_run.induct)
  case (run_cons u e t es acc v)
  have "\<not> round_over (Cm19a s) (es0 @ [e])" using run_cons.prems(2) by (auto simp: round_over_def)
  with waiting_step [OF run_cons.prems(1) run_cons.hyps(1)] have "waiting s (es0 @ [e]) t" by blast
  from run_cons.IH [OF this] run_cons.prems(2) show ?case by simp
qed simp

text \<open>The hand-over of the oldest packet, or its refusal by libusb.\<close>

lemma send_next_submits:
  assumes "waiting s es u" "round_over (Cm19a s) es" "pending u \<noteq> []"
    "t = snd (send_next_x10out sub (u\<lparr>X10_ack_received := False, X10_ack_timed_out := False\<rparr>))"
  shows "n_submit t = Suc (n_submit u) \<and>
    (if sub (n_submit u) < 0 then wire t = wire u \<and> pending t = pending u
     else wire t = wire u @ [hd (pending u)] \<and> pending t = tl (pending u) \<and> in_flight t)"
proof -
  let ?u = "u\<lparr>X10_ack_received := False, X10_ack_timed_out := False\<rparr>"
  from assms(1,2) have u: "tx_inv ?u" "\<not> IntrOut_submitted ?u" "Outbusy ?u" "IntrOut_transfer ?u" "Devh ?u"
    by (auto simp: waiting_def round_over_def tx_inv_def)
  have inv: "fifo_inv ?u" "Outhead ?u \<noteq> Outtail ?u"
    using u(1) assms(3) fifo_empty_iff [of ?u] by (simp_all add: tx_inv_def)
  let ?p = "Outrecs ?u (next_index (Outhead ?u))"
  have len: "length ?p \<le> 8" using u(1) assms(3) pending_first [OF inv(1)] by (simp add: tx_inv_def)
  obtain r v where w: "write_usb sub ?p ?u = (r, v)" by fastforce
  have n: "n_submit v = Suc (n_submit u) \<and> (r < 0 \<longleftrightarrow> sub (n_submit u) < 0) \<and>
      (r < 0 \<or> \<not> X10_ack_received v \<and> \<not> X10_ack_timed_out v)"
    using w u len by (auto simp: write_usb_def libusb_submit_out_def Let_def tx_inv_def split: if_splits)
  note fr = write_usb_frame [OF w]
  obtain r' where st: "send_next_x10out sub ?u = (r', t)" using assms(4) by (cases "send_next_x10out sub ?u") simp
  then have t: "t = (if r < 0 then v\<lparr>PollTimeOut := 2000\<rparr> else pop_x10out v)"
    using w u(3) inv(2) by (auto simp: send_next_x10out_def pop_x10out_def fr(2) Let_def)
  have sub: "IntrOut_submitted t \<longleftrightarrow> \<not> r < 0"
    using write_usb_flags [OF w] u(1,2) by (auto simp: t pop_x10out_def tx_inv_def)
  have fl: "X10_ack_received t = X10_ack_received v" "X10_ack_timed_out t = X10_ack_timed_out v"
    "Outbusy t" "IntrOut_transfer t" "Devh t" "n_submit t = n_submit v"
    using fr u(3-5) by (auto simp: t pop_x10out_def)
  show ?thesis
    using send_next_effect [OF u(1,2) st] n sub fl assms(3) by (auto simp: in_flight_def)
qed

section \<open>Properties\<close>

text \<open>
  C2: Whatever the order of writes, callbacks, one-byte inputs and timeouts, and however often
  libusb refuses a submission, every packet \<open>x10_write\<close> accepted is either on the wire or
  pending, exactly once and in the order of acceptance; at most 255 are pending, and the poll
  timeout is armed exactly while the transmitter is busy.
\<close>

theorem x10_fifo_conserves:
  assumes "tx_inv s" "tx_run sub s es accepted t"
  shows "wire t @ pending t = wire s @ pending s @ accepted \<and> length (pending t) \<le> 255 \<and>
    PollTimeOut t = (if Outbusy t then 2000 else -1) \<and> (\<not> Outbusy t \<longrightarrow> pending t = [])"
proof -
  from tx_run_inv [OF assms(2,1)] have inv: "tx_inv t"
    and eq: "wire t @ pending t = wire s @ pending s @ accepted" by auto
  from inv have "length (pending t) \<le> 255" by (intro x10_fifo.contents_cap) (simp add: tx_inv_def)
  with inv eq show ?thesis by (simp add: tx_inv_def)
qed

definition usb_ready :: usb_state where
  "usb_ready = usb_init\<lparr>Devh := True, IntrOut_transfer := True, IntrIn_transfer := True\<rparr>"

lemma tx_inv_ready [simp]: "tx_inv usb_ready"
  by (simp add: usb_ready_def usb_init_def tx_inv_def pending_def pending_count_def fifo_inv_def OUTPTRSSIZE_def)

lemmas usb_run_defs =
  usb_ready_def usb_init_def x10_write_def write_usb_def libusb_submit_out_def add_x10out_def
  next_index_def OUTPTRSSIZE_def Let_def

theorem x10_fifo_conserves_witness:
  "\<exists>t. tx_run (\<lambda>_. 0) usb_ready [Write [4], Write [6, 7]] [[4], [6, 7]] t \<and>
     wire t @ pending t = [[4], [6, 7]] \<and> length (pending t) \<le> 255"
proof -
  obtain r t where w: "x10_write (\<lambda>_. 0) [4] usb_ready = (r, t)" by fastforce
  obtain r' u where w': "x10_write (\<lambda>_. 0) [6, 7] t = (r', u)" by fastforce
  have "tx_accepts (\<lambda>_. 0) (Write [4]) usb_ready = [[4]]"
    "tx_accepts (\<lambda>_. 0) (Write [6, 7]) t = [[6, 7]]"
    using w by (auto simp: usb_run_defs)
  with run_cons [OF step_write [OF w] run_cons [OF step_write [OF w'] run_nil]]
  have run: "tx_run (\<lambda>_. 0) usb_ready [Write [4], Write [6, 7]] [[4], [6, 7]] u" by simp
  have "wire usb_ready = []" "pending usb_ready = []"
    by (simp_all add: usb_ready_def usb_init_def pending_def pending_count_def OUTPTRSSIZE_def)
  with run x10_fifo_conserves [OF tx_inv_ready run] show ?thesis by auto
qed

text \<open>
  C3: The transmitter is stop-and-wait. After a packet has been handed over to libusb nothing more
  is submitted, whatever is written, called back, heard or timed out, until the transfer has called
  back and, on a CM15A, an acknowledgement or a timeout has been heard since the hand-over, in
  either order. The event that ends this round does submit the oldest pending packet (once: the busy
  guard of \<open>write_usb\<close> does not stop it), and starts the next round unless libusb refuses it; with
  nothing pending the transmitter becomes idle.
\<close>

theorem x10_pacing:
  assumes "in_flight s" "tx_run sub s es acc u" "\<not> round_over (Cm19a s) es" "tx_step sub u e t"
  shows "if round_over (Cm19a s) (es @ [e]) \<and> advances e
    then (if pending u = [] then wire t = wire s \<and> n_submit t = n_submit s \<and> \<not> Outbusy t
          else n_submit t = Suc (n_submit s) \<and>
            (if sub (n_submit s) < 0 then wire t = wire s \<and> pending t = pending u
             else wire t = wire s @ [hd (pending u)] \<and> pending t = tl (pending u) \<and> in_flight t))
    else wire t = wire s \<and> n_submit t = n_submit s \<and> Outbusy t"
proof -
  have u: "waiting s es u" using waiting_run [OF assms(2) waiting_start [OF assms(1)]] assms(3) by simp
  then have same: "n_submit u = n_submit s" "wire u = wire s" by (simp_all add: waiting_def)
  show ?thesis
  proof (cases "round_over (Cm19a s) (es @ [e]) \<and> advances e")
    case False
    with waiting_step [OF u assms(4)] show ?thesis by (auto simp: waiting_def)
  next
    case True
    then have "\<forall>buf. e \<noteq> Write buf" by auto
    note n = waiting_noted [OF u assms(4) this]
    let ?v = "tx_noted e u"
    have t: "t = snd (send_next_x10out sub (?v\<lparr>X10_ack_received := False, X10_ack_timed_out := False\<rparr>))"
      using n True waiting_may_advance [of s "es @ [e]" ?v] by (simp add: maybe_finish_cases)
    have v: "n_submit ?v = n_submit s" "wire ?v = wire s" "pending ?v = pending u" "tx_inv ?v" "Outbusy ?v"
      using n by (simp_all add: waiting_def)
    show ?thesis
    proof (cases "pending u = []")
      case True
      with v t send_next_idle [of "?v\<lparr>X10_ack_received := False, X10_ack_timed_out := False\<rparr>" sub]
        \<open>round_over _ _ \<and> _\<close> show ?thesis by simp
    next
      case False
      then have "pending ?v \<noteq> []" by (simp add: v)
      from send_next_submits [OF conjunct1 [OF n] conjunct1 [OF True] this t] False True show ?thesis
        by (simp add: v)
    qed
  qed
qed

text \<open>
  C4: The queue drains: with a packet in flight and an attached controller whose submissions
  succeed, one completion (followed on a CM15A by one acknowledgement) per packet puts all
  pending packets on the wire, in order, and leaves the transmitter idle with its timeout off.
\<close>

theorem x10_queue_drains:
  assumes "in_flight s" "\<forall>k. 0 \<le> sub k"
  shows "\<exists>t. tx_run sub s (concat (replicate (Suc (length (pending s))) (tx_round (Cm19a s)))) [] t \<and>
     wire t = wire s @ pending s \<and> pending t = [] \<and> \<not> Outbusy t \<and> PollTimeOut t = -1"
  using tx_drain [of s sub "pending s"] assms by blast

definition usb_two :: usb_state where
  "usb_two = snd (x10_write (\<lambda>_. 0) [6, 7] (snd (x10_write (\<lambda>_. 0) [4] usb_ready)))"

lemma usb_two_props:
  "in_flight usb_two" "wire usb_two = [[4]]" "pending usb_two = [[6, 7]]" "Cm19a usb_two = False"
proof -
  have "wire usb_two = [[4]] \<and> pending usb_two = [[6, 7]] \<and> \<not> Cm19a usb_two \<and> Outhead usb_two = 0 \<and> Outtail usb_two = 1"
    by (simp add: usb_two_def usb_run_defs pending_def pending_count_def ring_slice_def)
  moreover have "in_flight usb_two"
    by (simp add: usb_two_def in_flight_def tx_inv_def fifo_inv_def pending_def pending_count_def
        ring_slice_def usb_run_defs)
  ultimately show "in_flight usb_two" "wire usb_two = [[4]]" "pending usb_two = [[6, 7]]"
    "Cm19a usb_two = False" by auto
qed

theorem x10_queue_drains_witness:
  "\<exists>t. tx_run (\<lambda>_. 0) usb_two (concat (replicate 2 (tx_round False))) [] t \<and>
     wire t = [[4], [6, 7]] \<and> \<not> Outbusy t"
  using x10_queue_drains [of usb_two "\<lambda>_. 0"] by (simp add: usb_two_props numeral_2_eq_2) blast

text \<open>An acknowledgement that arrives before the completion of its transfer.\<close>

theorem x10_pacing_witness:
  "\<exists>u t. tx_run (\<lambda>_. 0) usb_two [In_byte 0x55] [] u \<and> wire u = [[4]] \<and>
     tx_step (\<lambda>_. 0) u (Out_callback LIBUSB_TRANSFER_COMPLETED) t \<and> wire t = [[4], [6, 7]] \<and> in_flight t"
proof -
  let ?u = "one_byte_input (\<lambda>_. 0) 0x55 usb_two"
  have early: "\<not> round_over (Cm19a usb_two) []" "\<not> round_over (Cm19a usb_two) [In_byte 0x55]"
    by (simp_all add: round_over_def)
  have run: "tx_run (\<lambda>_. 0) usb_two [In_byte 0x55] [] ?u"
    using run_cons [OF step_in run_nil, of "\<lambda>_. 0" usb_two "0x55"] by simp
  have w: "waiting usb_two [In_byte 0x55] ?u"
    using waiting_run [OF run waiting_start [OF usb_two_props(1)]] early by simp
  have "IntrOut_submitted ?u" using w by (auto simp: waiting_def tx_inv_def)
  then have st: "tx_step (\<lambda>_. 0) ?u (Out_callback LIBUSB_TRANSFER_COMPLETED)
      (IntrOut_cb (\<lambda>_. 0) LIBUSB_TRANSFER_COMPLETED ?u)" by (rule step_out)
  have "pending ?u = [[6, 7]]"
    using tx_run_inv [OF run] usb_two_props w by (simp add: in_flight_def waiting_def)
  moreover have "wire ?u = [[4]]" using w usb_two_props by (simp add: waiting_def)
  ultimately show ?thesis
    using x10_pacing [OF usb_two_props(1) run early(2) st] run st usb_two_props by (auto simp: round_over_def)
qed

end
