(* ===== verification/Client_Output.thy ===== *)
theory Client_Output
  imports Bounded_Queue
begin

text \<open>
  The per-client output queue of \<open>src/core/mochad.c\<close> (\<open>struct client_output_queue\<close>): a
  byte ring of 16384 bytes with a head, a length and the time its client stopped reading. The
  abstraction is the list of queued bytes; the queue meets the contract of Bounded_Queue.
\<close>

section \<open>State and operations\<close>

record client_output_queue =
  q_data :: "nat \<Rightarrow> char"
  q_head :: nat
  q_len :: nat
  q_stalled_since :: int

definition CLIENT_OUTPUT_QUEUE_SIZE :: nat where "CLIENT_OUTPUT_QUEUE_SIZE = 16384"

definition client_output_init :: "client_output_queue \<Rightarrow> client_output_queue" where
  "client_output_init q = q\<lparr>q_head := 0, q_len := 0, q_stalled_since := 0\<rparr>"

definition client_output_space :: "client_output_queue \<Rightarrow> nat" where
  "client_output_space q = CLIENT_OUTPUT_QUEUE_SIZE - q_len q"

text \<open>\<open>memcpy(f + p, xs, length)\<close>.\<close>

definition copy_into :: "nat \<Rightarrow> 'a list \<Rightarrow> (nat \<Rightarrow> 'a) \<Rightarrow> nat \<Rightarrow> 'a" where
  "copy_into p xs f = (\<lambda>i. if p \<le> i \<and> i < p + length xs then xs ! (i - p) else f i)"

text \<open>\<open>None\<close> is \<open>-ENOBUFS\<close>.\<close>

definition client_output_enqueue :: "string \<Rightarrow> client_output_queue \<Rightarrow> client_output_queue option" where
  "client_output_enqueue src q =
     (if length src > client_output_space q then None
      else let tail = (q_head q + q_len q) mod CLIENT_OUTPUT_QUEUE_SIZE;
               first = min (CLIENT_OUTPUT_QUEUE_SIZE - tail) (length src);
               d = copy_into tail (take first src) (q_data q);
               d = (if first < length src then copy_into 0 (drop first src) d else d)
           in Some (q\<lparr>q_data := d, q_len := q_len q + length src\<rparr>))"

text \<open>The contiguous bytes at the head: what one \<open>send\<close> is offered.\<close>

definition client_output_peek :: "client_output_queue \<Rightarrow> string" where
  "client_output_peek q =
     (if q_len q = 0 then []
      else map (\<lambda>i. q_data q (q_head q + i)) [0..<min (CLIENT_OUTPUT_QUEUE_SIZE - q_head q) (q_len q)])"

definition client_output_consume :: "nat \<Rightarrow> client_output_queue \<Rightarrow> client_output_queue" where
  "client_output_consume n q =
     (if n \<ge> q_len q then client_output_init q
      else let q = q\<lparr>q_head := (q_head q + n) mod CLIENT_OUTPUT_QUEUE_SIZE, q_len := q_len q - n\<rparr>
           in if q_len q = 0 then q\<lparr>q_stalled_since := 0\<rparr> else q)"

section \<open>Abstraction and invariant\<close>

definition oq_contents :: "client_output_queue \<Rightarrow> string" where
  "oq_contents q = ring_slice (q_data q) CLIENT_OUTPUT_QUEUE_SIZE (q_head q) (q_len q)"

definition oq_inv :: "client_output_queue \<Rightarrow> bool" where
  "oq_inv q \<longleftrightarrow> q_head q < CLIENT_OUTPUT_QUEUE_SIZE \<and> q_len q \<le> CLIENT_OUTPUT_QUEUE_SIZE"

lemma SIZE_pos [simp]: "0 < CLIENT_OUTPUT_QUEUE_SIZE"
  by (simp add: CLIENT_OUTPUT_QUEUE_SIZE_def)

lemma oq_length [simp]: "length (oq_contents q) = q_len q"
  by (simp add: oq_contents_def)

lemma oq_empty_iff: "oq_contents q = [] \<longleftrightarrow> q_len q = 0"
  by (metis oq_length length_0_conv)

lemma oq_init [simp]: "oq_contents (client_output_init q) = []" "oq_inv (client_output_init q)"
  by (simp_all add: oq_contents_def oq_inv_def client_output_init_def)

section \<open>The two copies of an enqueue\<close>

text \<open>A cell after the copies, by its distance from the tail around the ring.\<close>

lemma copy_ring:
  assumes "tail < m" "length xs \<le> m" "p < m"
  shows "(let first = min (m - tail) (length xs); d = copy_into tail (take first xs) f
          in (if first < length xs then copy_into 0 (drop first xs) d else d)) p =
     (let k = (p + m - tail) mod m in if k < length xs then xs ! k else f p)"
proof -
  have k: "(p + m - tail) mod m = (if p < tail then p + m - tail else p - tail)"
    using assms mod_less_double [of "p + m - tail" m] by auto
  show ?thesis
    using assms unfolding k by (auto simp: copy_into_def Let_def min_def add.commute)
qed

lemma ring_distance:
  assumes "h < m" "i < m" "n \<le> m"
  shows "((h + i) mod m + m - (h + n) mod m) mod m = (if i < n then i + m - n else (i - n :: nat))"
proof -
  have "(h + i) mod m = (if h + i < m then h + i else h + i - m)"
    using assms by (intro mod_less_double) linarith
  moreover have "(h + n) mod m = (if h + n < m then h + n else h + n - m)"
    using assms by (intro mod_less_double) linarith
  ultimately show ?thesis
    using assms by (auto simp: mod_less_double)
qed

lemma oq_enqueue_fits:
  assumes inv: "oq_inv q" and fits: "length (oq_contents q) + length xs \<le> CLIENT_OUTPUT_QUEUE_SIZE"
  shows "\<exists>q'. client_output_enqueue xs q = Some q' \<and> oq_inv q' \<and> oq_contents q' = oq_contents q @ xs
    \<and> q_stalled_since q' = q_stalled_since q"
proof -
  let ?M = CLIENT_OUTPUT_QUEUE_SIZE
  let ?tail = "(q_head q + q_len q) mod ?M"
  let ?first = "min (?M - ?tail) (length xs)"
  let ?d = "if ?first < length xs then copy_into 0 (drop ?first xs) (copy_into ?tail (take ?first xs) (q_data q))
            else copy_into ?tail (take ?first xs) (q_data q)"
  have room: "q_len q + length xs \<le> ?M" using fits by simp
  have enq: "client_output_enqueue xs q = Some (q\<lparr>q_data := ?d, q_len := q_len q + length xs\<rparr>)"
    using room by (simp add: client_output_enqueue_def client_output_space_def Let_def)
  have "ring_slice ?d ?M (q_head q) (q_len q + length xs) = oq_contents q @ xs"
  proof (rule nth_equalityI)
    fix i assume i: "i < length (ring_slice ?d ?M (q_head q) (q_len q + length xs))"
    let ?p = "(q_head q + i) mod ?M"
    have p: "?p < ?M" by simp
    have k: "(?p + ?M - ?tail) mod ?M = (if i < q_len q then i + ?M - q_len q else i - q_len q)"
      by (rule ring_distance) (use inv i room in \<open>auto simp: oq_inv_def\<close>)
    have "?d ?p = (let k = (?p + ?M - ?tail) mod ?M in if k < length xs then xs ! k else q_data q ?p)"
      using copy_ring [of ?tail ?M xs ?p "q_data q"] p room by (simp add: Let_def)
    then show "ring_slice ?d ?M (q_head q) (q_len q + length xs) ! i = (oq_contents q @ xs) ! i"
      unfolding k using i room by (auto simp: Let_def nth_append oq_contents_def)
  qed simp
  with enq inv room show ?thesis by (auto simp: oq_contents_def oq_inv_def)
qed

lemma oq_enqueue_rejects:
  "oq_inv q \<Longrightarrow> \<not> length (oq_contents q) + length xs \<le> CLIENT_OUTPUT_QUEUE_SIZE \<Longrightarrow>
     client_output_enqueue xs q = None"
  by (auto simp: client_output_enqueue_def client_output_space_def oq_inv_def)

lemma oq_consume:
  assumes "oq_inv q"
  shows "oq_inv (client_output_consume n q) \<and> oq_contents (client_output_consume n q) = drop n (oq_contents q)"
  using assms
  by (auto simp: client_output_consume_def Let_def oq_inv_def client_output_init_def oq_contents_def
      ring_slice_drop)

lemma oq_consume_stalled:
  "q_stalled_since (client_output_consume n q) = (if n \<ge> q_len q then 0 else q_stalled_since q)"
  by (simp add: client_output_consume_def Let_def client_output_init_def)

text \<open>The bytes offered to \<open>send\<close> are a non-empty prefix of the queue.\<close>

lemma oq_peek:
  assumes "oq_inv q"
  shows "client_output_peek q = take (length (client_output_peek q)) (oq_contents q)"
    and "client_output_peek q = [] \<longleftrightarrow> oq_contents q = []"
proof -
  show "client_output_peek q = take (length (client_output_peek q)) (oq_contents q)"
    by (rule nth_equalityI) (auto simp: client_output_peek_def oq_contents_def)
  show "client_output_peek q = [] \<longleftrightarrow> oq_contents q = []"
    using assms by (auto simp: client_output_peek_def oq_inv_def oq_empty_iff)
qed

section \<open>The contract\<close>

interpretation output_queue: bounded_queue oq_contents oq_inv CLIENT_OUTPUT_QUEUE_SIZE
    "\<lambda>xs. True" "\<lambda>xs. xs" "\<lambda>n. n" client_output_enqueue client_output_consume
proof
  show "oq_inv q \<Longrightarrow> length (oq_contents q) \<le> CLIENT_OUTPUT_QUEUE_SIZE" for q
    by (simp add: oq_inv_def)
qed (use oq_enqueue_fits oq_enqueue_rejects oq_consume in \<open>blast+\<close>)

section \<open>Properties\<close>

text \<open>
  C15: Over any sequence of enqueues and consumes, with the two-part copies and the head wrapping
  around the ring, the output queue of a client loses, duplicates and reorders no byte and never
  holds more than its 16384 bytes; what \<open>send\<close> is offered is a prefix of what is queued.
\<close>

theorem client_output_conserves:
  assumes "oq_inv q"
    "queue_run oq_contents (\<lambda>xs. xs) (\<lambda>n. n) client_output_enqueue client_output_consume ops q = (acc, out, r)"
  shows "oq_contents q @ acc = out @ oq_contents r \<and> length (oq_contents r) \<le> CLIENT_OUTPUT_QUEUE_SIZE \<and>
    client_output_peek r = take (length (client_output_peek r)) (oq_contents r) \<and>
    (client_output_peek r = [] \<longleftrightarrow> oq_contents r = [])"
  using output_queue.run_conserves [OF assms] output_queue.run_bounded [OF assms] oq_peek [of r]
  by simp

definition empty_output :: client_output_queue where
  "empty_output = \<lparr>q_data = (\<lambda>_. CHR 0x00), q_head = 0, q_len = 0, q_stalled_since = 0\<rparr>"

text \<open>An empty queue whose head is at the last cell: the enqueue wraps around.\<close>

theorem client_output_conserves_witness:
  "\<exists>r. oq_contents r = ''b'' \<and> client_output_peek r = ''b'' \<and>
     queue_run oq_contents (\<lambda>xs. xs) (\<lambda>n. n) client_output_enqueue client_output_consume
       [Enq ''ab'', Deq 1] (empty_output\<lparr>q_head := 16383\<rparr>) = (''ab'', ''a'', r)"
proof -
  let ?q = "empty_output\<lparr>q_head := 16383\<rparr>"
  have q: "oq_inv ?q" by (simp add: oq_inv_def empty_output_def CLIENT_OUTPUT_QUEUE_SIZE_def)
  have "\<exists>acc out r. queue_run oq_contents (\<lambda>xs. xs) (\<lambda>n. n) client_output_enqueue client_output_consume
      [Enq ''ab'', Deq 1] ?q = (acc, out, r) \<and> acc = ''ab'' \<and> out = ''a'' \<and> oq_contents r = ''b''"
    by (simp add: empty_output_def client_output_enqueue_def client_output_space_def Let_def copy_into_def
        oq_contents_def ring_slice_def client_output_consume_def CLIENT_OUTPUT_QUEUE_SIZE_def)
  then obtain r where run: "queue_run oq_contents (\<lambda>xs. xs) (\<lambda>n. n) client_output_enqueue
      client_output_consume [Enq ''ab'', Deq 1] ?q = (''ab'', ''a'', r)" and c: "oq_contents r = ''b''"
    by blast
  from client_output_conserves [OF q run] c
  have "client_output_peek r = take (length (client_output_peek r)) ''b''" "client_output_peek r \<noteq> []" by auto
  then have "client_output_peek r = ''b''"
    by (metis length_0_conv not_gr_zero take_Cons' take_Nil)
  with run c show ?thesis by blast
qed

end
