(* ===== verification/Config.thy ===== *)
theory Config
  imports Mochad_Prelude
begin

text \<open>
  \<open>src/config/config.c\<close>: the run-time configuration, read from defaults, a key=value file,
  the environment and the command line, in this order, and then validated. A result is
  \<open>Inl\<close> of the message left in the \<open>error\<close> buffer of \<open>n\<close> bytes, or
  \<open>Inr\<close> of the configuration. The environment, the file system and the check of
  \<open>getaddrinfo\<close> for a numeric host are parameters.
\<close>

section \<open>Data\<close>

datatype dual_stack_policy =
    MOCHAD_DUAL_STACK_AUTO
  | MOCHAD_DUAL_STACK_ENABLE
  | MOCHAD_DUAL_STACK_DISABLE

record mochad_config =
  bind_address :: string
  server_port :: int
  xml_port :: int
  openremote_port :: int
  xml_enabled :: bool
  openremote_enabled :: bool
  foreground :: bool
  cfg_raw_data :: bool
  dual_stack :: dual_stack_policy
  log_level :: int
  check_config :: bool
  print_config :: bool
  show_help :: bool
  show_version :: bool
  config_file :: string

definition LOG_EMERG :: int where "LOG_EMERG = 0"
definition LOG_ALERT :: int where "LOG_ALERT = 1"
definition LOG_CRIT :: int where "LOG_CRIT = 2"
definition LOG_ERR :: int where "LOG_ERR = 3"
definition LOG_WARNING :: int where "LOG_WARNING = 4"
definition LOG_NOTICE :: int where "LOG_NOTICE = 5"
definition LOG_INFO :: int where "LOG_INFO = 6"
definition LOG_DEBUG :: int where "LOG_DEBUG = 7"

lemmas log_defs =
  LOG_EMERG_def LOG_ALERT_def LOG_CRIT_def LOG_ERR_def
  LOG_WARNING_def LOG_NOTICE_def LOG_INFO_def LOG_DEBUG_def

definition MOCHAD_CONFIG_BIND_ADDRESS_LEN :: nat where "MOCHAD_CONFIG_BIND_ADDRESS_LEN = 128"
definition MOCHAD_CONFIG_PATH_LEN :: nat where "MOCHAD_CONFIG_PATH_LEN = 512"

section \<open>Strings\<close>

definition trim :: "string \<Rightarrow> string" where
  "trim value = rev (dropWhile isspace (rev (dropWhile isspace value)))"

definition strip_optional_quotes :: "string \<Rightarrow> string" where
  "strip_optional_quotes value =
     (if length value < 2 then value
      else if (hd value = CHR ''\"'' \<and> last value = CHR ''\"'') \<or>
              (hd value = CHR 0x27 \<and> last value = CHR 0x27)
           then take (length value - 2) (tl value)
      else value)"

definition dash_to_underscore :: "char \<Rightarrow> char" where
  "dash_to_underscore c = (if c = CHR ''-'' then CHR ''_'' else c)"

definition normalize_key :: "string \<Rightarrow> string" where
  "normalize_key key =
     (let k = map (\<lambda>ch. tolower (dash_to_underscore ch)) key
      in if take 7 k = ''mochad_'' then drop 7 k else k)"

definition copy_string :: "nat \<Rightarrow> nat \<Rightarrow> string \<Rightarrow> string + string" where
  "copy_string n dest_len value =
     (if value = [] then Inl (snprintf_text n ''value cannot be empty'')
      else if length value \<ge> dest_len then Inl (snprintf_text n ''value is too long'')
      else Inr value)"

section \<open>Values\<close>

definition true_words :: "string list" where
  "true_words = [''1'', ''true'', ''yes'', ''on'', ''enable'', ''enabled'']"

definition false_words :: "string list" where
  "false_words = [''0'', ''false'', ''no'', ''off'', ''disable'', ''disabled'']"

definition parse_bool :: "string \<Rightarrow> bool option" where
  "parse_bool value =
     (if length value \<ge> 16 then None
      else let normalized = map tolower value
           in if normalized \<in> set true_words then Some True
              else if normalized \<in> set false_words then Some False
              else None)"

definition parse_port :: "nat \<Rightarrow> string \<Rightarrow> string \<Rightarrow> string + int" where
  "parse_port n name value =
     (let r = strtol10 value
      in if sr_erange r \<or> \<not> sr_converted r \<or> sr_rest r \<noteq> [] \<or> sr_value r < 1 \<or> sr_value r > 65535 then
           Inl (snprintf_text n (name @ '' must be a TCP port from 1 to 65535: '' @ value))
         else Inr (sr_value r))"

definition parse_dual_stack :: "string \<Rightarrow> dual_stack_policy option" where
  "parse_dual_stack value =
     (if length value \<ge> 24 then None
      else let normalized = map (\<lambda>ch. tolower (dash_to_underscore ch)) value
           in if normalized = ''auto'' then Some MOCHAD_DUAL_STACK_AUTO
              else if normalized \<in> set true_words then Some MOCHAD_DUAL_STACK_ENABLE
              else if normalized \<in> set false_words \<or> normalized = ''ipv6_only''
                then Some MOCHAD_DUAL_STACK_DISABLE
              else None)"

definition log_level_words :: "(string \<times> int) list" where
  "log_level_words =
    [(''emerg'', LOG_EMERG), (''emergency'', LOG_EMERG), (''alert'', LOG_ALERT), (''crit'', LOG_CRIT),
     (''critical'', LOG_CRIT), (''err'', LOG_ERR), (''error'', LOG_ERR), (''warning'', LOG_WARNING),
     (''warn'', LOG_WARNING), (''notice'', LOG_NOTICE), (''info'', LOG_INFO), (''debug'', LOG_DEBUG)]"

definition parse_log_level :: "string \<Rightarrow> int option" where
  "parse_log_level value =
     (let r = strtol10 value
      in if \<not> sr_erange r \<and> sr_converted r \<and> sr_rest r = [] \<and> LOG_EMERG \<le> sr_value r \<and> sr_value r \<le> LOG_DEBUG
         then Some (sr_value r)
         else if length value \<ge> 16 then None
         else map_of log_level_words (map tolower value))"

section \<open>Keys\<close>

definition set_bool :: "nat \<Rightarrow> string \<Rightarrow> string \<Rightarrow> (bool \<Rightarrow> mochad_config) \<Rightarrow> string + mochad_config" where
  "set_bool n raw_key value upd =
     (case parse_bool value of
        None \<Rightarrow> Inl (snprintf_text n (''invalid boolean for '' @ raw_key))
      | Some b \<Rightarrow> Inr (upd b))"

definition set_port :: "nat \<Rightarrow> string \<Rightarrow> string \<Rightarrow> (int \<Rightarrow> mochad_config) \<Rightarrow> string + mochad_config" where
  "set_port n raw_key value upd =
     (case parse_port n raw_key value of Inl e \<Rightarrow> Inl e | Inr p \<Rightarrow> Inr (upd p))"

definition apply_key_value :: "nat \<Rightarrow> string \<Rightarrow> string \<Rightarrow> mochad_config \<Rightarrow> string + mochad_config" where
  "apply_key_value n raw_key raw_value c =
     (if length raw_key \<ge> 64 then Inl (snprintf_text n (''configuration key too long: '' @ raw_key))
      else if length raw_value \<ge> 256 then
        Inl (snprintf_text n (''configuration value too long for key: '' @ raw_key))
      else
        let key = normalize_key raw_key; value = strip_optional_quotes raw_value
        in if key = ''bind'' \<or> key = ''bind_address'' then
             (case copy_string n MOCHAD_CONFIG_BIND_ADDRESS_LEN value of
                Inl e \<Rightarrow> Inl e
              | Inr v \<Rightarrow> Inr (c\<lparr>bind_address := v\<rparr>))
           else if key = ''port'' \<or> key = ''server_port'' \<or> key = ''main_port'' then
             set_port n raw_key value (\<lambda>p. c\<lparr>server_port := p\<rparr>)
           else if key = ''xml_port'' then set_port n raw_key value (\<lambda>p. c\<lparr>xml_port := p\<rparr>)
           else if key = ''openremote_port'' then set_port n raw_key value (\<lambda>p. c\<lparr>openremote_port := p\<rparr>)
           else if key = ''xml_enabled'' \<or> key = ''enable_xml'' then
             set_bool n raw_key value (\<lambda>b. c\<lparr>xml_enabled := b\<rparr>)
           else if key = ''openremote_enabled'' \<or> key = ''enable_openremote'' then
             set_bool n raw_key value (\<lambda>b. c\<lparr>openremote_enabled := b\<rparr>)
           else if key = ''foreground'' then set_bool n raw_key value (\<lambda>b. c\<lparr>foreground := b\<rparr>)
           else if key = ''raw_data'' then set_bool n raw_key value (\<lambda>b. c\<lparr>cfg_raw_data := b\<rparr>)
           else if key = ''dual_stack'' then
             (case parse_dual_stack value of
                None \<Rightarrow> Inl (snprintf_text n (''dual_stack must be auto, enable, or disable: '' @ value))
              | Some p \<Rightarrow> Inr (c\<lparr>dual_stack := p\<rparr>))
           else if key = ''log_level'' then
             (case parse_log_level value of
                None \<Rightarrow> Inl (snprintf_text n (''invalid log_level: '' @ value))
              | Some l \<Rightarrow> Inr (c\<lparr>log_level := l\<rparr>))
           else Inl (snprintf_text n (''unknown configuration key: '' @ raw_key)))"

section \<open>Configuration files\<close>

text \<open>\<open>fgets(line, k + 1, file)\<close>: the chunk and the rest of the file.\<close>

fun fgets :: "nat \<Rightarrow> string \<Rightarrow> string \<times> string" where
  "fgets 0 s = ([], s)"
| "fgets (Suc k) [] = ([], [])"
| "fgets (Suc k) (c # s) =
     (if c = chr_nl then ([c], s) else (case fgets k s of (l, r) \<Rightarrow> (c # l, r)))"

lemma fgets_append: "fgets k s = (l, r) \<Longrightarrow> s = l @ r"
  by (induction k s arbitrary: l r rule: fgets.induct) (auto split: if_splits prod.splits)

lemma fgets_progress: "fgets (Suc k) (c # s) = (l, r) \<Longrightarrow> l \<noteq> []"
  by (auto split: if_splits prod.splits)

text \<open>The text before and after the first \<open>=\<close>.\<close>

fun split_equals :: "string \<Rightarrow> (string \<times> string) option" where
  "split_equals [] = None"
| "split_equals (c # s) =
     (if c = CHR ''='' then Some ([], s)
      else map_option (\<lambda>(k, v). (c # k, v)) (split_equals s))"

definition config_line :: "nat \<Rightarrow> nat \<Rightarrow> string \<Rightarrow> mochad_config \<Rightarrow> string + mochad_config" where
  "config_line n line_number buf c =
     (let line = takeWhile (\<lambda>ch. ch \<noteq> CHR 0x00) buf;
          key = trim (takeWhile (\<lambda>ch. ch \<noteq> CHR ''#'') line)
      in if key = [] then Inr c
         else case split_equals key of
           None \<Rightarrow> Inl (snprintf_text n
             (''invalid config file line '' @ fmt_u line_number @ '': expected key=value''))
         | Some (k, v) \<Rightarrow>
             (case apply_key_value n (trim k) (trim v) c of
                Inl e \<Rightarrow> Inl (snprintf_text n (snprintf_text 256
                  (''invalid config file line '' @ fmt_u line_number @ '': '' @ e)))
              | Inr c' \<Rightarrow> Inr c'))"

function config_lines :: "nat \<Rightarrow> nat \<Rightarrow> string \<Rightarrow> mochad_config \<Rightarrow> string + mochad_config" where
  "config_lines n line_number content c =
     (if content = [] then Inr c
      else case fgets 511 content of
        (buf, rest) \<Rightarrow>
          (case config_line n (line_number + 1) buf c of
             Inl e \<Rightarrow> Inl e
           | Inr c' \<Rightarrow> config_lines n (line_number + 1) rest c'))"
  by pat_completeness auto
termination
proof (relation "measure (\<lambda>(n, l, content, c). length content)", goal_cases)
  case 1
  show ?case by simp
next
  case (2 n line_number content c buf rest c')
  then obtain d s where "content = d # s" "fgets (Suc 510) (d # s) = (buf, rest)"
    by (cases content) (auto simp: eval_nat_numeral)
  then have "content = buf @ rest" "buf \<noteq> []"
    using fgets_append fgets_progress by metis+
  then show ?case by simp
qed

declare config_lines.simps [simp del]

text \<open>
  The file system: the error text of \<open>fopen\<close>, or the content read until its end or until
  a read error, and whether there was one.
\<close>

definition load_config_file ::
  "nat \<Rightarrow> (string \<Rightarrow> string + string \<times> bool) \<Rightarrow> string \<Rightarrow> mochad_config \<Rightarrow> string + mochad_config" where
  "load_config_file n files path c =
     (if path = [] then Inr c
      else case files path of
        Inl err \<Rightarrow> Inl (snprintf_text n (''could not open config file '' @ path @ '': '' @ err))
      | Inr (content, read_error) \<Rightarrow>
          (case config_lines n 0 content c of
             Inl e \<Rightarrow> Inl e
           | Inr c' \<Rightarrow>
               if read_error then Inl (snprintf_text n (''error reading config file '' @ path))
               else Inr c'))"

section \<open>Environment\<close>

definition apply_env_value ::
  "nat \<Rightarrow> (string \<Rightarrow> string option) \<Rightarrow> string \<times> string \<Rightarrow> string + mochad_config \<Rightarrow> string + mochad_config" where
  "apply_env_value n getenv nk r =
     (case r of
        Inl e \<Rightarrow> Inl e
      | Inr c \<Rightarrow>
          (case nk of (env_name, key) \<Rightarrow>
             (case getenv env_name of
                None \<Rightarrow> Inr c
              | Some value \<Rightarrow>
                  if value = [] then Inr c
                  else (case apply_key_value n key value c of
                          Inl e \<Rightarrow> Inl (snprintf_text n (snprintf_text 256 (''invalid '' @ env_name @ '': '' @ e)))
                        | Inr c' \<Rightarrow> Inr c'))))"

definition env_keys :: "(string \<times> string) list" where
  "env_keys =
    [(''MOCHAD_BIND'', ''bind''), (''MOCHAD_BIND_ADDRESS'', ''bind''), (''MOCHAD_PORT'', ''port''),
     (''MOCHAD_SERVER_PORT'', ''port''), (''MOCHAD_XML_ENABLED'', ''xml_enabled''),
     (''MOCHAD_XML_PORT'', ''xml_port''), (''MOCHAD_OPENREMOTE_ENABLED'', ''openremote_enabled''),
     (''MOCHAD_OPENREMOTE_PORT'', ''openremote_port''), (''MOCHAD_FOREGROUND'', ''foreground''),
     (''MOCHAD_RAW_DATA'', ''raw_data''), (''MOCHAD_DUAL_STACK'', ''dual_stack''),
     (''MOCHAD_LOG_LEVEL'', ''log_level'')]"

definition apply_environment ::
  "nat \<Rightarrow> (string \<Rightarrow> string option) \<Rightarrow> mochad_config \<Rightarrow> string + mochad_config" where
  "apply_environment n getenv c = fold (apply_env_value n getenv) env_keys (Inr c)"

section \<open>Command line\<close>

definition requires_argument :: "nat \<Rightarrow> string \<Rightarrow> string" where
  "requires_argument n arg = snprintf_text n (arg @ '' requires an argument'')"

text \<open>The loop over the arguments after the program name.\<close>

fun find_config_from :: "nat \<Rightarrow> string list \<Rightarrow> string \<Rightarrow> string + string" where
  "find_config_from n [] path = Inr path"
| "find_config_from n (a # as) path =
     (if a = ''--config'' then
        (case as of
           [] \<Rightarrow> Inl (requires_argument n a)
         | v # as' \<Rightarrow>
             (case copy_string n MOCHAD_CONFIG_PATH_LEN v of
                Inl e \<Rightarrow> Inl e
              | Inr p \<Rightarrow> find_config_from n as' p))
      else find_config_from n as path)"

definition find_config_file_arg ::
  "nat \<Rightarrow> (string \<Rightarrow> string option) \<Rightarrow> string list \<Rightarrow> string + string" where
  "find_config_file_arg n getenv args =
     (case getenv ''MOCHAD_CONFIG'' of
        None \<Rightarrow> find_config_from n args []
      | Some env_path \<Rightarrow>
          if env_path = [] then find_config_from n args []
          else (case copy_string n MOCHAD_CONFIG_PATH_LEN env_path of
                  Inl e \<Rightarrow> Inl e
                | Inr p \<Rightarrow> find_config_from n args p))"

text \<open>The options without an argument, and the keys of the options with one.\<close>

definition cli_flags :: "(string \<times> (mochad_config \<Rightarrow> mochad_config)) list" where
  "cli_flags =
    [(''-d'', \<lambda>c. c\<lparr>foreground := True\<rparr>),
     (''--foreground'', \<lambda>c. c\<lparr>foreground := True\<rparr>),
     (''--background'', \<lambda>c. c\<lparr>foreground := False\<rparr>),
     (''--raw-data'', \<lambda>c. c\<lparr>cfg_raw_data := True\<rparr>),
     (''--no-raw-data'', \<lambda>c. c\<lparr>cfg_raw_data := False\<rparr>),
     (''--enable-xml'', \<lambda>c. c\<lparr>xml_enabled := True\<rparr>),
     (''--disable-xml'', \<lambda>c. c\<lparr>xml_enabled := False\<rparr>),
     (''--enable-openremote'', \<lambda>c. c\<lparr>openremote_enabled := True\<rparr>),
     (''--disable-openremote'', \<lambda>c. c\<lparr>openremote_enabled := False\<rparr>),
     (''--check-config'', \<lambda>c. c\<lparr>check_config := True\<rparr>),
     (''--print-config'', \<lambda>c. c\<lparr>print_config := True\<rparr>),
     (''--version'', \<lambda>c. c\<lparr>show_version := True\<rparr>),
     (''-h'', \<lambda>c. c\<lparr>show_help := True\<rparr>),
     (''--help'', \<lambda>c. c\<lparr>show_help := True\<rparr>)]"

definition cli_keys :: "(string \<times> string) list" where
  "cli_keys =
    [(''--bind'', ''bind''), (''--port'', ''port''), (''--xml-port'', ''xml_port''),
     (''--openremote-port'', ''openremote_port''), (''--dual-stack'', ''dual_stack''),
     (''--log-level'', ''log_level'')]"

fun apply_cli :: "nat \<Rightarrow> string list \<Rightarrow> mochad_config \<Rightarrow> string + mochad_config" where
  "apply_cli n [] c = Inr c"
| "apply_cli n (a # as) c =
     (if a = ''--config'' then
        (case as of [] \<Rightarrow> Inl (requires_argument n a) | v # as' \<Rightarrow> apply_cli n as' c)
      else case map_of cli_flags a of
        Some f \<Rightarrow> apply_cli n as (f c)
      | None \<Rightarrow>
          (case map_of cli_keys a of
             Some key \<Rightarrow>
               (case as of
                  [] \<Rightarrow> Inl (requires_argument n a)
                | v # as' \<Rightarrow>
                    (case apply_key_value n key v c of
                       Inl e \<Rightarrow> Inl e
                     | Inr c' \<Rightarrow> apply_cli n as' c'))
           | None \<Rightarrow> Inl (snprintf_text n (''unknown option '' @ a))))"

section \<open>Loading and validation\<close>

definition mochad_config_defaults :: mochad_config where
  "mochad_config_defaults =
     \<lparr>bind_address = ''0.0.0.0'', server_port = 1099, xml_port = 1100, openremote_port = 1101,
      xml_enabled = True, openremote_enabled = True, foreground = False, cfg_raw_data = False,
      dual_stack = MOCHAD_DUAL_STACK_AUTO, log_level = LOG_DEBUG, check_config = False,
      print_config = False, show_help = False, show_version = False, config_file = []\<rparr>"

text \<open>\<open>numeric_host a p\<close>: \<open>getaddrinfo\<close> accepts address and port as numeric.\<close>

definition mochad_config_validate ::
  "nat \<Rightarrow> (string \<Rightarrow> string \<Rightarrow> bool) \<Rightarrow> mochad_config \<Rightarrow> string + mochad_config" where
  "mochad_config_validate n numeric_host c =
     (if bind_address c = [] then Inl (snprintf_text n ''bind address cannot be empty'')
      else if \<not> numeric_host (bind_address c) (snprintf_text 16 (fmt_d (server_port c))) then
        Inl (snprintf_text n (''bind address must be a numeric IPv4 or IPv6 address: '' @ bind_address c))
      else if (xml_enabled c \<and> server_port c = xml_port c) \<or>
              (openremote_enabled c \<and> server_port c = openremote_port c) \<or>
              (xml_enabled c \<and> openremote_enabled c \<and> xml_port c = openremote_port c) then
        Inl (snprintf_text n ''enabled listener ports must be distinct'')
      else if log_level c < LOG_EMERG \<or> log_level c > LOG_DEBUG then
        Inl (snprintf_text n ''log_level is out of syslog range'')
      else Inr c)"

text \<open>The first part of \<open>mochad_config_load\<close>: the defaults and the file.\<close>

definition config_base ::
  "nat \<Rightarrow> (string \<Rightarrow> string + string \<times> bool) \<Rightarrow> string \<Rightarrow> string + mochad_config" where
  "config_base n files path =
     (if path = [] then Inr mochad_config_defaults
      else case copy_string n MOCHAD_CONFIG_PATH_LEN path of
             Inl e \<Rightarrow> Inl e
           | Inr p \<Rightarrow> load_config_file n files path (mochad_config_defaults\<lparr>config_file := p\<rparr>))"

definition mochad_config_load ::
  "nat \<Rightarrow> (string \<Rightarrow> string \<Rightarrow> bool) \<Rightarrow> (string \<Rightarrow> string + string \<times> bool) \<Rightarrow> (string \<Rightarrow> string option)
   \<Rightarrow> string list \<Rightarrow> string + mochad_config" where
  "mochad_config_load n numeric_host files getenv args =
     (case find_config_file_arg n getenv args of
        Inl e \<Rightarrow> Inl e
      | Inr path \<Rightarrow>
          (case config_base n files path of
             Inl e \<Rightarrow> Inl e
           | Inr c \<Rightarrow>
               (case apply_environment n getenv c of
                  Inl e \<Rightarrow> Inl e
                | Inr c \<Rightarrow>
                    (case apply_cli n args c of
                       Inl e \<Rightarrow> Inl e
                     | Inr c \<Rightarrow> mochad_config_validate n numeric_host c))))"

section \<open>Printing\<close>

fun mochad_config_dual_stack_name :: "dual_stack_policy \<Rightarrow> string" where
  "mochad_config_dual_stack_name MOCHAD_DUAL_STACK_AUTO = ''auto''"
| "mochad_config_dual_stack_name MOCHAD_DUAL_STACK_ENABLE = ''enable''"
| "mochad_config_dual_stack_name MOCHAD_DUAL_STACK_DISABLE = ''disable''"

definition mochad_config_log_level_name :: "int \<Rightarrow> string" where
  "mochad_config_log_level_name level =
     (if level = LOG_EMERG then ''emergency'' else if level = LOG_ALERT then ''alert''
      else if level = LOG_CRIT then ''critical'' else if level = LOG_ERR then ''error''
      else if level = LOG_WARNING then ''warning'' else if level = LOG_NOTICE then ''notice''
      else if level = LOG_INFO then ''info'' else if level = LOG_DEBUG then ''debug''
      else ''unknown'')"

definition config_json_text :: "mochad_config \<Rightarrow> string" where
  "config_json_text c =
     ''{\"ok\":true,\"bind_address\":\"'' @ bind_address c @ ''\",''
     @ ''\"foreground\":'' @ json_bool (foreground c) @ '',\"raw_data\":'' @ json_bool (cfg_raw_data c) @ '',''
     @ ''\"dual_stack\":\"'' @ mochad_config_dual_stack_name (dual_stack c)
     @ ''\",\"log_level\":\"'' @ mochad_config_log_level_name (log_level c) @ ''\",''
     @ ''\"listeners\":{\"main\":{\"enabled\":true,\"port\":'' @ fmt_d (server_port c) @ ''},''
     @ ''\"xml\":{\"enabled\":'' @ json_bool (xml_enabled c) @ '',\"port\":'' @ fmt_d (xml_port c) @ ''},''
     @ ''\"openremote\":{\"enabled\":'' @ json_bool (openremote_enabled c) @ '',\"port\":''
     @ fmt_d (openremote_port c) @ ''}}}''"

definition mochad_config_snprint_json :: "nat \<Rightarrow> mochad_config \<Rightarrow> string option" where
  "mochad_config_snprint_json buffer_len c =
     (if length (config_json_text c) \<ge> buffer_len then None else Some (config_json_text c))"

definition mochad_config_print :: "mochad_config \<Rightarrow> string" where
  "mochad_config_print c =
     (case mochad_config_snprint_json 1024 c of
        None \<Rightarrow> ''{\"ok\":false,\"error\":\"config output too large\"}'' @ nl
      | Some s \<Rightarrow> s @ nl)"

section \<open>What a loaded configuration satisfies\<close>

definition config_ok :: "mochad_config \<Rightarrow> bool" where
  "config_ok c \<longleftrightarrow>
     bind_address c \<noteq> [] \<and> length (bind_address c) < MOCHAD_CONFIG_BIND_ADDRESS_LEN \<and>
     1 \<le> server_port c \<and> server_port c \<le> 65535 \<and> 1 \<le> xml_port c \<and> xml_port c \<le> 65535 \<and>
     1 \<le> openremote_port c \<and> openremote_port c \<le> 65535 \<and>
     LOG_EMERG \<le> log_level c \<and> log_level c \<le> LOG_DEBUG \<and>
     length (config_file c) < MOCHAD_CONFIG_PATH_LEN"

lemma parse_port_range: "parse_port n k v = Inr p \<Longrightarrow> 1 \<le> p \<and> p \<le> 65535"
  by (auto simp: parse_port_def Let_def split: if_splits)

lemma log_level_words_range: "map_of log_level_words w = Some l \<Longrightarrow> LOG_EMERG \<le> l \<and> l \<le> LOG_DEBUG"
  by (drule map_of_SomeD) (auto simp: log_level_words_def log_defs)

lemma parse_log_level_range: "parse_log_level v = Some l \<Longrightarrow> LOG_EMERG \<le> l \<and> l \<le> LOG_DEBUG"
  by (auto simp: parse_log_level_def Let_def split: if_splits dest: log_level_words_range)

lemma copy_string_Inr: "copy_string n m v = Inr w \<longleftrightarrow> w = v \<and> v \<noteq> [] \<and> length v < m"
  by (auto simp: copy_string_def)

lemma set_port_Inr:
  "set_port n k v upd = Inr c \<Longrightarrow> \<exists>p. c = upd p \<and> parse_port n k v = Inr p \<and> 1 \<le> p \<and> p \<le> 65535"
  by (auto simp: set_port_def split: sum.splits dest: parse_port_range)

lemma set_bool_Inr: "set_bool n k v upd = Inr c \<Longrightarrow> \<exists>b. c = upd b"
  by (auto simp: set_bool_def split: option.splits)

lemma apply_key_value_ok:
  assumes "apply_key_value n k v c = Inr c'" "config_ok c"
  shows "config_ok c'"
proof -
  have k: "length k < 64" "length v < 256"
    using assms(1) by (auto simp: apply_key_value_def split: if_splits)
  show ?thesis
    using assms k
    by (auto simp: apply_key_value_def Let_def config_ok_def copy_string_Inr
        split: if_splits sum.splits option.splits
        dest!: set_port_Inr set_bool_Inr parse_log_level_range)
qed

lemma config_line_ok: "config_line n l buf c = Inr c' \<Longrightarrow> config_ok c \<Longrightarrow> config_ok c'"
  by (auto simp: config_line_def Let_def split: if_splits option.splits sum.splits dest: apply_key_value_ok)

lemma config_lines_ok: "config_lines n l content c = Inr c' \<Longrightarrow> config_ok c \<Longrightarrow> config_ok c'"
proof (induction n l content c rule: config_lines.induct)
  case (1 n l content c)
  show ?case
  proof (cases "content = []")
    case True
    with "1.prems" show ?thesis by (simp add: config_lines.simps)
  next
    case False
    obtain buf rest where f: "fgets 511 content = (buf, rest)" by fastforce
    with "1.prems" False obtain c1 where c1: "config_line n (l + 1) buf c = Inr c1"
      "config_lines n (l + 1) rest c1 = Inr c'"
      by (subst (asm) config_lines.simps) (auto split: sum.splits)
    show ?thesis
      using "1.IH" [OF False f [symmetric] c1 config_line_ok [OF c1(1) "1.prems"(2)]] .
  qed
qed

lemma load_config_file_ok: "load_config_file n files path c = Inr c' \<Longrightarrow> config_ok c \<Longrightarrow> config_ok c'"
  by (auto simp: load_config_file_def split: if_splits sum.splits dest: config_lines_ok)

lemma fold_env_Inl: "fold (apply_env_value n g) ks (Inl e) = Inl e"
  by (induction ks) (auto simp: apply_env_value_def)

lemma env_value_ok: "apply_env_value n g nk (Inr c) = Inr c' \<Longrightarrow> config_ok c \<Longrightarrow> config_ok c'"
  by (auto simp: apply_env_value_def split: prod.splits option.splits if_splits sum.splits dest: apply_key_value_ok)

lemma fold_env_ok: "fold (apply_env_value n g) ks (Inr c) = Inr c' \<Longrightarrow> config_ok c \<Longrightarrow> config_ok c'"
proof (induction ks arbitrary: c)
  case (Cons k ks)
  show ?case
  proof (cases "apply_env_value n g k (Inr c)")
    case (Inl e)
    with Cons.prems show ?thesis by (simp add: fold_env_Inl)
  next
    case (Inr c1)
    with Cons env_value_ok [OF Inr] show ?thesis by simp
  qed
qed simp

lemma cli_flag_Some:
  "map_of cli_flags a = Some f \<Longrightarrow> \<forall>c. bind_address (f c) = bind_address c \<and> server_port (f c) = server_port c \<and>
     xml_port (f c) = xml_port c \<and> openremote_port (f c) = openremote_port c \<and>
     log_level (f c) = log_level c \<and> config_file (f c) = config_file c"
  by (drule map_of_SomeD) (auto simp: cli_flags_def)

lemma cli_flag_ok: "map_of cli_flags a = Some f \<Longrightarrow> config_ok c \<Longrightarrow> config_ok (f c)"
  by (drule cli_flag_Some) (simp add: config_ok_def)

lemma apply_cli_Cons:
  assumes "apply_cli n (a # as) c = Inr c'"
  obtains v as' where "as = v # as'" "apply_cli n as' c = Inr c'" "a = ''--config''"
    | f where "map_of cli_flags a = Some f" "apply_cli n as (f c) = Inr c'"
    | k v as' c1 where "map_of cli_keys a = Some k" "as = v # as'" "apply_key_value n k v c = Inr c1"
        "apply_cli n as' c1 = Inr c'"
proof (cases "a = ''--config''")
  case True
  then show ?thesis using assms that(1) by (cases as) simp_all
next
  case False
  show ?thesis
  proof (cases "map_of cli_flags a")
    case (Some f)
    then show ?thesis using assms False that(2) by simp
  next
    case None
    then obtain k where "map_of cli_keys a = Some k"
      using assms False by (cases "map_of cli_keys a") simp_all
    then show ?thesis
      using assms False None that(3) by (cases as) (simp_all split: sum.split_asm)
  qed
qed

lemma apply_cli_ok: "apply_cli n as c = Inr c' \<Longrightarrow> config_ok c \<Longrightarrow> config_ok c'"
proof (induction as arbitrary: c rule: length_induct)
  case (1 as)
  show ?case
  proof (cases as)
    case Nil
    with 1 show ?thesis by simp
  next
    case (Cons a bs)
    from 1(2) [unfolded Cons] show ?thesis
    proof (cases rule: apply_cli_Cons)
      case (1 v as')
      then have "length as' < length as" using Cons by simp
      with "1.IH" 1(2) "1.prems"(2) show ?thesis by blast
    next
      case (2 f)
      then have "length bs < length as" using Cons by simp
      with "1.IH" 2(2) cli_flag_ok [OF 2(1) "1.prems"(2)] show ?thesis by blast
    next
      case (3 k v as' c1)
      then have "length as' < length as" using Cons by simp
      with "1.IH" 3(4) apply_key_value_ok [OF 3(3) "1.prems"(2)] show ?thesis by blast
    qed
  qed
qed

lemma find_config_from_len:
  "find_config_from n as p = Inr q \<Longrightarrow> length p < MOCHAD_CONFIG_PATH_LEN \<Longrightarrow> length q < MOCHAD_CONFIG_PATH_LEN"
proof (induction as arbitrary: p rule: length_induct)
  case (1 as)
  show ?case
  proof (cases as)
    case Nil
    with 1 show ?thesis by simp
  next
    case (Cons a bs)
    show ?thesis
    proof (cases "a = ''--config''")
      case True
      then obtain v as' where "bs = v # as'" "copy_string n MOCHAD_CONFIG_PATH_LEN v = Inr v"
          "find_config_from n as' v = Inr q" "length v < MOCHAD_CONFIG_PATH_LEN"
        using "1.prems"(1) Cons by (cases bs) (simp_all add: copy_string_def split: if_split_asm)
      moreover from this have "length as' < length as" using Cons by simp
      ultimately show ?thesis using "1.IH" by blast
    next
      case False
      then have "find_config_from n bs p = Inr q" using "1.prems"(1) Cons by simp
      moreover have "length bs < length as" using Cons by simp
      ultimately show ?thesis using "1.IH" "1.prems"(2) by blast
    qed
  qed
qed

lemma config_ok_defaults: "config_ok mochad_config_defaults"
  by (simp add: config_ok_def mochad_config_defaults_def log_defs
      MOCHAD_CONFIG_BIND_ADDRESS_LEN_def MOCHAD_CONFIG_PATH_LEN_def)

text \<open>The configuration after the defaults and the file, and the steps of a successful load.\<close>

lemma load_steps:
  assumes "mochad_config_load n nh files getenv args = Inr c"
  obtains c1 c2 c3 where "config_ok c1" "apply_environment n getenv c1 = Inr c2"
    "apply_cli n args c2 = Inr c3" "mochad_config_validate n nh c3 = Inr c"
proof -
  obtain path where p: "find_config_file_arg n getenv args = Inr path"
    using assms by (auto simp: mochad_config_load_def split: sum.splits)
  obtain c1 where c1: "config_base n files path = Inr c1"
    using assms p by (cases "config_base n files path") (simp_all add: mochad_config_load_def)
  have d: "config_ok (mochad_config_defaults\<lparr>config_file := q\<rparr>)" if "length q < MOCHAD_CONFIG_PATH_LEN" for q
    using config_ok_defaults that by (simp add: config_ok_def)
  have ok: "config_ok c1"
    using c1 d unfolding config_base_def
    by (auto split: if_splits sum.splits simp: copy_string_Inr config_ok_defaults intro: load_config_file_ok)
  obtain c2 where c2: "apply_environment n getenv c1 = Inr c2"
    using assms p c1 by (cases "apply_environment n getenv c1") (simp_all add: mochad_config_load_def)
  obtain c3 where c3: "apply_cli n args c2 = Inr c3" "mochad_config_validate n nh c3 = Inr c"
    using assms p c1 c2 by (cases "apply_cli n args c2") (simp_all add: mochad_config_load_def)
  from that [OF ok c2 c3] show ?thesis .
qed

lemma validate_Inr:
  "mochad_config_validate n nh c = Inr c' \<Longrightarrow>
     c' = c \<and> nh (bind_address c) (snprintf_text 16 (fmt_d (server_port c))) \<and>
     (xml_enabled c \<longrightarrow> server_port c \<noteq> xml_port c) \<and>
     (openremote_enabled c \<longrightarrow> server_port c \<noteq> openremote_port c) \<and>
     (xml_enabled c \<and> openremote_enabled c \<longrightarrow> xml_port c \<noteq> openremote_port c)"
  by (auto simp: mochad_config_validate_def split: if_splits)


lemma length_fmt_d_port: "1 \<le> p \<Longrightarrow> p \<le> 65535 \<Longrightarrow> length (fmt_d p) \<le> 5"
  using length_num_str_le [of "nat p" 10 4] by (simp add: fmt_d_def)

lemma log_level_name_length: "length (mochad_config_log_level_name l) \<le> 9"
  by (simp add: mochad_config_log_level_name_def)

lemma dual_stack_name_length: "length (mochad_config_dual_stack_name d) \<le> 7"
  by (cases d) simp_all

lemma json_bool_length: "length (json_bool b) \<le> 5"
  by (simp add: json_bool_def)

lemma config_json_length: "config_ok c \<Longrightarrow> length (config_json_text c) < 400"
proof -
  assume ok: "config_ok c"
  then have p: "length (fmt_d (server_port c)) \<le> 5" "length (fmt_d (xml_port c)) \<le> 5"
    "length (fmt_d (openremote_port c)) \<le> 5" and b: "length (bind_address c) < 128"
    by (simp_all add: config_ok_def length_fmt_d_port MOCHAD_CONFIG_BIND_ADDRESS_LEN_def)
  show ?thesis
    using p b log_level_name_length [of "log_level c"] dual_stack_name_length [of "dual_stack c"]
      json_bool_length [of "foreground c"] json_bool_length [of "cfg_raw_data c"]
      json_bool_length [of "xml_enabled c"] json_bool_length [of "openremote_enabled c"]
    by (simp add: config_json_text_def)
qed

section \<open>Properties\<close>

text \<open>
  C22: Whatever the file, the environment and the command line say, a configuration that loads
  has a numeric, non-empty bind address that fits its buffer, TCP ports from 1 to 65535 with no
  two enabled listeners on the same one, and a syslog level; and its JSON fits the buffer.
\<close>

theorem config_load_valid:
  assumes "mochad_config_load n numeric_host files getenv args = Inr c"
  shows "config_ok c \<and> numeric_host (bind_address c) (snprintf_text 16 (fmt_d (server_port c))) \<and>
    (xml_enabled c \<longrightarrow> server_port c \<noteq> xml_port c) \<and>
    (openremote_enabled c \<longrightarrow> server_port c \<noteq> openremote_port c) \<and>
    (xml_enabled c \<and> openremote_enabled c \<longrightarrow> xml_port c \<noteq> openremote_port c) \<and>
    mochad_config_snprint_json 1024 c = Some (config_json_text c)"
proof -
  obtain c1 c2 c3 where s: "config_ok c1" "apply_environment n getenv c1 = Inr c2"
    "apply_cli n args c2 = Inr c3" "mochad_config_validate n numeric_host c3 = Inr c"
    using load_steps [OF assms] .
  have "config_ok c2" using s(2,1) unfolding apply_environment_def by (rule fold_env_ok)
  then have ok: "config_ok c3" by (rule apply_cli_ok [OF s(3)])
  then have "mochad_config_snprint_json 1024 c3 = Some (config_json_text c3)"
    using config_json_length [of c3] by (simp add: mochad_config_snprint_json_def)
  with ok validate_Inr [OF s(4)] show ?thesis by simp
qed

lemma apply_port:
  assumes "length v < 256" "strip_optional_quotes v = v"
  shows "apply_key_value n ''port'' v c = set_port n ''port'' v (\<lambda>p. c\<lparr>server_port := p\<rparr>)"
  using assms
  by (simp add: apply_key_value_def normalize_key_def dash_to_underscore_def tolower_def isupper_def ord_def Let_def)

lemma strip_digits: "\<forall>c \<in> set v. isdigit c \<Longrightarrow> strip_optional_quotes v = v"
proof (cases v)
  case (Cons d ds)
  assume "\<forall>c \<in> set v. isdigit c"
  with Cons isdigit_plain have "d \<noteq> CHR 0x22 \<and> d \<noteq> CHR 0x27" by auto
  with Cons show ?thesis by (simp add: strip_optional_quotes_def)
qed (simp add: strip_optional_quotes_def)

definition no_files :: "string \<Rightarrow> string + string \<times> bool" where
  "no_files path = Inl ''No such file or directory''"

definition one_env :: "string \<Rightarrow> string option" where
  "one_env name = (if name = ''MOCHAD_PORT'' then Some ''2000'' else None)"

lemma one_env_load:
  "\<exists>c. mochad_config_load 256 (\<lambda>_ _. True) no_files one_env [''--port'', ''1234''] = Inr c"
proof -
  have e: "apply_environment 256 one_env mochad_config_defaults = Inr (mochad_config_defaults\<lparr>server_port := 2000\<rparr>)"
    by (simp add: apply_environment_def env_keys_def apply_env_value_def one_env_def apply_port
        strip_optional_quotes_def set_port_def parse_port_def strtol10_digits isdigit_def ord_def
        digits_val_def digit_val_def LONG_MAX_def)
  have k: "map_of cli_flags ''--port'' = None" "map_of cli_keys ''--port'' = Some ''port''"
    by (simp_all add: cli_flags_def cli_keys_def)
  have cli: "apply_cli 256 [''--port'', ''1234''] (mochad_config_defaults\<lparr>server_port := 2000\<rparr>) =
      Inr (mochad_config_defaults\<lparr>server_port := 1234\<rparr>)"
    by (simp add: k apply_port strip_optional_quotes_def set_port_def parse_port_def strtol10_digits isdigit_def ord_def
        digits_val_def digit_val_def LONG_MAX_def)
  show ?thesis
    by (simp add: mochad_config_load_def find_config_file_arg_def one_env_def [of "''MOCHAD_CONFIG''"] config_base_def e cli
        del: apply_cli.simps)
      (simp add: mochad_config_validate_def mochad_config_defaults_def log_defs)
qed

theorem config_load_valid_witness:
  "\<exists>c. mochad_config_load 256 (\<lambda>_ _. True) no_files one_env [''--port'', ''1234''] = Inr c \<and> config_ok c"
  using one_env_load config_load_valid by blast

end
