(* ===== verification/Clients.thy ===== *)
theory Clients
  imports Client_Output Config
begin

text \<open>
  The client side of \<open>src/core/mochad.c\<close> and \<open>src/net/socket_io.c\<close>: the three tables of
  32 client slots (main, XML socket, OpenRemote), client ids, and the output functions that put
  text into client queues. The operating system is a parameter (\<open>env\<close>): the clock readings,
  the calendar, the results of \<open>send\<close> and whether a socket can be made non-blocking.
  \<open>fd_port\<close> is the kernel's view of the sockets, the local port of each open one, and
  \<open>sent\<close> records the bytes the kernel took per socket; the program reads neither but
  through \<open>getsockname\<close>.
\<close>

section \<open>State\<close>

datatype client_kind = Main_client | Xml_client | Or20_client

lemma UNIV_client_kind: "UNIV = {Main_client, Xml_client, Or20_client}"
  by (auto intro: client_kind.exhaust)

instance client_kind :: finite
  by standard (simp add: UNIV_client_kind)

record encode_state =
  remainder :: string
  discarding :: bool

record client_slot =
  c_fd :: int
  c_id :: "32 word"
  c_state :: encode_state
  c_out :: client_output_queue

record net =
  Clients :: "client_kind \<Rightarrow> nat \<Rightarrow> client_slot"
  NClients :: "client_kind \<Rightarrow> 64 word"
  NextClientId :: "32 word"
  fd_port :: "int \<Rightarrow> int option"
  sent :: "int \<Rightarrow> string"
  n_time :: nat
  n_send :: nat

record tm =
  tm_sec :: int
  tm_min :: int
  tm_hour :: int
  tm_mday :: int
  tm_mon :: int
  tm_wday :: int
  tm_yday :: int

datatype send_result = Sent nat | Send_eintr | Send_again | Send_error

text \<open>
  \<open>e_sends k\<close>: the results of the \<open>send\<close> calls of the \<open>k\<close>-th function that sends
  in a loop, in order; \<open>e_mono\<close>: milliseconds of the monotonic clock, by reading.
\<close>

record env =
  e_time :: "nat \<Rightarrow> int"
  e_mono :: "nat \<Rightarrow> 64 word"
  e_tm :: "int \<Rightarrow> tm"
  e_submit :: "nat \<Rightarrow> int"
  e_sends :: "nat \<Rightarrow> send_result list"
  e_nonblock :: "int \<Rightarrow> bool"
  e_config :: mochad_config
  e_start :: int

definition MAXCLISOCKETS :: nat where "MAXCLISOCKETS = 32"

definition cm15a_encode_state_init :: encode_state where
  "cm15a_encode_state_init = \<lparr>remainder = [], discarding = False\<rparr>"

definition read_time :: "env \<Rightarrow> net \<Rightarrow> int \<times> net" where
  "read_time env n = (e_time env (n_time n), n\<lparr>n_time := n_time n + 1\<rparr>)"

section \<open>The client tables\<close>

definition slot_order :: "(client_kind \<times> nat) list" where
  "slot_order = concat (map (\<lambda>i. [(Main_client, i), (Xml_client, i), (Or20_client, i)]) [0..<MAXCLISOCKETS])"

definition slot :: "net \<Rightarrow> client_kind \<times> nat \<Rightarrow> client_slot" where
  "slot n p = Clients n (fst p) (snd p)"

definition set_slot :: "client_kind \<times> nat \<Rightarrow> client_slot \<Rightarrow> net \<Rightarrow> net" where
  "set_slot p c n = n\<lparr>Clients := (Clients n)(fst p := (Clients n (fst p))(snd p := c))\<rparr>"

text \<open>
  The loops of \<open>client_encode_state\<close>, \<open>client_id_for_fd\<close>, \<open>client_output_for_fd\<close> and
  \<open>del_client\<close>: the first slot with the descriptor, the three tables interleaved.
\<close>

definition find_slot :: "int \<Rightarrow> net \<Rightarrow> (client_kind \<times> nat) option" where
  "find_slot fd n = List.find (\<lambda>p. c_fd (slot n p) = fd) slot_order"

definition client_encode_state :: "int \<Rightarrow> net \<Rightarrow> encode_state option" where
  "client_encode_state fd n = map_option (\<lambda>p. c_state (slot n p)) (find_slot fd n)"

definition client_id_for_fd :: "int \<Rightarrow> net \<Rightarrow> 32 word" where
  "client_id_for_fd fd n = (case find_slot fd n of None \<Rightarrow> 0 | Some p \<Rightarrow> c_id (slot n p))"

definition client_output_for_fd :: "int \<Rightarrow> net \<Rightarrow> client_output_queue option" where
  "client_output_for_fd fd n = map_option (\<lambda>p. c_out (slot n p)) (find_slot fd n)"

definition xmlclient :: "int \<Rightarrow> net \<Rightarrow> bool" where
  "xmlclient fd n = list_ex (\<lambda>i. fd = c_fd (Clients n Xml_client i)) [0..<MAXCLISOCKETS]"

definition init_slot :: "client_slot \<Rightarrow> client_slot" where
  "init_slot c = c\<lparr>c_fd := -1, c_id := 0, c_state := cm15a_encode_state_init, c_out := client_output_init (c_out c)\<rparr>"

definition init_client :: "net \<Rightarrow> net" where
  "init_client n =
     (fold (\<lambda>p n. set_slot p (init_slot (slot n p)) n) slot_order n)\<lparr>NClients := (\<lambda>_. 0)\<rparr>"

definition next_client_id :: "net \<Rightarrow> 32 word \<times> net" where
  "next_client_id n =
     (let i = (if NextClientId n = 0 then 1 else NextClientId n)
      in (i, n\<lparr>NextClientId := i + 1\<rparr>))"

text \<open>\<open>add_client\<close>, \<open>add_xmlclient\<close> and \<open>add_or20client\<close>, by table.\<close>

definition add_client :: "env \<Rightarrow> client_kind \<Rightarrow> int \<Rightarrow> net \<Rightarrow> int \<times> net" where
  "add_client env k fd n =
     (case List.find (\<lambda>i. c_fd (Clients n k i) = -1) [0..<MAXCLISOCKETS] of
        None \<Rightarrow> (-1, n)
      | Some i \<Rightarrow>
          if \<not> e_nonblock env fd then (-1, n)
          else let (cid, n) = next_client_id n;
                   c = (slot n (k, i))\<lparr>c_fd := fd, c_id := cid, c_state := cm15a_encode_state_init,
                       c_out := client_output_init (c_out (slot n (k, i)))\<rparr>
               in (0, (set_slot (k, i) c n)\<lparr>NClients := (NClients n)(k := NClients n k + 1)\<rparr>))"

definition del_client :: "int \<Rightarrow> net \<Rightarrow> int \<times> net" where
  "del_client fd n =
     (case find_slot fd n of
        None \<Rightarrow> (-1, n)
      | Some p \<Rightarrow>
          (0, (set_slot p (init_slot (slot n p)) n)
                \<lparr>NClients := (NClients n)(fst p := NClients n (fst p) - 1),
                 fd_port := (fd_port n)(fd := None)\<rparr>))"

text \<open>The local port of an open socket is what \<open>getsockname\<close> returns.\<close>

definition or20client :: "env \<Rightarrow> int \<Rightarrow> net \<Rightarrow> bool" where
  "or20client env fd n = (fd_port n fd = Some (openremote_port (e_config env)))"

section \<open>Output\<close>

definition took :: "int \<Rightarrow> string \<Rightarrow> net \<Rightarrow> net" where
  "took fd xs n = n\<lparr>sent := (sent n)(fd := sent n fd @ xs)\<rparr>"

text \<open>
  \<open>send_all_impl\<close> of socket_io.c, over the results of its \<open>send\<close> calls: \<open>None\<close> when
  the results run out while bytes remain. \<open>send\<close> takes at most what it is given.
\<close>

fun send_all_impl :: "send_result list \<Rightarrow> int \<Rightarrow> string \<Rightarrow> net \<Rightarrow> (bool \<times> net) option" where
  "send_all_impl rs fd [] n = Some (True, n)"
| "send_all_impl [] fd (c # cs) n = None"
| "send_all_impl (r # rs) fd (c # cs) n =
     (case r of
        Sent w \<Rightarrow>
          if w = 0 then Some (False, n)
          else send_all_impl rs fd (drop w (c # cs)) (took fd (take w (c # cs)) n)
      | Send_eintr \<Rightarrow> send_all_impl rs fd (c # cs) n
      | Send_again \<Rightarrow> Some (False, n)
      | Send_error \<Rightarrow> Some (False, n))"

definition send_all :: "env \<Rightarrow> int \<Rightarrow> string \<Rightarrow> net \<Rightarrow> int \<times> net" where
  "send_all env fd buffer n =
     (if int (length buffer) > INT_MAX then (-1, n)
      else case send_all_impl (e_sends env (n_send n)) fd buffer (n\<lparr>n_send := n_send n + 1\<rparr>) of
             None \<Rightarrow> (-1, n\<lparr>n_send := n_send n + 1\<rparr>)
           | Some (ok, n') \<Rightarrow> ((if ok then int (length buffer) else -1), n'))"

definition queue_client_bytes :: "env \<Rightarrow> int \<Rightarrow> string \<Rightarrow> net \<Rightarrow> int \<times> net" where
  "queue_client_bytes env fd buffer n =
     (if buffer = [] then (0, n)
      else case find_slot fd n of
        None \<Rightarrow> send_all env fd buffer n
      | Some p \<Rightarrow>
          (case client_output_enqueue buffer (c_out (slot n p)) of
             None \<Rightarrow> (-1, snd (del_client fd n))
           | Some q \<Rightarrow> (int (length buffer), set_slot p ((slot n p)\<lparr>c_out := q\<rparr>) n)))"

text \<open>\<open>format_bounded\<close>: the text as it is left in a buffer of \<open>m > 0\<close> bytes.\<close>

definition format_bounded :: "nat \<Rightarrow> string \<Rightarrow> string" where
  "format_bounded m txt = (if length txt \<ge> m then take (m - 1) txt else txt)"

definition statusprintf :: "env \<Rightarrow> int \<Rightarrow> string \<Rightarrow> net \<Rightarrow> int \<times> net" where
  "statusprintf env fd txt n = queue_client_bytes env fd (format_bounded 1024 txt) n"

text \<open>\<open>strftime\<close> with the format \<open>%m/%d %T \<close>; it returns 0 when the text does not fit.\<close>

definition strftime_stamp :: "nat \<Rightarrow> tm \<Rightarrow> string" where
  "strftime_stamp m t =
     (let s = fmt_02d (tm_mon t + 1) @ ''/'' @ fmt_02d (tm_mday t) @ '' '' @ fmt_02d (tm_hour t) @ '':''
              @ fmt_02d (tm_min t) @ '':'' @ fmt_02d (tm_sec t) @ '' ''
      in if length s < m then s else [])"

text \<open>The trailing newline becomes a NUL for XML socket clients.\<close>

definition xml_line :: "string \<Rightarrow> string" where
  "xml_line s = (if s \<noteq> [] \<and> last s = chr_nl then butlast s @ [chr_nul] else s)"

text \<open>The loops over the slots of one table.\<close>

definition send_table :: "env \<Rightarrow> client_kind \<Rightarrow> string \<Rightarrow> net \<Rightarrow> net" where
  "send_table env k line n =
     fold (\<lambda>i n. if c_fd (Clients n k i) > 0
                 then snd (queue_client_bytes env (c_fd (Clients n k i)) line n) else n)
       [0..<MAXCLISOCKETS] n"

definition sockprintf :: "env \<Rightarrow> int \<Rightarrow> string \<Rightarrow> net \<Rightarrow> int \<times> net" where
  "sockprintf env fd txt n =
     (let (now, n) = read_time env n;
          stamp = strftime_stamp 1024 (e_tm env now)
      in if stamp = [] then (-1, n)
         else
           let line = stamp @ format_bounded (1024 - length stamp) txt
           in if fd \<noteq> -1 then
                queue_client_bytes env fd (if xmlclient fd n then xml_line line else line) n
              else (int (length line), send_table env Xml_client (xml_line line) (send_table env Main_client line n)))"

section \<open>Flushing and polling\<close>

definition set_stalled :: "env \<Rightarrow> client_kind \<times> nat \<Rightarrow> net \<Rightarrow> net" where
  "set_stalled env p n =
     (if q_stalled_since (c_out (slot n p)) = 0 then
        let (now, n) = read_time env n
        in set_slot p ((slot n p)\<lparr>c_out := (c_out (slot n p))\<lparr>q_stalled_since := now\<rparr>\<rparr>) n
      else n)"

text \<open>
  \<open>flush_client_output\<close> on the queue of slot \<open>p\<close>: the result, what is left of the write
  budget and the state; \<open>None\<close> when the results of \<open>send\<close> run out.
\<close>

fun flush_client_output ::
  "env \<Rightarrow> send_result list \<Rightarrow> int \<Rightarrow> client_kind \<times> nat \<Rightarrow> nat \<Rightarrow> net \<Rightarrow> (int \<times> nat \<times> net) option" where
  "flush_client_output env rs fd p budget n =
     (let q = c_out (slot n p)
      in if q_len q = 0 \<or> budget = 0 then Some (0, budget, n)
         else case rs of
           [] \<Rightarrow> None
         | r # rs' \<Rightarrow>
             (case r of
                Send_eintr \<Rightarrow> flush_client_output env rs' fd p budget n
              | Send_again \<Rightarrow> Some (0, budget, set_stalled env p n)
              | Send_error \<Rightarrow> Some (-1, budget, snd (del_client fd n))
              | Sent w \<Rightarrow>
                  (let chunk = client_output_peek q;
                       wanted = min (length chunk) budget;
                       written = min w wanted
                   in if written = 0 then Some (0, budget, set_stalled env p n)
                      else flush_client_output env rs' fd p (budget - written)
                        (took fd (take written chunk)
                          (set_slot p ((slot n p)\<lparr>c_out :=
                             client_output_consume written (q\<lparr>q_stalled_since := 0\<rparr>)\<rparr>) n)))))"

declare flush_client_output.simps [simp del]

definition stalled :: "int \<Rightarrow> client_slot \<Rightarrow> bool" where
  "stalled now c \<longleftrightarrow>
     c_fd c \<noteq> -1 \<and> q_len (c_out c) > 0 \<and> q_stalled_since (c_out c) \<noteq> 0 \<and> now - q_stalled_since (c_out c) \<ge> 30"

definition disconnect_stalled_clients :: "int \<Rightarrow> net \<Rightarrow> net" where
  "disconnect_stalled_clients now n =
     fold (\<lambda>p n. if stalled now (slot n p) then snd (del_client (c_fd (slot n p)) n) else n) slot_order n"

text \<open>
  The poll records of the clients, as descriptor and whether it is polled for writing, and the
  returned count.
\<close>

definition copy_clients :: "net \<Rightarrow> (int \<times> bool) list \<times> 64 word" where
  "copy_clients n =
     (map (\<lambda>p. (c_fd (slot n p), q_len (c_out (slot n p)) > 0))
        (filter (\<lambda>p. c_fd (slot n p) \<noteq> -1) slot_order),
      NClients n Main_client + NClients n Xml_client + NClients n Or20_client)"

section \<open>Hex dumps to clients\<close>

definition hexdump_text :: "byte list \<Rightarrow> nat \<Rightarrow> nat \<Rightarrow> string" where
  "hexdump_text buf len outlen =
     (if outlen = 0 then []
      else concat (map (\<lambda>i. fmt_X 2 (unat (buf ! i)) @ '' '') [0..<min len ((outlen - 1) div 3)]))"

definition sockhexdump :: "env \<Rightarrow> int \<Rightarrow> byte list \<Rightarrow> nat \<Rightarrow> net \<Rightarrow> int \<times> net" where
  "sockhexdump env fd buf len n = sockprintf env fd (hexdump_text buf len 301 @ nl) n"

definition mh_sockhexdump :: "env \<Rightarrow> int \<Rightarrow> byte list \<Rightarrow> nat \<Rightarrow> net \<Rightarrow> int \<times> net" where
  "mh_sockhexdump env fd buf len n =
     sockprintf env fd (''Raw data received: '' @ hexdump_text buf len 301 @ nl) n"

section \<open>Slots\<close>

lemma MAXCLISOCKETS_pos [simp]: "0 < MAXCLISOCKETS"
  by (simp add: MAXCLISOCKETS_def)

definition Slots :: "(client_kind \<times> nat) set" where
  "Slots = {p. snd p < MAXCLISOCKETS}"

lemma mem_Slots [simp]: "(k, i) \<in> Slots \<longleftrightarrow> i < MAXCLISOCKETS"
  by (simp add: Slots_def)

lemma set_slot_order [simp]: "set slot_order = Slots"
proof (rule set_eqI)
  fix p :: "client_kind \<times> nat"
  obtain k i where p: "p = (k, i)" by (cases p)
  show "p \<in> set slot_order \<longleftrightarrow> p \<in> Slots"
    by (cases k) (auto simp: p slot_order_def)
qed

lemma distinct_slot_order: "distinct slot_order"
proof -
  have "distinct (concat (map (\<lambda>i. [(Main_client, i), (Xml_client, i), (Or20_client, i)]) [0..<m]))" for m
    by (induction m) auto
  then show ?thesis by (simp add: slot_order_def)
qed

lemma slot_set_slot [simp]: "slot (set_slot p c n) q = (if q = p then c else slot n q)"
  by (cases p; cases q) (auto simp: slot_def set_slot_def)

lemma set_slot_frame [simp]:
  "NClients (set_slot p c n) = NClients n" "NextClientId (set_slot p c n) = NextClientId n"
  "fd_port (set_slot p c n) = fd_port n" "sent (set_slot p c n) = sent n"
  "n_time (set_slot p c n) = n_time n" "n_send (set_slot p c n) = n_send n"
  by (simp_all add: set_slot_def)

lemma slot_frame [simp]:
  "slot (n\<lparr>NClients := a\<rparr>) = slot n" "slot (n\<lparr>NextClientId := b\<rparr>) = slot n"
  "slot (n\<lparr>fd_port := c\<rparr>) = slot n" "slot (n\<lparr>sent := d\<rparr>) = slot n"
  "slot (n\<lparr>n_time := e\<rparr>) = slot n" "slot (n\<lparr>n_send := e\<rparr>) = slot n"
  by (simp_all add: slot_def fun_eq_iff)

lemma find_slot_Some: "find_slot fd n = Some p \<Longrightarrow> p \<in> Slots \<and> c_fd (slot n p) = fd"
  by (auto simp: find_slot_def find_Some_iff) (metis nth_mem set_slot_order)

lemma find_slot_None: "find_slot fd n = None \<longleftrightarrow> (\<forall>p \<in> Slots. c_fd (slot n p) \<noteq> fd)"
  unfolding find_slot_def find_None_iff set_slot_order by blast

section \<open>Invariant of the tables\<close>

definition occupied :: "net \<Rightarrow> client_kind \<Rightarrow> nat set" where
  "occupied n k = {i. i < MAXCLISOCKETS \<and> c_fd (slot n (k, i)) \<noteq> -1}"

text \<open>
  No descriptor is in two slots, the counters count the occupied slots, a free slot has an empty
  queue and no id, an occupied slot has a nonzero id.
\<close>

definition slot_ok :: "client_slot \<Rightarrow> bool" where
  "slot_ok c \<longleftrightarrow> oq_inv (c_out c) \<and> (if c_fd c = -1 then q_len (c_out c) = 0 \<and> c_id c = 0
     else 0 \<le> c_fd c \<and> c_id c \<noteq> 0)"

definition net_inv :: "net \<Rightarrow> bool" where
  "net_inv n \<longleftrightarrow>
     (\<forall>p \<in> Slots. slot_ok (slot n p)) \<and>
     (\<forall>p \<in> Slots. \<forall>q \<in> Slots. c_fd (slot n p) = c_fd (slot n q) \<longrightarrow> c_fd (slot n p) \<noteq> -1 \<longrightarrow> p = q) \<and>
     (\<forall>k. NClients n k = of_nat (card (occupied n k)))"

lemma net_invI:
  assumes "\<And>p. p \<in> Slots \<Longrightarrow> slot_ok (slot n p)"
    "\<And>p q. p \<in> Slots \<Longrightarrow> q \<in> Slots \<Longrightarrow> c_fd (slot n p) = c_fd (slot n q) \<Longrightarrow> c_fd (slot n p) \<noteq> -1 \<Longrightarrow> p = q"
    "\<And>k. NClients n k = of_nat (card (occupied n k))"
  shows "net_inv n"
  using assms unfolding net_inv_def by blast

lemma net_inv_ok: "net_inv n \<Longrightarrow> p \<in> Slots \<Longrightarrow> slot_ok (slot n p)"
  unfolding net_inv_def by blast

lemma net_inv_inj:
  "net_inv n \<Longrightarrow> p \<in> Slots \<Longrightarrow> q \<in> Slots \<Longrightarrow> c_fd (slot n p) = c_fd (slot n q) \<Longrightarrow> c_fd (slot n p) \<noteq> -1 \<Longrightarrow> p = q"
  unfolding net_inv_def by blast

lemma net_inv_count: "net_inv n \<Longrightarrow> NClients n k = of_nat (card (occupied n k))"
  unfolding net_inv_def by blast

lemma find_slot_inv:
  assumes "net_inv n" "fd \<noteq> -1"
  shows "find_slot fd n = Some p \<longleftrightarrow> p \<in> Slots \<and> c_fd (slot n p) = fd"
proof
  assume p: "p \<in> Slots \<and> c_fd (slot n p) = fd"
  then obtain q where q: "find_slot fd n = Some q"
    using find_slot_None [of fd n] by (cases "find_slot fd n") blast+
  then have "q = p" using net_inv_inj [OF assms(1), of q p] find_slot_Some [OF q] p assms(2) by simp
  with q show "find_slot fd n = Some p" by simp
qed (rule find_slot_Some)

lemma finite_occupied [simp]: "finite (occupied n k)"
  by (rule finite_subset [of _ "{..<MAXCLISOCKETS}"]) (auto simp: occupied_def)

text \<open>Replacing the contents of a slot but not its descriptor keeps the invariant.\<close>

lemma net_inv_set_slot:
  assumes "net_inv n" "p \<in> Slots" "slot_ok c" "c_fd c = c_fd (slot n p)"
  shows "net_inv (set_slot p c n)"
proof (rule net_invI)
  have fd: "c_fd (slot (set_slot p c n) q) = c_fd (slot n q)" for q using assms(4) by simp
  show "slot_ok (slot (set_slot p c n) q)" if "q \<in> Slots" for q
    using that assms(3) net_inv_ok [OF assms(1)] by simp
  show "q = r" if "q \<in> Slots" "r \<in> Slots" "c_fd (slot (set_slot p c n) q) = c_fd (slot (set_slot p c n) r)"
      "c_fd (slot (set_slot p c n) q) \<noteq> -1" for q r
    using net_inv_inj [OF assms(1) that(1,2)] that(3,4) unfolding fd by blast
  show "NClients (set_slot p c n) k = of_nat (card (occupied (set_slot p c n) k))" for k
    using net_inv_count [OF assms(1)] unfolding occupied_def fd by simp
qed

lemma net_inv_cong:
  assumes "net_inv n" "slot m = slot n" "NClients m = NClients n"
  shows "net_inv m"
  using assms unfolding net_inv_def occupied_def by simp

lemma net_inv_frame [simp]:
  "net_inv (n\<lparr>NextClientId := b\<rparr>) = net_inv n" "net_inv (n\<lparr>fd_port := c\<rparr>) = net_inv n"
  "net_inv (n\<lparr>sent := d\<rparr>) = net_inv n" "net_inv (n\<lparr>n_time := e\<rparr>) = net_inv n"
  "net_inv (n\<lparr>n_send := e\<rparr>) = net_inv n"
  unfolding net_inv_def occupied_def by simp_all

lemma init_slot_ok [simp]: "slot_ok (init_slot c)" "c_fd (init_slot c) = -1"
  by (simp_all add: slot_ok_def init_slot_def client_output_init_def oq_inv_def)

lemma net_inv_del [mochad_inv]:
  assumes inv: "net_inv n" and fd: "fd \<noteq> -1"
  shows "net_inv (snd (del_client fd n))"
proof (cases "find_slot fd n")
  case None
  with inv show ?thesis by (simp add: del_client_def)
next
  case (Some p)
  obtain k i where p: "p = (k, i)" by (cases p)
  from find_slot_Some [OF Some] have i: "i < MAXCLISOCKETS" "c_fd (slot n (k, i)) = fd" by (simp_all add: p)
  let ?n = "(set_slot p (init_slot (slot n p)) n)\<lparr>NClients := (NClients n)(k := NClients n k - 1)\<rparr>"
  have "net_inv ?n"
  proof (rule net_invI)
    show "slot_ok (slot ?n q)" if "q \<in> Slots" for q
      using net_inv_ok [OF inv that] by simp
    show "q = r" if "q \<in> Slots" "r \<in> Slots" "c_fd (slot ?n q) = c_fd (slot ?n r)" "c_fd (slot ?n q) \<noteq> -1" for q r
      using net_inv_inj [OF inv that(1,2)] that(3,4) by (simp split: if_split_asm)
    have "occupied ?n k = occupied n k - {i}" by (auto simp: occupied_def p)
    moreover have "card (occupied n k) = Suc (card (occupied n k - {i}))"
      by (rule card.remove) (use i fd in \<open>simp_all add: occupied_def\<close>)
    moreover have "occupied ?n k' = occupied n k'" if "k' \<noteq> k" for k'
      using that by (auto simp: occupied_def p)
    ultimately show "NClients ?n k' = of_nat (card (occupied ?n k'))" for k'
      using net_inv_count [OF inv] by (cases "k' = k") simp_all
  qed
  then show ?thesis by (simp add: del_client_def Some p)
qed

lemma net_inv_add [mochad_inv]:
  assumes inv: "net_inv n" and fd: "0 \<le> fd" "find_slot fd n = None"
  shows "net_inv (snd (add_client env k fd n))"
proof (cases "List.find (\<lambda>i. c_fd (Clients n k i) = -1) [0..<MAXCLISOCKETS]")
  case None
  with inv show ?thesis by (simp add: add_client_def)
next
  case (Some i)
  then have i: "i < MAXCLISOCKETS" "c_fd (slot n (k, i)) = -1"
    by (auto simp: find_Some_iff slot_def)
  let ?id = "fst (next_client_id n)" and ?m = "snd (next_client_id n)"
  have m: "slot ?m = slot n" "NClients ?m = NClients n" and id: "?id \<noteq> 0"
    by (simp_all add: next_client_id_def Let_def)
  let ?c = "(slot n (k, i))\<lparr>c_fd := fd, c_id := ?id, c_state := cm15a_encode_state_init,
      c_out := client_output_init (c_out (slot n (k, i)))\<rparr>"
  let ?n = "(set_slot (k, i) ?c ?m)\<lparr>NClients := (NClients n)(k := NClients n k + 1)\<rparr>"
  have sl: "slot ?n q = (if q = (k, i) then ?c else slot n q)" for q by (simp add: m)
  have new: "c_fd (slot n q) \<noteq> fd" if "q \<in> Slots" for q
    using fd(2) that unfolding find_slot_None by blast
  have "net_inv ?n"
  proof (rule net_invI)
    show "slot_ok (slot ?n q)" if "q \<in> Slots" for q
      using net_inv_ok [OF inv that] fd id unfolding sl by (simp add: slot_ok_def client_output_init_def oq_inv_def)
    show "q = r" if "q \<in> Slots" "r \<in> Slots" "c_fd (slot ?n q) = c_fd (slot ?n r)" "c_fd (slot ?n q) \<noteq> -1" for q r
      using net_inv_inj [OF inv that(1,2)] new [OF that(1)] new [OF that(2)] that(3,4)
      unfolding sl by (simp split: if_split_asm)
    have "occupied ?n k = insert i (occupied n k)" using i fd by (auto simp: occupied_def sl m)
    moreover have "i \<notin> occupied n k" using i by (simp add: occupied_def)
    moreover have "occupied ?n k' = occupied n k'" if "k' \<noteq> k" for k'
      using that by (auto simp: occupied_def sl m)
    ultimately show "NClients ?n k' = of_nat (card (occupied ?n k'))" for k'
      using net_inv_count [OF inv] by (cases "k' = k") (simp_all add: add.commute)
  qed
  then show ?thesis
    using inv Some by (simp add: add_client_def m split_beta Let_def)
qed

section \<open>What output does to a slot\<close>

text \<open>The effect of queueing a text on a slot: it is appended, or the client is disconnected.\<close>

definition push :: "string \<Rightarrow> client_slot \<Rightarrow> client_slot" where
  "push s c = (case client_output_enqueue s (c_out c) of None \<Rightarrow> init_slot c | Some q \<Rightarrow> c\<lparr>c_out := q\<rparr>)"

lemma slot_del:
  "net_inv n \<Longrightarrow> p \<in> Slots \<Longrightarrow> c_fd (slot n p) = fd \<Longrightarrow> fd \<noteq> -1 \<Longrightarrow>
     slot (snd (del_client fd n)) q = (if q = p then init_slot (slot n p) else slot n q)"
  using find_slot_inv [of n fd p] by (simp add: del_client_def)

lemma push_ok:
  assumes "slot_ok c" "c_fd c \<noteq> -1"
  shows "slot_ok (push s c)" "c_fd (push s c) = c_fd c \<or> c_fd (push s c) = -1"
proof -
  have inv: "oq_inv (c_out c)" using assms by (simp add: slot_ok_def)
  have "oq_inv q" if "client_output_enqueue s (c_out c) = Some q" for q
    using output_queue.enq_contents [OF inv that] by simp
  then show "slot_ok (push s c)" "c_fd (push s c) = c_fd c \<or> c_fd (push s c) = -1"
    using assms by (auto simp: push_def slot_ok_def split: option.splits)
      (simp_all add: init_slot_def client_output_init_def oq_inv_def)
qed

lemma queue_client_bytes_slot:
  assumes inv: "net_inv n" and p: "p \<in> Slots" "c_fd (slot n p) = fd" "fd \<noteq> -1" and s: "s \<noteq> []"
  shows "slot (snd (queue_client_bytes env fd s n)) q = (if q = p then push s (slot n p) else slot n q)"
    and "net_inv (snd (queue_client_bytes env fd s n))"
    and "n_time (snd (queue_client_bytes env fd s n)) = n_time n"
proof -
  have f: "find_slot fd n = Some p" using find_slot_inv [OF inv p(3)] p by simp
  show "slot (snd (queue_client_bytes env fd s n)) q = (if q = p then push s (slot n p) else slot n q)"
    using slot_del [OF inv p] s f by (simp add: queue_client_bytes_def push_def split: option.splits)
  show "net_inv (snd (queue_client_bytes env fd s n))"
  proof (cases "client_output_enqueue s (c_out (slot n p))")
    case None
    with s f net_inv_del [OF inv p(3)] show ?thesis by (simp add: queue_client_bytes_def)
  next
    case (Some q)
    have "slot_ok ((slot n p)\<lparr>c_out := q\<rparr>)"
      using push_ok(1) [OF net_inv_ok [OF inv p(1)], of s] p Some by (simp add: push_def)
    with net_inv_set_slot [OF inv p(1)] s f Some show ?thesis by (simp add: queue_client_bytes_def)
  qed
  show "n_time (snd (queue_client_bytes env fd s n)) = n_time n"
    using s f by (simp add: queue_client_bytes_def del_client_def split: option.splits)
qed

lemma send_table_upto:
  assumes "net_inv n" "line \<noteq> []" "m \<le> MAXCLISOCKETS"
  shows "net_inv (fold (\<lambda>i n. if c_fd (Clients n k i) > 0
      then snd (queue_client_bytes env (c_fd (Clients n k i)) line n) else n) [0..<m] n) \<and>
    (\<forall>q. slot (fold (\<lambda>i n. if c_fd (Clients n k i) > 0
      then snd (queue_client_bytes env (c_fd (Clients n k i)) line n) else n) [0..<m] n) q =
      (if fst q = k \<and> snd q < m \<and> c_fd (slot n q) > 0 then push line (slot n q) else slot n q))"
  using assms(3)
proof (induction m)
  case 0
  with assms show ?case by simp
next
  case (Suc m)
  let ?step = "\<lambda>i n. if c_fd (Clients n k i) > 0
      then snd (queue_client_bytes env (c_fd (Clients n k i)) line n) else n"
  let ?n = "fold ?step [0..<m] n"
  have inv: "net_inv ?n" and sl: "\<And>q. slot ?n q =
      (if fst q = k \<and> snd q < m \<and> c_fd (slot n q) > 0 then push line (slot n q) else slot n q)"
    using Suc by auto
  have m: "(k, m) \<in> Slots" using Suc.prems by simp
  have same: "slot ?n (k, m) = slot n (k, m)" by (simp add: sl)
  have fd: "c_fd (Clients ?n k m) = c_fd (slot ?n (k, m))" by (simp add: slot_def)
  have "fold ?step [0..<Suc m] n = ?step m ?n" by simp
  moreover have "net_inv (?step m ?n) \<and> (\<forall>q. slot (?step m ?n) q =
      (if fst q = k \<and> snd q < Suc m \<and> c_fd (slot n q) > 0 then push line (slot n q) else slot n q))"
  proof (cases "c_fd (slot n (k, m)) > 0")
    case True
    note q = queue_client_bytes_slot [OF inv m fd [symmetric] _ assms(2)]
    have "q = (k, m)" if "fst q = k" "snd q = m" for q :: "client_kind \<times> nat" using that by (cases q) simp
    then show ?thesis using True q(1,2) [of env] same fd sl by (auto simp: less_Suc_eq)
  next
    case False
    then have "?step m ?n = ?n" using same fd by simp
    moreover have "q = (k, m)" if "fst q = k" "snd q = m" for q :: "client_kind \<times> nat" using that by (cases q) simp
    ultimately show ?thesis using False inv sl by (auto simp: less_Suc_eq)
  qed
  ultimately show ?case by simp
qed

lemma send_table_effect:
  assumes "net_inv n" "line \<noteq> []"
  shows "net_inv (send_table env k line n)"
    and "slot (send_table env k line n) q =
      (if fst q = k \<and> snd q < MAXCLISOCKETS \<and> c_fd (slot n q) > 0 then push line (slot n q) else slot n q)"
  using send_table_upto [OF assms order_refl, of k env] unfolding send_table_def by blast+

lemma send_all_impl_frame:
  "send_all_impl rs fd s n = Some (ok, m) \<Longrightarrow> slot m = slot n \<and> NClients m = NClients n \<and> fd_port m = fd_port n
     \<and> n_time m = n_time n"
  by (induction rs fd s n rule: send_all_impl.induct)
    (auto simp: took_def slot_def fun_eq_iff split: send_result.splits if_splits)

lemma net_inv_send_all [mochad_inv]: "net_inv n \<Longrightarrow> net_inv (snd (send_all env fd s n))"
proof -
  assume inv: "net_inv n"
  show ?thesis
  proof (cases "send_all_impl (e_sends env (n_send n)) fd s (n\<lparr>n_send := n_send n + 1\<rparr>)")
    case None
    with inv show ?thesis by (simp add: send_all_def)
  next
    case (Some r)
    obtain ok m where r: "r = (ok, m)" by (cases r)
    have "net_inv m" using net_inv_cong [OF inv] send_all_impl_frame [OF Some [unfolded r]] by simp
    with inv Some r show ?thesis by (simp add: send_all_def)
  qed
qed

lemma net_inv_queue [mochad_inv]:
  "net_inv n \<Longrightarrow> fd \<noteq> -1 \<Longrightarrow> net_inv (snd (queue_client_bytes env fd s n))"
proof -
  assume a: "net_inv n" "fd \<noteq> -1"
  show ?thesis
  proof (cases "find_slot fd n")
    case None
    with a show ?thesis by (simp add: queue_client_bytes_def net_inv_send_all)
  next
    case (Some p)
    with find_slot_Some [OF Some] a queue_client_bytes_slot(2) [OF a(1), of p fd s env] show ?thesis
      by (cases "s = []") (simp_all add: queue_client_bytes_def [of env fd "[]"])
  qed
qed

lemma read_time_simps [simp]:
  "slot (snd (read_time env n)) = slot n" "net_inv (snd (read_time env n)) = net_inv n"
  "fst (read_time env n) = e_time env (n_time n)" "find_slot fd (snd (read_time env n)) = find_slot fd n"
  "fd_port (snd (read_time env n)) = fd_port n"
  by (simp_all add: read_time_def find_slot_def)

lemma xml_line_length [simp]: "length (xml_line s) = length s"
  by (auto simp: xml_line_def)

lemma xml_line_empty [simp]: "xml_line s = [] \<longleftrightarrow> s = []"
  by (metis xml_line_length length_0_conv)

lemma net_inv_sockprintf [mochad_inv]: "net_inv n \<Longrightarrow> net_inv (snd (sockprintf env fd txt n))"
  by (auto simp: sockprintf_def Let_def split_beta net_inv_queue send_table_effect)

lemma net_inv_statusprintf [mochad_inv]: "net_inv n \<Longrightarrow> fd \<noteq> -1 \<Longrightarrow> net_inv (snd (statusprintf env fd txt n))"
  by (simp add: statusprintf_def net_inv_queue)

lemma broadcast_slot:
  assumes "net_inv n" "strftime_stamp 1024 (e_tm env (e_time env (n_time n))) = stamp" "stamp \<noteq> []"
    "line = stamp @ format_bounded (1024 - length stamp) txt" "q \<in> Slots"
  shows "slot (snd (sockprintf env (-1) txt n)) q =
    (if c_fd (slot n q) > 0 then
       (case fst q of Main_client \<Rightarrow> push line (slot n q) | Xml_client \<Rightarrow> push (xml_line line) (slot n q)
        | Or20_client \<Rightarrow> slot n q)
     else slot n q)"
proof -
  let ?n = "snd (read_time env n)"
  have i: "net_inv ?n" and l: "line \<noteq> []" "xml_line line \<noteq> []" using assms by simp_all
  note m = send_table_effect [OF i l(1), of env Main_client]
  have "slot (snd (sockprintf env (-1) txt n)) q =
      slot (send_table env Xml_client (xml_line line) (send_table env Main_client line ?n)) q"
    using assms(2-4) by (simp add: sockprintf_def split_beta Let_def)
  also have "\<dots> = (if c_fd (slot n q) > 0 then
       (case fst q of Main_client \<Rightarrow> push line (slot n q) | Xml_client \<Rightarrow> push (xml_line line) (slot n q)
        | Or20_client \<Rightarrow> slot n q)
     else slot n q)"
    unfolding send_table_effect(2) [OF m(1) l(2)] m(2) using assms(5)
    by (auto simp: Slots_def split: client_kind.splits)
  finally show ?thesis .
qed

lemma push_contents:
  assumes "oq_inv (c_out c)"
  shows "if q_len (c_out c) + length s \<le> CLIENT_OUTPUT_QUEUE_SIZE
    then c_fd (push s c) = c_fd c \<and> oq_contents (c_out (push s c)) = oq_contents (c_out c) @ s
    else push s c = init_slot c"
  using oq_enqueue_fits [OF assms, of s] oq_enqueue_rejects [OF assms, of s] by (auto simp: push_def)

section \<open>The other operations\<close>

lemma net_inv_stalled:
  assumes "net_inv n" "p \<in> Slots"
  shows "net_inv (set_stalled env p n)"
proof -
  have "slot_ok ((slot n p)\<lparr>c_out := (c_out (slot n p))\<lparr>q_stalled_since := t\<rparr>\<rparr>)" for t
    using net_inv_ok [OF assms] by (simp add: slot_ok_def oq_inv_def)
  with assms show ?thesis
    by (auto simp: set_stalled_def split_beta intro!: net_inv_set_slot)
qed

lemma oq_inv_stalled [simp]: "oq_inv (q\<lparr>q_stalled_since := t\<rparr>) = oq_inv q"
  "oq_contents (q\<lparr>q_stalled_since := t\<rparr>) = oq_contents q"
  by (simp_all add: oq_inv_def oq_contents_def)

text \<open>One step of the flush loop that goes on: the bytes \<open>send\<close> took leave the queue.\<close>

definition flushed :: "int \<Rightarrow> client_kind \<times> nat \<Rightarrow> nat \<Rightarrow> net \<Rightarrow> net" where
  "flushed fd p w n =
     took fd (take w (client_output_peek (c_out (slot n p))))
       (set_slot p ((slot n p)\<lparr>c_out := client_output_consume w ((c_out (slot n p))\<lparr>q_stalled_since := 0\<rparr>)\<rparr>) n)"

lemma flush_Cons:
  "flush_client_output env (r # rs) fd p budget n =
     (if q_len (c_out (slot n p)) = 0 \<or> budget = 0 then Some (0, budget, n)
      else case r of
        Send_eintr \<Rightarrow> flush_client_output env rs fd p budget n
      | Send_again \<Rightarrow> Some (0, budget, set_stalled env p n)
      | Send_error \<Rightarrow> Some (-1, budget, snd (del_client fd n))
      | Sent w \<Rightarrow>
          (let w = min w (min (length (client_output_peek (c_out (slot n p)))) budget)
           in if w = 0 then Some (0, budget, set_stalled env p n)
              else flush_client_output env rs fd p (budget - w) (flushed fd p w n)))"
  by (subst flush_client_output.simps, cases r) (simp_all only: Let_def flushed_def list.case send_result.case)

lemma flush_Nil:
  "flush_client_output env [] fd p budget n =
     (if q_len (c_out (slot n p)) = 0 \<or> budget = 0 then Some (0, budget, n) else None)"
  by (subst flush_client_output.simps) (simp add: Let_def)

lemma flushed_inv:
  assumes "net_inv n" "p \<in> Slots" "c_fd (slot n p) = fd" "fd \<noteq> -1"
    and w: "w \<le> length (client_output_peek (c_out (slot n p)))"
  shows "net_inv (flushed fd p w n)" "c_fd (slot (flushed fd p w n) p) = fd"
    "sent (flushed fd p w n) fd @ oq_contents (c_out (slot (flushed fd p w n) p)) =
       sent n fd @ oq_contents (c_out (slot n p))"
    "q \<noteq> p \<Longrightarrow> slot (flushed fd p w n) q = slot n q"
proof -
  let ?q = "c_out (slot n p)"
  let ?c = "client_output_consume w (?q\<lparr>q_stalled_since := 0\<rparr>)"
  have inv: "oq_inv ?q" using net_inv_ok [OF assms(1,2)] by (simp add: slot_ok_def)
  have c: "oq_inv ?c" "oq_contents ?c = drop w (oq_contents ?q)"
    using oq_consume [of "?q\<lparr>q_stalled_since := 0\<rparr>" w] inv by simp_all
  then have ok: "slot_ok ((slot n p)\<lparr>c_out := ?c\<rparr>)"
    using net_inv_ok [OF assms(1,2)] assms(3,4) by (simp add: slot_ok_def)
  show "net_inv (flushed fd p w n)"
    unfolding flushed_def took_def using net_inv_set_slot [OF assms(1,2) ok] by simp
  show "c_fd (slot (flushed fd p w n) p) = fd" using assms(3) by (simp add: flushed_def took_def)
  have "take w (client_output_peek ?q) = take w (oq_contents ?q)"
    by (subst oq_peek(1) [OF inv]) (simp add: w min_def)
  then show "sent (flushed fd p w n) fd @ oq_contents (c_out (slot (flushed fd p w n) p)) =
       sent n fd @ oq_contents ?q"
    by (simp add: flushed_def took_def c)
  show "q \<noteq> p \<Longrightarrow> slot (flushed fd p w n) q = slot n q" by (simp add: flushed_def took_def)
qed

lemma set_stalled_frame:
  "c_fd (slot (set_stalled env p n) q) = c_fd (slot n q)" "sent (set_stalled env p n) = sent n"
  "oq_contents (c_out (slot (set_stalled env p n) q)) = oq_contents (c_out (slot n q))"
  by (simp_all add: set_stalled_def split_beta read_time_def)

text \<open>
  A flush keeps the tables well-formed and loses no byte: what the kernel took and what is still
  queued is what was taken and queued before, unless the client is disconnected.
\<close>

lemma flush_effect:
  assumes "net_inv n" "p \<in> Slots" "c_fd (slot n p) = fd" "fd \<noteq> -1"
    "flush_client_output env rs fd p budget n = Some (r, b, m)"
  shows "net_inv m \<and> b \<le> budget \<and>
    (if r < 0 then c_fd (slot m p) = -1
     else c_fd (slot m p) = fd \<and>
       sent m fd @ oq_contents (c_out (slot m p)) = sent n fd @ oq_contents (c_out (slot n p)))"
  using assms
proof (induction rs arbitrary: budget n)
  case Nil
  then show ?case by (auto simp: flush_Nil split: if_splits)
next
  case (Cons x rs)
  show ?case
  proof (cases "q_len (c_out (slot n p)) = 0 \<or> budget = 0")
    case True
    with Cons.prems show ?thesis by (auto simp: flush_Cons)
  next
    case False
    show ?thesis
    proof (cases x)
      case (Sent w)
      let ?w = "min w (min (length (client_output_peek (c_out (slot n p)))) budget)"
      show ?thesis
      proof (cases "?w = 0")
        case True
        with Cons.prems False Sent have "m = set_stalled env p n" "b = budget" "r = 0"
          by (simp_all add: flush_Cons)
        with net_inv_stalled [OF Cons.prems(1,2)] Cons.prems(3) show ?thesis by (simp add: set_stalled_frame)
      next
        case w: False
        with Cons.prems(5) False Sent
        have run: "flush_client_output env rs fd p (budget - ?w) (flushed fd p ?w n) = Some (r, b, m)"
          by (simp add: flush_Cons Let_def)
        have le: "?w \<le> length (client_output_peek (c_out (slot n p)))" by simp
        note fl = flushed_inv [OF Cons.prems(1-4) le]
        from Cons.IH [OF fl(1) Cons.prems(2) fl(2) Cons.prems(4) run] fl(3) show ?thesis by auto
      qed
    next
      case Send_eintr
      with Cons.prems(5) False have "flush_client_output env rs fd p budget n = Some (r, b, m)"
        by (simp add: flush_Cons)
      from Cons.IH [OF Cons.prems(1-4) this] show ?thesis .
    next
      case Send_again
      with Cons.prems False have "m = set_stalled env p n" "b = budget" "r = 0"
        by (simp_all add: flush_Cons)
      with net_inv_stalled [OF Cons.prems(1,2)] Cons.prems(3) show ?thesis by (simp add: set_stalled_frame)
    next
      case Send_error
      with Cons.prems False have "m = snd (del_client fd n)" "b = budget" "r = -1"
        by (simp_all add: flush_Cons)
      with net_inv_del [OF Cons.prems(1,4)] slot_del [OF Cons.prems(1-4), of p] show ?thesis by simp
    qed
  qed
qed
lemma net_inv_disconnect [mochad_inv]: "net_inv n \<Longrightarrow> net_inv (disconnect_stalled_clients now n)"
proof -
  assume inv: "net_inv n"
  have "net_inv (fold (\<lambda>p n. if stalled now (slot n p) then snd (del_client (c_fd (slot n p)) n) else n) ps n)" for ps
    using inv by (induction ps arbitrary: n) (auto simp: net_inv_del stalled_def)
  then show ?thesis by (simp add: disconnect_stalled_clients_def)
qed

lemma fold_init_slots:
  "distinct ps \<Longrightarrow> slot (fold (\<lambda>p n. set_slot p (init_slot (slot n p)) n) ps n) q =
     (if q \<in> set ps then init_slot (slot n q) else slot n q)"
  by (induction ps arbitrary: n) auto

lemma net_inv_init [mochad_inv]: "net_inv (init_client n)"
proof (rule net_invI)
  have sl: "slot (init_client n) q = (if q \<in> Slots then init_slot (slot n q) else slot n q)" for q
    by (simp add: init_client_def fold_init_slots distinct_slot_order)
  show "slot_ok (slot (init_client n) p)" if "p \<in> Slots" for p using that by (simp add: sl)
  show "p = q" if "p \<in> Slots" "q \<in> Slots" "c_fd (slot (init_client n) p) \<noteq> -1" for p q
    using that by (simp add: sl)
  have "occupied (init_client n) k = {}" for k by (auto simp: occupied_def sl)
  then show "NClients (init_client n) k = of_nat (card (occupied (init_client n) k))" for k
    by (simp add: init_client_def)
qed

lemma card_occupied:
  "length (filter (\<lambda>p. c_fd (slot n p) \<noteq> -1) slot_order) =
     card (occupied n Main_client) + card (occupied n Xml_client) + card (occupied n Or20_client)"
proof -
  have "length (filter (\<lambda>p. c_fd (slot n p) \<noteq> -1) slot_order) = card {p \<in> Slots. c_fd (slot n p) \<noteq> -1}"
    using distinct_card [OF distinct_filter [OF distinct_slot_order, of "\<lambda>p. c_fd (slot n p) \<noteq> -1"]] by simp
  also have "{p \<in> Slots. c_fd (slot n p) \<noteq> -1} = (SIGMA k:UNIV. occupied n k)"
    by (auto simp: occupied_def)
  also have "card \<dots> = (\<Sum>k\<in>UNIV. card (occupied n k))"
    by (rule card_SigmaI) simp_all
  finally show ?thesis by (simp add: UNIV_client_kind)
qed

lemma copy_clients_count: "net_inv n \<Longrightarrow> snd (copy_clients n) = of_nat (length (fst (copy_clients n)))"
  using net_inv_count [of n] by (simp add: copy_clients_def card_occupied)

lemma copy_clients_fds:
  "map fst (fst (copy_clients n)) = map (\<lambda>p. c_fd (slot n p)) (filter (\<lambda>p. c_fd (slot n p) \<noteq> -1) slot_order)"
  by (simp add: copy_clients_def)

lemma length_copy_clients: "length (fst (copy_clients n)) \<le> 3 * MAXCLISOCKETS"
proof -
  have "length slot_order = card Slots" using distinct_card [OF distinct_slot_order] by simp
  also have "Slots = UNIV \<times> {..<MAXCLISOCKETS}" by (auto simp: Slots_def)
  also have "card (UNIV \<times> {..<MAXCLISOCKETS} :: (client_kind \<times> nat) set) = 3 * MAXCLISOCKETS"
  proof -
    have "CARD(client_kind) = card {Main_client, Xml_client, Or20_client}" by (rule arg_cong [OF UNIV_client_kind])
    then have "CARD(client_kind) = 3" by simp
    then show ?thesis by (simp add: card_cartesian_product)
  qed
  finally show ?thesis
    using length_filter_le [of "\<lambda>p. c_fd (slot n p) \<noteq> -1" slot_order] by (simp add: copy_clients_def)
qed

lemma send_all_impl_effect:
  "send_all_impl rs fd s n = Some (ok, m) \<Longrightarrow>
     \<exists>k \<le> length s. sent m = (sent n)(fd := sent n fd @ take k s) \<and> (ok \<longleftrightarrow> k = length s)"
proof (induction rs fd s n rule: send_all_impl.induct)
  case (1 rs fd n)
  then show ?case by (intro exI [of _ 0]) auto
next
  case (2 fd c cs n)
  then show ?case by simp
next
  case (3 r rs fd c cs n)
  show ?case
  proof (cases r)
    case (Sent w)
    show ?thesis
    proof (cases "w = 0")
      case True
      with 3 Sent show ?thesis by (intro exI [of _ 0]) auto
    next
      case False
      with "3.prems" Sent have "send_all_impl rs fd (drop w (c # cs)) (took fd (take w (c # cs)) n) = Some (ok, m)"
        by simp
      from "3.IH"(1) [OF Sent False this] obtain k where "k \<le> length (drop w (c # cs))"
        "sent m = (sent (took fd (take w (c # cs)) n))
          (fd := sent (took fd (take w (c # cs)) n) fd @ take k (drop w (c # cs)))"
        "ok \<longleftrightarrow> k = length (drop w (c # cs))" by blast
      then have k: "k \<le> length (drop w (c # cs))"
        "sent m = (sent n)(fd := sent n fd @ take w (c # cs) @ take k (drop w (c # cs)))"
        "ok \<longleftrightarrow> k = length (drop w (c # cs))"
        by (simp_all only: took_def net.simps fun_upd_upd fun_upd_same append_assoc) simp_all
      show ?thesis
      proof (cases "w \<le> length (c # cs)")
        case True
        with k show ?thesis
          by (intro exI [of _ "w + k"]) (auto simp: take_add)
      next
        case False
        with k show ?thesis by (intro exI [of _ "length (c # cs)"]) simp
      qed
    qed
  next
    case Send_eintr
    with 3 show ?thesis by simp
  next
    case Send_again
    with "3.prems" show ?thesis by (intro exI [of _ 0]) auto
  next
    case Send_error
    with "3.prems" show ?thesis by (intro exI [of _ 0]) auto
  qed
qed

section \<open>Properties\<close>

text \<open>
  C16: The client tables stay well-formed under every operation on them, the disconnection of slow
  and stalled clients inside output included: descriptors are in one slot only, the counters
  count the connected clients of each kind, free slots hold no output, client ids are never 0;
  and the number \<open>copy_clients\<close> returns is the number of records it writes.
\<close>

theorem client_tables_wf:
  assumes "net_inv n" "0 \<le> fd" "find_slot fd n = None" "fd' \<noteq> -1"
  shows "net_inv (init_client n) \<and> net_inv (snd (add_client env k fd n)) \<and> net_inv (snd (del_client fd' n)) \<and>
    net_inv (snd (sockprintf env fd'' txt n)) \<and> net_inv (snd (statusprintf env fd' txt n)) \<and>
    net_inv (disconnect_stalled_clients now n) \<and>
    snd (copy_clients n) = of_nat (length (fst (copy_clients n)))"
  using assms
  by (simp add: net_inv_init net_inv_add net_inv_del net_inv_sockprintf net_inv_statusprintf net_inv_disconnect
      copy_clients_count)

definition net_zero :: net where
  "net_zero = init_client
     \<lparr>Clients = (\<lambda>_ _. \<lparr>c_fd = 0, c_id = 0, c_state = cm15a_encode_state_init, c_out = empty_output\<rparr>),
      NClients = (\<lambda>_. 0), NextClientId = 1, fd_port = (\<lambda>_. None), sent = (\<lambda>_. []), n_time = 0, n_send = 0\<rparr>"

definition tm_zero :: tm where
  "tm_zero = \<lparr>tm_sec = 1, tm_min = 2, tm_hour = 3, tm_mday = 4, tm_mon = 0, tm_wday = 0, tm_yday = 3\<rparr>"

definition env_zero :: env where
  "env_zero = \<lparr>e_time = (\<lambda>_. 1000), e_mono = (\<lambda>_. 0), e_tm = (\<lambda>_. tm_zero), e_submit = (\<lambda>_. 0),
     e_sends = (\<lambda>_. []), e_nonblock = (\<lambda>_. True), e_config = mochad_config_defaults, e_start = 1000\<rparr>"

lemma net_zero_props:
  "net_inv net_zero" "find_slot 5 net_zero = None" "c_fd (slot net_zero (k, i)) = (if i < 32 then -1 else 0)"
  "oq_contents (c_out (slot net_zero (k, i))) = []" "n_time net_zero = 0" "NextClientId net_zero = 1"
proof -
  have sl: "slot net_zero q = (if q \<in> Slots then init_slot \<lparr>c_fd = 0, c_id = 0, c_state = cm15a_encode_state_init, c_out = empty_output\<rparr>
      else \<lparr>c_fd = 0, c_id = 0, c_state = cm15a_encode_state_init, c_out = empty_output\<rparr>)" for q
    by (simp add: net_zero_def init_client_def fold_init_slots distinct_slot_order) (simp add: slot_def)
  show "net_inv net_zero" unfolding net_zero_def by (rule net_inv_init)
  show "c_fd (slot net_zero (k, i)) = (if i < 32 then -1 else 0)"
    by (simp add: sl MAXCLISOCKETS_def)
  show "find_slot 5 net_zero = None" unfolding find_slot_None by (simp add: sl)
  show "oq_contents (c_out (slot net_zero (k, i))) = []"
    by (simp add: sl init_slot_def) (simp add: oq_contents_def empty_output_def client_output_init_def)
  have "n_time (fold (\<lambda>p n. set_slot p (init_slot (slot n p)) n) ps n) = n_time n \<and>
      NextClientId (fold (\<lambda>p n. set_slot p (init_slot (slot n p)) n) ps n) = NextClientId n" for ps n
    by (induction ps arbitrary: n) auto
  then show "n_time net_zero = 0" "NextClientId net_zero = 1" by (simp_all add: net_zero_def init_client_def)
qed

theorem client_tables_wf_witness:
  "net_inv (snd (add_client env_zero Main_client 5 net_zero))"
  using client_tables_wf [of net_zero 5 5] by (simp add: net_zero_props)

text \<open>
  C17: An event is broadcast to every connected main client as its time-stamped line and to every
  XML client as the same line ending in NUL, and to no OpenRemote client: the line is appended to
  the client's output, or, when its 16384-byte queue cannot hold it, the client is disconnected.
\<close>

theorem broadcast_reaches_clients:
  assumes "net_inv n" "q \<in> Slots" "c_fd (slot n q) > 0"
    "strftime_stamp 1024 (e_tm env (e_time env (n_time n))) = stamp" "stamp \<noteq> []"
    "line = stamp @ format_bounded (1024 - length stamp) txt"
    "out = (case fst q of Main_client \<Rightarrow> line | Xml_client \<Rightarrow> xml_line line | Or20_client \<Rightarrow> [])"
    "c = slot n q" "c' = slot (snd (sockprintf env (-1) txt n)) q"
  shows "if q_len (c_out c) + length out \<le> CLIENT_OUTPUT_QUEUE_SIZE
    then c_fd c' = c_fd c \<and> oq_contents (c_out c') = oq_contents (c_out c) @ out
    else c_fd c' = -1 \<and> q_len (c_out c') = 0"
proof -
  have inv: "oq_inv (c_out c)" using net_inv_ok [OF assms(1,2)] assms(8) by (simp add: slot_ok_def)
  have free: "c_fd (init_slot c) = -1 \<and> q_len (c_out (init_slot c)) = 0"
    by (simp add: init_slot_def client_output_init_def)
  note b = broadcast_slot [OF assms(1,4,5,6,2), folded assms(8,9)]
  show ?thesis
    using b push_contents [OF inv, of line] push_contents [OF inv, of "xml_line line"] free assms(3,7,8) inv
    by (auto simp: oq_inv_def split: client_kind.splits if_splits)
qed

definition net_one :: net where
  "net_one = snd (add_client env_zero Main_client 5 net_zero)"

lemma net_one_props:
  "net_inv net_one" "c_fd (slot net_one (Main_client, 0)) = 5" "oq_contents (c_out (slot net_one (Main_client, 0))) = []"
  "q_len (c_out (slot net_one (Main_client, 0))) = 0" "n_time net_one = 0"
proof -
  have f: "List.find (\<lambda>i. c_fd (Clients net_zero Main_client i) = -1) [0..<MAXCLISOCKETS] = Some 0"
    using net_zero_props(3) [of Main_client 0] by (simp add: MAXCLISOCKETS_def upt_rec slot_def)
  have one: "net_one = (set_slot (Main_client, 0) ((slot net_zero (Main_client, 0))\<lparr>c_fd := 5, c_id := 1,
      c_state := cm15a_encode_state_init, c_out := client_output_init (c_out (slot net_zero (Main_client, 0)))\<rparr>)
      (net_zero\<lparr>NextClientId := 2\<rparr>))\<lparr>NClients := (NClients net_zero)(Main_client := NClients net_zero Main_client + 1)\<rparr>"
    unfolding net_one_def add_client_def f
    by (simp add: env_zero_def next_client_id_def net_zero_props Let_def)
  show "net_inv net_one" unfolding net_one_def by (rule net_inv_add) (simp_all add: net_zero_props)
  show "c_fd (slot net_one (Main_client, 0)) = 5" "oq_contents (c_out (slot net_one (Main_client, 0))) = []"
    "q_len (c_out (slot net_one (Main_client, 0))) = 0" "n_time net_one = 0"
    by (simp_all add: one net_zero_props client_output_init_def)
      (simp add: oq_contents_def)
qed

lemma env_zero_stamp: "strftime_stamp 1024 (e_tm env_zero (e_time env_zero 0)) = ''01/04 03:02:01 ''"
  by (simp add: strftime_stamp_def env_zero_def tm_zero_def fmt_02d_def pad0_def num_str.simps digit_char_def)

theorem broadcast_reaches_clients_witness:
  "oq_contents (c_out (slot (snd (sockprintf env_zero (-1) ''hello'' net_one)) (Main_client, 0))) =
     ''01/04 03:02:01 hello''"
  using broadcast_reaches_clients [of net_one "(Main_client, 0)" env_zero "''01/04 03:02:01 ''" _ "''hello''"]
  by (simp add: net_one_props env_zero_stamp format_bounded_def CLIENT_OUTPUT_QUEUE_SIZE_def)

text \<open>
  C18: Flushing a client's output hands the kernel a prefix of it: whatever \<open>send\<close> returns, the
  bytes sent and the bytes still queued are together what they were, in order, unless an error
  disconnects the client; the tables stay well-formed and the write budget is kept.
\<close>

theorem flush_loses_nothing:
  assumes "net_inv n" "p \<in> Slots" "c_fd (slot n p) = fd" "fd \<noteq> -1"
    "flush_client_output env rs fd p budget n = Some (r, b, m)"
  shows "net_inv m \<and> b \<le> budget \<and>
    (if r < 0 then c_fd (slot m p) = -1
     else c_fd (slot m p) = fd \<and>
       sent m fd @ oq_contents (c_out (slot m p)) = sent n fd @ oq_contents (c_out (slot n p)))"
  using flush_effect [OF assms] .

text \<open>One of two queued bytes is taken by the kernel before it would block.\<close>

theorem flush_loses_nothing_witness:
  "\<exists>r b m. flush_client_output env_zero [Sent 1, Send_again] 5 (Main_client, 0) 65536
     (set_slot (Main_client, 0) (push ''ab'' (slot net_one (Main_client, 0))) net_one) = Some (r, b, m) \<and>
     sent m 5 @ oq_contents (c_out (slot m (Main_client, 0))) = sent net_one 5 @ ''ab'' \<and>
     length (oq_contents (c_out (slot m (Main_client, 0)))) = 1"
proof -
  let ?p = "(Main_client, 0) :: client_kind \<times> nat"
  let ?c = "push ''ab'' (slot net_one ?p)"
  let ?n = "set_slot ?p ?c net_one"
  let ?f = "flushed 5 ?p 1 ?n"
  have ok: "slot_ok (slot net_one ?p)"
    by (rule net_inv_ok) (simp_all add: net_one_props)
  have p: "c_fd ?c = 5" "oq_contents (c_out ?c) = ''ab''"
    using push_contents [of "slot net_one ?p" "''ab''"] ok
    by (simp_all add: slot_ok_def net_one_props CLIENT_OUTPUT_QUEUE_SIZE_def)
  have okc: "slot_ok ?c" using push_ok(1) [OF ok] by (simp add: net_one_props)
  then have inv: "net_inv ?n"
    by (intro net_inv_set_slot) (simp_all add: net_one_props p)
  have len: "q_len (c_out ?c) = 2" using oq_length [of "c_out ?c"] unfolding p(2) by simp
  have "client_output_peek (c_out ?c) \<noteq> []" using oq_peek(2) [of "c_out ?c"] okc p(2) by (simp add: slot_ok_def)
  then have "min 1 (min (length (client_output_peek (c_out ?c))) 65536) = 1"
    by (cases "client_output_peek (c_out ?c)") auto
  moreover have left: "q_len (c_out (slot ?f ?p)) = 1"
    by (simp add: flushed_def took_def client_output_consume_def Let_def len)
  ultimately have run: "flush_client_output env_zero [Sent 1, Send_again] 5 ?p 65536 ?n =
      Some (0, 65535, set_stalled env_zero ?p ?f)"
    by (simp add: flush_Cons len)
  have "length (oq_contents (c_out (slot (set_stalled env_zero ?p ?f) ?p))) = 1"
    by (simp only: set_stalled_frame oq_length left)
  with flush_loses_nothing [OF inv _ _ _ run] run show ?thesis
    by (intro exI [of _ 0] exI [of _ 65535] exI [of _ "set_stalled env_zero ?p ?f"]) (simp add: p)
qed

text \<open>
  A direct \<open>send_all\<close> that returns has handed the kernel a prefix of the buffer, and
  reports success exactly when that is the whole buffer; interrupted calls are repeated.
\<close>

theorem send_all_prefix:
  assumes "send_all_impl rs fd s n = Some (ok, m)"
  shows "\<exists>k \<le> length s. sent m = (sent n)(fd := sent n fd @ take k s) \<and> (ok \<longleftrightarrow> k = length s)"
  using send_all_impl_effect [OF assms] .

theorem send_all_prefix_witness:
  "\<exists>m. send_all_impl [Sent 1, Send_eintr, Sent 1] 5 ''ab'' net_one = Some (True, m) \<and> sent m 5 = sent net_one 5 @ ''ab''"
proof -
  obtain m where run: "send_all_impl [Sent 1, Send_eintr, Sent 1] 5 ''ab'' net_one = Some (True, m)" by simp
  from send_all_prefix [OF this] run show ?thesis by auto
qed
end
