(* ===== verification/Decode.thy ===== *)
theory Decode
  imports X10_Frames X10_State X10_Event Usb_Transmit Clients
begin

text \<open>
  The decoder of \<open>src/x10/decode.c\<close> on the state of the whole daemon: dispatching events to
  the clients, the power-line decoder, the duplicate filter, the RF decoder and the entry point
  \<open>cm15a_decode\<close>. A buffer is the whole array with a separate length, so that a read past the
  length sees what the array holds there. The RF decoder relays commands to the power line
  through the command processor of Encode; here that is the parameter \<open>pcl\<close>.
\<close>

section \<open>State of the daemon\<close>

text \<open>An entry of the duplicate filter; an unused one (\<open>rf_cmd_len = 0\<close>) has no bytes.\<close>

record dup_entry =
  timems :: "64 word"
  rf_command :: "byte list"

record world =
  w_net :: net
  w_usb :: usb_state
  w_x10 :: x10state
  w_dups :: "dup_entry list"
  RfToPl16 :: "16 word"
  RfToRf16 :: "16 word"
  n_mono :: nat

definition on_net :: "(net \<Rightarrow> int \<times> net) \<Rightarrow> world \<Rightarrow> world" where
  "on_net f w = w\<lparr>w_net := snd (f (w_net w))\<rparr>"

definition on_x10 :: "(x10state \<Rightarrow> x10state) \<Rightarrow> world \<Rightarrow> world" where
  "on_x10 f w = w\<lparr>w_x10 := f (w_x10 w)\<rparr>"

definition transmit :: "env \<Rightarrow> byte list \<Rightarrow> world \<Rightarrow> world" where
  "transmit env buf w = w\<lparr>w_usb := snd (x10_write (e_submit env) buf (w_usb w))\<rparr>"

definition say :: "env \<Rightarrow> int \<Rightarrow> string \<Rightarrow> world \<Rightarrow> world" where
  "say env fd txt = on_net (sockprintf env fd txt)"

definition say_hex :: "env \<Rightarrow> int \<Rightarrow> byte list \<Rightarrow> nat \<Rightarrow> world \<Rightarrow> world" where
  "say_hex env fd buf len = on_net (sockhexdump env fd buf len)"

section \<open>Dispatching events\<close>

definition mochad_dispatch_event :: "env \<Rightarrow> int \<Rightarrow> mochad_event \<Rightarrow> world \<Rightarrow> world" where
  "mochad_dispatch_event env fd event w =
     (case mochad_event_format_legacy_body (Some event) 256 of
        None \<Rightarrow> w
      | Some body \<Rightarrow> say env fd (body @ nl) w)"

definition pl_direction :: "byte \<Rightarrow> direction" where
  "pl_direction marker = (if marker = 0x5a then MOCHAD_EVENT_DIRECTION_RX else MOCHAD_EVENT_DIRECTION_TX)"

definition rf_direction :: "byte \<Rightarrow> direction" where
  "rf_direction marker = (if marker = 0x5d then MOCHAD_EVENT_DIRECTION_RX else MOCHAD_EVENT_DIRECTION_TX)"

definition pl_houseunit_event :: "byte \<Rightarrow> char \<Rightarrow> nat \<Rightarrow> string option \<Rightarrow> mochad_event" where
  "pl_houseunit_event marker house unit func =
     event_zero\<lparr>ev_direction := pl_direction marker, ev_transport := MOCHAD_EVENT_TRANSPORT_PL,
       ev_detail := MOCHAD_EVENT_DETAIL_HOUSE_UNIT, ev_house := house, ev_unit := unit, ev_function := func\<rparr>"

definition pl_house_event :: "byte \<Rightarrow> char \<Rightarrow> string option \<Rightarrow> mochad_event" where
  "pl_house_event marker house func =
     event_zero\<lparr>ev_direction := pl_direction marker, ev_transport := MOCHAD_EVENT_TRANSPORT_PL,
       ev_detail := MOCHAD_EVENT_DETAIL_HOUSE, ev_house := house, ev_function := func\<rparr>"

definition pl_house_level_event :: "byte \<Rightarrow> char \<Rightarrow> string option \<Rightarrow> nat \<Rightarrow> mochad_event" where
  "pl_house_level_event marker house func level =
     (pl_house_event marker house func)\<lparr>ev_has_level := True, ev_level := level\<rparr>"

definition pl_extended_event :: "byte \<Rightarrow> char \<Rightarrow> nat \<Rightarrow> string option \<Rightarrow> byte \<Rightarrow> byte \<Rightarrow> mochad_event" where
  "pl_extended_event marker house unit func data command =
     (pl_houseunit_event marker house unit func)
       \<lparr>ev_has_extended_data := True, ev_extended_data := data, ev_extended_command := command\<rparr>"

definition rf_houseunit_event :: "byte \<Rightarrow> char \<Rightarrow> nat \<Rightarrow> string option \<Rightarrow> mochad_event" where
  "rf_houseunit_event marker house unit func =
     event_zero\<lparr>ev_direction := rf_direction marker, ev_transport := MOCHAD_EVENT_TRANSPORT_RF,
       ev_detail := MOCHAD_EVENT_DETAIL_HOUSE_UNIT, ev_house := house, ev_unit := unit, ev_function := func\<rparr>"

definition rf_house_event :: "byte \<Rightarrow> char \<Rightarrow> string option \<Rightarrow> mochad_event" where
  "rf_house_event marker house func =
     event_zero\<lparr>ev_direction := rf_direction marker, ev_transport := MOCHAD_EVENT_TRANSPORT_RF,
       ev_detail := MOCHAD_EVENT_DETAIL_HOUSE, ev_house := house, ev_function := func\<rparr>"

definition rfsec_short_event :: "byte \<Rightarrow> byte \<Rightarrow> string option \<Rightarrow> mochad_event" where
  "rfsec_short_event marker address func =
     event_zero\<lparr>ev_direction := rf_direction marker, ev_transport := MOCHAD_EVENT_TRANSPORT_RFSEC,
       ev_detail := MOCHAD_EVENT_DETAIL_RFSEC_SHORT, ev_security_short_addr := address, ev_function := func\<rparr>"

definition rfsec_long_event :: "byte \<Rightarrow> byte \<times> byte \<times> byte \<Rightarrow> string option \<Rightarrow> mochad_event" where
  "rfsec_long_event marker address func =
     event_zero\<lparr>ev_direction := rf_direction marker, ev_transport := MOCHAD_EVENT_TRANSPORT_RFSEC,
       ev_detail := MOCHAD_EVENT_DETAIL_RFSEC_LONG, ev_security_long_addr := address, ev_function := func\<rparr>"

definition rfcam_event :: "byte \<Rightarrow> string \<Rightarrow> mochad_event" where
  "rfcam_event marker command =
     event_zero\<lparr>ev_direction := rf_direction marker, ev_transport := MOCHAD_EVENT_TRANSPORT_RFCAM,
       ev_detail := MOCHAD_EVENT_DETAIL_RFCAM, ev_camera_command := Some command\<rparr>"

section \<open>The power-line decoder\<close>

text \<open>The inner switch of the house/function case.\<close>

definition pl_function :: "nat \<Rightarrow> nat \<Rightarrow> x10state \<Rightarrow> x10state" where
  "pl_function funcint house s =
     (if funcint = 0 \<or> funcint = 6 then hua_func_all_off house s
      else if funcint = 1 then hua_func_all_on house s
      else if funcint = 2 \<or> funcint = 13 then hua_func_on house s
      else if funcint = 3 \<or> funcint = 14 then hua_func_off house s
      else s)"

definition cm15a_decode_plc :: "env \<Rightarrow> int \<Rightarrow> byte list \<Rightarrow> nat \<Rightarrow> world \<Rightarrow> world" where
  "cm15a_decode_plc env fd buf len w =
     (if len < 4 then w
      else if len > 8 then w
      else if buf ! 2 = 0x00 then
        (if buf ! 1 \<noteq> 2 then w
         else let (house, unit) = huc_decode (buf ! 3);
                  w = on_x10 (hua_add (house_index house) (unit - 1)) w
              in mochad_dispatch_event env fd (pl_houseunit_event (buf ! 0) house unit None) w)
      else if buf ! 2 = 0x01 then
        (if buf ! 1 \<noteq> 2 then w
         else let (house, funcint) = hfc_decode (buf ! 3);
                  w = on_x10 (pl_function funcint (house_index house)) w
              in mochad_dispatch_event env fd (pl_house_event (buf ! 0) house (Some (Funcname ! funcint))) w)
      else if buf ! 2 = 0x02 then
        (if buf ! 1 \<noteq> 3 then w
         else let dims = unat (drop_bit 3 (buf ! 3 AND 0xF8));
                  (house, funcint) = hfc_decode (buf ! 4)
              in mochad_dispatch_event env fd
                   (pl_house_level_event (buf ! 0) house (Some (Funcname ! funcint)) dims) w)
      else if buf ! 2 = 0x07 then
        (if len < 7 then w
         else if len > 7 then w
         else let (house, funcint) = hfc_decode (buf ! 3);
                  unit = uc_decode (buf ! 4);
                  w = mochad_dispatch_event env fd
                        (pl_extended_event (buf ! 0) house unit (Some (Funcname ! funcint)) (buf ! 5) (buf ! 6)) w
              in on_x10 (hua_setstatus_xdim (house_index house) (unit - 1) (buf ! 5)) w)
      else if buf ! 2 = 0x08 then
        (if len < 7 then w
         else if len > 7 then w
         else let (house, funcint) = hfc_decode (buf ! 6);
                  unit = uc_decode (buf ! 5);
                  w = mochad_dispatch_event env fd
                        (pl_extended_event (buf ! 0) house unit (Some (Funcname ! funcint)) (buf ! 4) (buf ! 3)) w
              in on_x10 (hua_setstatus_xdim (house_index house) (unit - 1) (buf ! 4)) w)
      else w)"

section \<open>The duplicate filter\<close>

definition DUP_TIME :: "64 word" where "DUP_TIME = 650"

definition get_timems :: "env \<Rightarrow> world \<Rightarrow> 64 word \<times> world" where
  "get_timems env w = (e_mono env (n_mono w), w\<lparr>n_mono := n_mono w + 1\<rparr>)"

text \<open>
  The first loop: the entries, the expired ones before a match marked unused, and the index of
  the match. \<open>None\<close> as command stands for \<open>len = -1\<close>, which matches no entry.
\<close>

fun dup_scan :: "64 word \<Rightarrow> byte list option \<Rightarrow> dup_entry list \<Rightarrow> dup_entry list \<times> nat option" where
  "dup_scan now cmd [] = ([], None)"
| "dup_scan now cmd (p # ps) =
     (if rf_command p \<noteq> [] \<and> cmd = Some (rf_command p) then (p # ps, Some 0)
      else let p' = (if rf_command p \<noteq> [] \<and> now > timems p then p\<lparr>rf_command := []\<rparr> else p);
               (ps', hit) = dup_scan now cmd ps
           in (p' # ps', map_option Suc hit))"

fun first_unused :: "dup_entry list \<Rightarrow> nat option" where
  "first_unused [] = None"
| "first_unused (p # ps) = (if rf_command p = [] then Some 0 else map_option Suc (first_unused ps))"

text \<open>The entry closest to expiring: the first with the least time.\<close>

definition min_index :: "dup_entry list \<Rightarrow> nat" where
  "min_index ds =
     snd (fold (\<lambda>i (m, add_index). if timems (ds ! i) < m then (timems (ds ! i), i) else (m, add_index))
       [1..<length ds] (timems (ds ! 0), 0))"

definition dup_filter :: "env \<Rightarrow> byte list option \<Rightarrow> world \<Rightarrow> bool \<times> world" where
  "dup_filter env cmd w =
     (let (now, w) = get_timems env w;
          (ds, hit) = dup_scan now cmd (w_dups w)
      in case hit of
           Some i \<Rightarrow>
             if now > timems (ds ! i) then
               let (t, w) = get_timems env w
               in (False, w\<lparr>w_dups := ds[i := (ds ! i)\<lparr>timems := t + DUP_TIME\<rparr>]\<rparr>)
             else (True, w\<lparr>w_dups := ds\<rparr>)
         | None \<Rightarrow>
             (case cmd of
                None \<Rightarrow> (list_ex (\<lambda>p. rf_command p \<noteq> []) ds, w\<lparr>w_dups := ds\<rparr>)
              | Some c \<Rightarrow>
                  let i = (case first_unused ds of Some i \<Rightarrow> i | None \<Rightarrow> min_index ds);
                      (t, w) = get_timems env w
                  in (False, w\<lparr>w_dups := ds[i := \<lparr>timems = t + DUP_TIME, rf_command = c\<rparr>]\<rparr>)))"

section \<open>The RF decoder\<close>

definition repeatRF :: "env \<Rightarrow> int \<Rightarrow> byte list \<Rightarrow> nat \<Rightarrow> world \<Rightarrow> world" where
  "repeatRF env fd buf len w =
     (if RfToRf16 w \<noteq> 0 then
        let w = say env fd (''RfToRf repeat'' @ nl) w;
            tx = 0xEB # tl (take len buf)
        in transmit env (if Cm19a (w_usb w) then tl tx else tx) w
      else w)"

definition sec_event :: "env \<Rightarrow> byte \<times> byte \<times> byte \<Rightarrow> byte \<Rightarrow> byte \<Rightarrow> world \<Rightarrow> world" where
  "sec_event env a func a8 w =
     (let ss = X10sensors (w_x10 w)
      in if list_ex (\<lambda>x. secaddr x = secaddr32 a) ss \<or> length ss + 1 < X10SENSORS_MAX then
           let (now, n) = read_time env (w_net w)
           in w\<lparr>w_net := n, w_x10 := hua_sec_event now a func a8 (w_x10 w)\<rparr>
         else w)"

definition setClock :: "env \<Rightarrow> world \<Rightarrow> world" where
  "setClock env w =
     (let (t, n) = read_time env (w_net w);
          tm = e_tm env t
      in transmit env
           [0x9b, word_of_int (tm_sec tm), word_of_int (tm_min tm + 60 * (tm_hour tm AND 1)),
            word_of_int (tm_hour tm div 2), word_of_int (tm_yday tm),
            push_bit (nat (tm_wday tm)) 1 OR (if tm_yday tm AND 0x100 \<noteq> 0 then 0x80 else 0),
            0x60, 0x00]
           (w\<lparr>w_net := n\<rparr>))"

fun skip_5d :: "byte list \<Rightarrow> nat \<Rightarrow> byte list \<times> nat" where
  "skip_5d buf len = (if len > 8 \<and> buf ! 1 = 0x5D then skip_5d (tl buf) (len - 1) else (buf, len))"

declare skip_5d.simps [simp del]

definition rf_to_pl :: "world \<Rightarrow> char \<Rightarrow> bool" where
  "rf_to_pl w house \<longleftrightarrow> \<not> Cm19a (w_usb w) \<and> bit (RfToPl16 w) (house_index house)"

text \<open>The relay to the power line, common to the two kinds of standard RF frames.\<close>

definition rf_relay ::
  "(int \<Rightarrow> string \<Rightarrow> world \<Rightarrow> world) \<Rightarrow> env \<Rightarrow> int \<Rightarrow> byte list \<Rightarrow> nat \<Rightarrow> char \<Rightarrow> string \<Rightarrow> world \<Rightarrow> world" where
  "rf_relay pcl env fd buf len house txt w =
     (if rf_to_pl w house then
        (if length txt > 0 then pcl fd (snprintf_text 80 txt) w
         else say_hex env fd buf len (say env fd (''cmdbuf too short'' @ nl) w))
      else w)"

definition rf_camera :: "env \<Rightarrow> int \<Rightarrow> byte list \<Rightarrow> nat \<Rightarrow> world \<Rightarrow> world" where
  "rf_camera env fd buf len w =
     (case findCamRemoteName (tl buf) (len - 1) of
        Some commandp \<Rightarrow>
          (let (dup, w) = dup_filter env (Some (take len buf)) w
           in if dup then w
              else repeatRF env fd buf len (mochad_dispatch_event env fd (rfcam_event (buf ! 0) commandp) w))
      | None \<Rightarrow> say_hex env fd buf len (say env fd (''Unknown RF camera command'' @ nl) w))"

definition rf_standard ::
  "(int \<Rightarrow> string \<Rightarrow> world \<Rightarrow> world) \<Rightarrow> env \<Rightarrow> int \<Rightarrow> byte list \<Rightarrow> nat \<Rightarrow> world \<Rightarrow> world" where
  "rf_standard pcl env fd buf len w =
     (let chksum = buf ! 2 XOR buf ! 3
      in if chksum = 0x0f then
           (if buf ! 4 XOR buf ! 5 \<noteq> 0xff then
              say_hex env fd buf len (say env fd (''Invalid checksum'' @ nl) w)
            else
              let (dup, w) = dup_filter env (Some (take len buf)) w
              in if dup then w
                 else
                   let w = sec_event env (0, 0, buf ! 2) (buf ! 4) 1 w;
                       w = mochad_dispatch_event env fd
                             (rfsec_short_event (buf ! 0) (buf ! 2) (findSecRemoteKeyName (buf ! 4))) w
                   in repeatRF env fd buf len w)
         else if chksum = 0xff then
           (if buf ! 4 XOR buf ! 5 \<noteq> 0xff \<and> buf ! 4 XOR buf ! 5 \<noteq> 0xfb then
              say_hex env fd buf len (say env fd (''Invalid checksum'' @ nl) w)
            else
              let (dup, w) = dup_filter env (Some (take len buf)) w
              in if dup then w
                 else
                   let (house, funcint, unit) = hufc_decode (buf ! 2) (buf ! 4);
                       fname = Funcname ! (funcint + 2)
                   in if funcint > 1 then
                        let w = mochad_dispatch_event env fd (rf_house_event (buf ! 0) house (Some fname)) w;
                            w = repeatRF env fd buf len w
                        in rf_relay pcl env fd buf len house (''PL '' @ [house] @ '' '' @ fname) w
                      else
                        let w = on_x10 (hua_add (house_index house) (unit - 1)) w;
                            w = on_x10 (if funcint \<noteq> 0 then hua_func_off (house_index house)
                                        else hua_func_on (house_index house)) w;
                            w = mochad_dispatch_event env fd
                                  (rf_houseunit_event (buf ! 0) house unit (Some fname)) w;
                            w = repeatRF env fd buf len w
                        in rf_relay pcl env fd buf len house
                             (''PL '' @ [house] @ fmt_d (int unit) @ '' '' @ fname) w)
         else say_hex env fd buf len
                (say env fd (''Invalid checksum 0x'' @ fmt_X 2 (unat chksum) @ nl) w))"

definition rf_security :: "env \<Rightarrow> int \<Rightarrow> byte list \<Rightarrow> nat \<Rightarrow> world \<Rightarrow> world" where
  "rf_security env fd buf len w =
     (case secaf_decode buf len of
        Inr (addr, funcint) \<Rightarrow>
          (let (dup, w) = dup_filter env (Some (take len buf)) w
           in if dup then w
              else
                let w = sec_event env addr funcint 0 w;
                    w = mochad_dispatch_event env fd
                          (rfsec_long_event (buf ! 0) addr (findSecEventName funcint)) w
                in repeatRF env fd buf len w)
      | Inl Bad_checksum \<Rightarrow> say env fd (''Invalid checksum'' @ nl) w
      | Inl Bad_parity \<Rightarrow> say env fd (''Invalid parity'' @ nl) w)"

definition decode_rf_with ::
  "(int \<Rightarrow> string \<Rightarrow> world \<Rightarrow> world) \<Rightarrow> env \<Rightarrow> int \<Rightarrow> byte list \<Rightarrow> nat \<Rightarrow> world \<Rightarrow> world" where
  "decode_rf_with pcl env fd buf0 len0 w =
     (let (buf, len) = skip_5d buf0 len0
      in if len < 5 then
           say_hex env fd buf len (say env fd (''too short '' @ fmt_d (int len) @ nl) w)
         else if len > 8 then
           say_hex env fd buf len (say env fd (''too long '' @ fmt_d (int len) @ nl) w)
         else if buf ! 1 = 0x14 then rf_camera env fd buf len w
         else if buf ! 1 = 0x20 then rf_standard pcl env fd buf len w
         else if buf ! 1 = 0x29 then rf_security env fd buf len w
         else say_hex env fd buf len
                (say env fd (''Not supported '' @ fmt_X 2 (unat (buf ! 1)) @ nl) w))"

section \<open>The entry point\<close>

text \<open>
  \<open>junk\<close> is the indeterminate initial content of the 9-byte array \<open>bufcm19a\<close>;
  \<open>drf\<close> is the RF decoder.
\<close>

definition cm15a_decode_with ::
  "(int \<Rightarrow> byte list \<Rightarrow> nat \<Rightarrow> world \<Rightarrow> world) \<Rightarrow> env \<Rightarrow> byte list \<Rightarrow> int \<Rightarrow> byte list \<Rightarrow> nat \<Rightarrow> world \<Rightarrow> world" where
  "cm15a_decode_with drf env junk fd buf len w =
     (if len < 4 then w
      else if Cm19a (w_usb w) \<and> len > 8 then w
      else
        let p = (if Cm19a (w_usb w) then 0x5d # take len buf @ drop (len + 1) junk else buf);
            len = (if Cm19a (w_usb w) then len + 1 else len);
            w = (if cfg_raw_data (e_config env) then on_net (mh_sockhexdump env fd p len) w else w)
        in if p ! 0 = 0xa5 then setClock env w
           else if p ! 0 = 0x55 then w
           else if p ! 0 = 0x5a then cm15a_decode_plc env fd p len w
           else if p ! 0 = 0x5b then w
           else if p ! 0 = 0x5d then drf fd p len w
           else w)"

end
