(* ===== verification/Diagnostics.thy ===== *)
theory Diagnostics
  imports Config
begin

text \<open>
  \<open>src/net/diagnostics.c\<close>: the JSON texts of the diagnostic commands. A builder is
  \<open>Some\<close> of the text when it fits the buffer, \<open>None\<close> for its \<open>-1\<close>.
\<close>

definition MOCHAD_REDUX_VERSION :: string where "MOCHAD_REDUX_VERSION = ''0.5.0''"
definition MOCHAD_UPSTREAM_BASE :: string where "MOCHAD_UPSTREAM_BASE = ''mochad 0.1.18''"

record mochad_diag_runtime =
  rt_uptime_seconds :: nat
  rt_usb_connected :: bool
  rt_controller :: string
  rt_endpoints_ready :: bool
  rt_transfers_ready :: bool
  rt_clients_main :: "64 word"
  rt_clients_xml :: "64 word"
  rt_clients_openremote :: "64 word"
  rt_usb_out_completed :: "64 word"
  rt_usb_ack_received :: "64 word"
  rt_usb_ack_timeout :: "64 word"
  rt_usb_unexpected_one_byte :: "64 word"
  rt_max_clients :: nat
  rt_next_client_id :: "32 word"
  rt_config :: mochad_config

definition checked_snprintf :: "nat \<Rightarrow> string \<Rightarrow> string option" where
  "checked_snprintf buffer_len txt =
     (if buffer_len = 0 then None else if length txt \<ge> buffer_len then None else Some txt)"

definition hello_text :: "string \<Rightarrow> string" where
  "hello_text upstream_base =
     ''{\"ok\":true,\"name\":\"mochad-redux\",\"daemon\":\"mochad-redux\",\"version\":\"''
     @ MOCHAD_REDUX_VERSION @ ''\",\"upstream_base\":\"'' @ upstream_base @ ''\",\"diagnostics\":true}''"

definition mochad_diag_json_hello :: "nat \<Rightarrow> string \<Rightarrow> string option" where
  "mochad_diag_json_hello n upstream_base = checked_snprintf n (hello_text upstream_base)"

definition capabilities_text :: "bool \<Rightarrow> string" where
  "capabilities_text raw =
     ''{\"ok\":true,\"commands\":[\"hello\",\"capabilities\",\"health\",\"clients\",\"config\",\"version\"],''
     @ ''\"legacy_commands\":[\"pl\",\"rf\",\"rfsec\",\"rfcam\",\"pt\",\"rftopl\",\"rftorf\",\"st\",\"getstatus\",\"getstatussec\"],''
     @ ''\"json\":true,\"single_line\":true,\"raw_data\":'' @ json_bool raw @ ''}''"

definition mochad_diag_json_capabilities :: "nat \<Rightarrow> bool \<Rightarrow> string option" where
  "mochad_diag_json_capabilities n raw = checked_snprintf n (capabilities_text raw)"

definition fmt_lu :: "64 word \<Rightarrow> string" where
  "fmt_lu w = fmt_u (unat w)"

definition health_text :: "string \<Rightarrow> mochad_diag_runtime \<Rightarrow> string" where
  "health_text upstream_base r =
     ''{\"ok\":true,\"name\":\"mochad-redux\",\"version\":\"'' @ MOCHAD_REDUX_VERSION
     @ ''\",\"upstream_base\":\"'' @ upstream_base @ ''\",\"uptime_seconds\":'' @ fmt_u (rt_uptime_seconds r)
     @ '',\"usb_connected\":'' @ json_bool (rt_usb_connected r)
     @ '',\"controller\":\"'' @ rt_controller r @ ''\",\"endpoints_ready\":'' @ json_bool (rt_endpoints_ready r)
     @ '',\"transfers_ready\":'' @ json_bool (rt_transfers_ready r)
     @ '',\"clients_total\":'' @ fmt_lu (rt_clients_main r + rt_clients_xml r + rt_clients_openremote r)
     @ '',\"usb_tx\":{\"out_completed\":'' @ fmt_lu (rt_usb_out_completed r)
     @ '',\"ack_received\":'' @ fmt_lu (rt_usb_ack_received r)
     @ '',\"ack_timeout\":'' @ fmt_lu (rt_usb_ack_timeout r)
     @ '',\"unexpected_one_byte\":'' @ fmt_lu (rt_usb_unexpected_one_byte r)
     @ ''},\"bind_address\":\"'' @ bind_address (rt_config r)
     @ ''\",\"listeners\":{\"main\":{\"enabled\":true,\"port\":'' @ fmt_d (server_port (rt_config r))
     @ ''},\"xml\":{\"enabled\":'' @ json_bool (xml_enabled (rt_config r))
     @ '',\"port\":'' @ fmt_d (xml_port (rt_config r))
     @ ''},\"openremote\":{\"enabled\":'' @ json_bool (openremote_enabled (rt_config r))
     @ '',\"port\":'' @ fmt_d (openremote_port (rt_config r)) @ ''}}}''"

definition mochad_diag_json_health :: "nat \<Rightarrow> string \<Rightarrow> mochad_diag_runtime \<Rightarrow> string option" where
  "mochad_diag_json_health n upstream_base r = checked_snprintf n (health_text upstream_base r)"

definition clients_text :: "mochad_diag_runtime \<Rightarrow> string" where
  "clients_text r =
     ''{\"ok\":true,\"clients\":{\"main\":'' @ fmt_lu (rt_clients_main r)
     @ '',\"xml\":'' @ fmt_lu (rt_clients_xml r) @ '',\"openremote\":'' @ fmt_lu (rt_clients_openremote r)
     @ '',\"total\":'' @ fmt_lu (rt_clients_main r + rt_clients_xml r + rt_clients_openremote r)
     @ ''},\"max_clients\":'' @ fmt_u (rt_max_clients r)
     @ '',\"next_client_id\":'' @ fmt_u (unat (rt_next_client_id r)) @ ''}''"

definition mochad_diag_json_clients :: "nat \<Rightarrow> mochad_diag_runtime \<Rightarrow> string option" where
  "mochad_diag_json_clients n r = checked_snprintf n (clients_text r)"

definition mochad_diag_json_config :: "nat \<Rightarrow> mochad_config \<Rightarrow> string option" where
  "mochad_diag_json_config n c = mochad_config_snprint_json n c"

definition version_text :: "string \<Rightarrow> string" where
  "version_text upstream_base =
     ''{\"ok\":true,\"name\":\"mochad-redux\",\"daemon\":\"mochad-redux\",\"version\":\"''
     @ MOCHAD_REDUX_VERSION @ ''\",\"upstream_base\":\"'' @ upstream_base @ ''\"}''"

definition mochad_diag_json_version :: "nat \<Rightarrow> string \<Rightarrow> string option" where
  "mochad_diag_json_version n upstream_base = checked_snprintf n (version_text upstream_base)"

section \<open>Lengths\<close>

lemma fmt_lu_length: "length (fmt_lu w) \<le> 20"
proof -
  have "unat w < 2 ^ 64" using unsigned_less [of w] by simp
  then have "unat w < 10 ^ Suc 19" by simp
  then show ?thesis unfolding fmt_lu_def fmt_u_def by (rule order_trans [OF length_num_str_le]) simp
qed

lemma fmt_u_length: "n < 10 ^ 20 \<Longrightarrow> length (fmt_u n) \<le> 20"
  unfolding fmt_u_def using length_num_str_le [of n 10 19] by simp

lemma health_length:
  assumes "config_ok (rt_config r)" "rt_uptime_seconds r < 10 ^ 20" "length (rt_controller r) \<le> 5"
  shows "length (health_text MOCHAD_UPSTREAM_BASE r) < 1000"
proof -
  have p: "length (fmt_d (server_port (rt_config r))) \<le> 5" "length (fmt_d (xml_port (rt_config r))) \<le> 5"
    "length (fmt_d (openremote_port (rt_config r))) \<le> 5" and b: "length (bind_address (rt_config r)) < 128"
    using assms(1) by (simp_all add: config_ok_def length_fmt_d_port MOCHAD_CONFIG_BIND_ADDRESS_LEN_def)
  show ?thesis
    using p b fmt_u_length [OF assms(2)] assms(3) fmt_lu_length [of "rt_usb_out_completed r"]
      fmt_lu_length [of "rt_usb_ack_received r"] fmt_lu_length [of "rt_usb_ack_timeout r"]
      fmt_lu_length [of "rt_usb_unexpected_one_byte r"]
      fmt_lu_length [of "rt_clients_main r + rt_clients_xml r + rt_clients_openremote r"]
      json_bool_length [of "rt_usb_connected r"] json_bool_length [of "rt_endpoints_ready r"]
      json_bool_length [of "rt_transfers_ready r"] json_bool_length [of "xml_enabled (rt_config r)"]
      json_bool_length [of "openremote_enabled (rt_config r)"]
    by (simp add: health_text_def MOCHAD_REDUX_VERSION_def MOCHAD_UPSTREAM_BASE_def)
qed

lemma clients_length: "rt_max_clients r = 32 \<Longrightarrow> length (clients_text r) < 300"
proof -
  assume m: "rt_max_clients r = 32"
  have i: "length (fmt_u (unat (rt_next_client_id r))) \<le> 20"
  proof (rule fmt_u_length)
    have "unat (rt_next_client_id r) < 2 ^ 32" using unsigned_less [of "rt_next_client_id r"] by simp
    then show "unat (rt_next_client_id r) < 10 ^ 20" by simp
  qed
  have "length (fmt_u 32) \<le> 20" by (rule fmt_u_length) simp
  then show ?thesis
    using m i fmt_lu_length [of "rt_clients_main r"] fmt_lu_length [of "rt_clients_xml r"]
      fmt_lu_length [of "rt_clients_openremote r"]
      fmt_lu_length [of "rt_clients_main r + rt_clients_xml r + rt_clients_openremote r"]
    by (simp add: clients_text_def)
qed

section \<open>Properties\<close>

text \<open>
  C40: With a valid configuration every diagnostic text fits the 1024-byte buffers it is built and
  sent in, with the newline and the terminator, so that no client is ever sent a truncated JSON.
\<close>

theorem diagnostics_fit:
  assumes "config_ok (rt_config r)" "rt_uptime_seconds r < 10 ^ 20" "length (rt_controller r) \<le> 5"
    "rt_max_clients r = 32"
  shows "\<forall>t \<in> {mochad_diag_json_hello 1024 MOCHAD_UPSTREAM_BASE, mochad_diag_json_version 1024 MOCHAD_UPSTREAM_BASE,
      mochad_diag_json_capabilities 1024 raw, mochad_diag_json_health 1024 MOCHAD_UPSTREAM_BASE r,
      mochad_diag_json_clients 1024 r, mochad_diag_json_config 1024 (rt_config r)}.
    \<exists>s. t = Some s \<and> length s + 1 < 1024"
  using health_length [OF assms(1-3)] clients_length [OF assms(4)] config_json_length [OF assms(1)]
    json_bool_length [of raw]
  by (simp add: mochad_diag_json_hello_def mochad_diag_json_version_def mochad_diag_json_capabilities_def
      mochad_diag_json_health_def mochad_diag_json_clients_def mochad_diag_json_config_def checked_snprintf_def
      mochad_config_snprint_json_def hello_text_def version_text_def capabilities_text_def
      MOCHAD_REDUX_VERSION_def MOCHAD_UPSTREAM_BASE_def)

definition runtime_zero :: mochad_diag_runtime where
  "runtime_zero = \<lparr>rt_uptime_seconds = 5, rt_usb_connected = True, rt_controller = ''CM15A'',
     rt_endpoints_ready = True, rt_transfers_ready = True, rt_clients_main = 1, rt_clients_xml = 0,
     rt_clients_openremote = 0, rt_usb_out_completed = 0, rt_usb_ack_received = 0, rt_usb_ack_timeout = 0,
     rt_usb_unexpected_one_byte = 0, rt_max_clients = 32, rt_next_client_id = 2,
     rt_config = mochad_config_defaults\<rparr>"

theorem diagnostics_fit_witness:
  "\<exists>s. mochad_diag_json_health 1024 MOCHAD_UPSTREAM_BASE runtime_zero = Some s \<and> length s + 1 < 1024"
  using diagnostics_fit [of runtime_zero True] config_ok_defaults by (simp add: runtime_zero_def)

end
