(* ===== verification/Encode.thy ===== *)
theory Encode
  imports Decode Diagnostics
begin

text \<open>
  \<open>src/x10/encode.c\<close> and the diagnostic commands of \<open>src/core/mochad.c\<close>: the tokenizer, the
  parsers of arguments, the transmit functions and the command processor, on the state of the
  whole daemon. A token list with a position is the list of the tokens not yet taken. The RF
  transmit commands run the RF decoder, which runs the command processor; the last section
  closes this recursion.
\<close>

section \<open>Tokens\<close>

definition MAX_COMMAND_TOKENS :: nat where "MAX_COMMAND_TOKENS = 16"

definition strupper :: "string \<Rightarrow> string" where
  "strupper buf = map (\<lambda>c. if islower c then toupper c else c) buf"

function tokenize_from :: "nat \<Rightarrow> string \<Rightarrow> string list option" where
  "tokenize_from argc s =
     (let p = dropWhile isspace s
      in if p = [] then Some []
         else if argc \<ge> MAX_COMMAND_TOKENS then None
         else map_option ((#) (takeWhile (\<lambda>c. \<not> isspace c) p))
                (tokenize_from (argc + 1) (dropWhile (\<lambda>c. \<not> isspace c) p)))"
  by pat_completeness auto
termination
proof (relation "measure (\<lambda>(argc, s). length s)", goal_cases)
  case 1
  show ?case by simp
next
  case (2 argc s p)
  then obtain c t where p: "p = c # t" "\<not> isspace c"
    by (metis hd_dropWhile list.collapse list.sel(1))
  have "length (dropWhile (\<lambda>c. \<not> isspace c) p) \<le> length t"
    using p length_dropWhile_le by auto
  moreover have "length p \<le> length s" unfolding 2(1) by (rule length_dropWhile_le)
  ultimately show ?case using p by simp
qed

declare tokenize_from.simps [simp del]

definition tokenize_command :: "string \<Rightarrow> string list option" where
  "tokenize_command line = tokenize_from 0 line"

section \<open>Arguments\<close>

definition parse_decimal_int :: "string \<Rightarrow> int \<Rightarrow> int \<Rightarrow> int option" where
  "parse_decimal_int txt lo hi =
     (if txt = [] then None
      else let r = strtol10 txt
           in if sr_erange r \<or> sr_rest r \<noteq> [] \<or> sr_value r < lo \<or> sr_value r > hi then None
              else Some (sr_value r))"

text \<open>\<open>digits < 0\<close> allows any number of digits.\<close>

definition parse_hex_ulong :: "string \<Rightarrow> int \<Rightarrow> int option" where
  "parse_hex_ulong txt digits =
     (if txt = [] then None
      else let p = (if take 2 txt = ''0X'' then drop 2 txt else txt)
           in if \<not> list_all isxdigit p then None
              else if digits \<ge> 0 \<and> int (length p) \<noteq> digits then None
              else let r = strtoul16 txt
                   in if sr_erange r \<or> sr_rest r \<noteq> [] then None else Some (sr_value r))"

text \<open>The bytes of at most eight tokens; \<open>None\<close> is \<open>-1\<close>.\<close>

fun gethexdata_from :: "nat \<Rightarrow> string list \<Rightarrow> byte list option" where
  "gethexdata_from n [] = Some []"
| "gethexdata_from n (parm # toks) =
     (if n \<ge> 8 then None
      else case parse_hex_ulong parm (-1) of
             None \<Rightarrow> None
           | Some v \<Rightarrow> if v > 0xff then None
                       else map_option ((#) (word_of_int v)) (gethexdata_from (n + 1) toks))"

definition gethexdata :: "string list \<Rightarrow> byte list option" where
  "gethexdata toks = gethexdata_from 0 toks"

fun index_from :: "nat \<Rightarrow> string list \<Rightarrow> string \<Rightarrow> nat option" where
  "index_from i [] s = None"
| "index_from i (x # xs) s = (if s = x then Some i else index_from (Suc i) xs s)"

text \<open>The getters return their value (\<open>None\<close> for \<open>-1\<close>) and the remaining tokens.\<close>

definition getfunc :: "string list \<Rightarrow> nat option \<times> string list" where
  "getfunc toks = (case toks of [] \<Rightarrow> (None, []) | command # rest \<Rightarrow> (index_from 0 funccommands command, rest))"

definition getrffunc :: "bool \<Rightarrow> string list \<Rightarrow> byte option \<times> string list" where
  "getrffunc rf8bitaddr toks =
     (case toks of
        [] \<Rightarrow> (None, [])
      | command # rest \<Rightarrow>
          (lookup_name (if rf8bitaddr then SecRemoteKeyNames8bitaddr else SecEventNameslongaddr) command, rest))"

definition getparam :: "string list \<Rightarrow> nat option \<times> string list" where
  "getparam toks =
     (case toks of [] \<Rightarrow> (None, []) | param # rest \<Rightarrow> (map_option nat (parse_decimal_int param 0 255), rest))"

definition ishouse :: "char \<Rightarrow> bool" where
  "ishouse h \<longleftrightarrow> 65 \<le> ord h \<and> ord h \<le> 80"

text \<open>House 0 to 15, and unit 0 to 15 when there is one.\<close>

definition getdeviceaddr :: "string list \<Rightarrow> (nat \<times> nat option) option \<times> string list" where
  "getdeviceaddr toks =
     (case toks of
        [] \<Rightarrow> (None, [])
      | parm # rest \<Rightarrow>
          (case parm of
             [] \<Rightarrow> (None, rest)
           | h # u \<Rightarrow>
               if length parm > 3 \<or> \<not> ishouse h then (None, rest)
               else if u = [] then (Some (ord h - 65, None), rest)
               else (case parse_decimal_int u 1 16 of
                       None \<Rightarrow> (None, rest)
                     | Some v \<Rightarrow> (Some (ord h - 65, Some (nat v - 1)), rest))))"

text \<open>Whether the address is an 8-bit one, and the address.\<close>

definition getrfaddr :: "string list \<Rightarrow> (bool \<times> 64 word) option \<times> string list" where
  "getrfaddr toks =
     (case toks of
        [] \<Rightarrow> (None, [])
      | parm # rest \<Rightarrow>
          if take 2 parm = ''0x'' \<or> take 2 parm = ''0X'' then
            (case parse_hex_ulong parm (-1) of
               None \<Rightarrow> (None, rest)
             | Some v \<Rightarrow> if v > 0xff then (None, rest) else (Some (True, word_of_int v), rest))
          else (case parse_hex_ulong parm 6 of
                  None \<Rightarrow> (None, rest)
                | Some v \<Rightarrow> (Some (False, word_of_int v), rest)))"

definition house_bits :: "string \<Rightarrow> 16 word" where
  "house_bits s = fold (\<lambda>c rc. if ishouse c then rc OR push_bit (ord c - 65) 1 else rc) s 0"

definition gethousecodes :: "string list \<Rightarrow> 16 word \<times> string list" where
  "gethousecodes toks =
     (case toks of
        [] \<Rightarrow> (0, [])
      | parm # rest \<Rightarrow>
          (if parm = [] then 0 else if parm = ''*'' then 0xFFFF else house_bits parm, rest))"

section \<open>Transmit functions\<close>

definition pl_tx_houseunit :: "env \<Rightarrow> nat \<Rightarrow> nat \<Rightarrow> world \<Rightarrow> world" where
  "pl_tx_houseunit env house unit w =
     transmit env (pl_houseunit_tx house unit)
       (cm15a_decode_plc env (-1) (pl_houseunit_rx house unit) 4 w)"

definition pl_tx_extended_code_1 :: "env \<Rightarrow> nat \<Rightarrow> nat \<Rightarrow> nat \<Rightarrow> nat \<Rightarrow> nat \<Rightarrow> world \<Rightarrow> world" where
  "pl_tx_extended_code_1 env house unit command subcmd param w =
     transmit env (pl_extended_tx house unit command subcmd param)
       (cm15a_decode_plc env (-1) (pl_extended_rx house unit command subcmd param) 7 w)"

definition pl_tx_housefunc :: "env \<Rightarrow> nat \<Rightarrow> nat \<Rightarrow> nat \<Rightarrow> world \<Rightarrow> world" where
  "pl_tx_housefunc env house func param w =
     transmit env (pl_housefunc_tx house func param)
       (cm15a_decode_plc env (-1) (pl_housefunc_rx house func param)
          (if func = FUNC_DIM \<or> func = FUNC_BRIGHT then 5 else if func = FUNC_EXTENDED_DIM then 7 else 4) w)"

text \<open>An RF frame is decoded and transmitted, on a CM19A without its first byte.\<close>

definition rf_transmit :: "(int \<Rightarrow> byte list \<Rightarrow> nat \<Rightarrow> world \<Rightarrow> world) \<Rightarrow> env \<Rightarrow> byte list \<Rightarrow> world \<Rightarrow> world" where
  "rf_transmit drf env frame w =
     (let w = drf (-1) frame (length frame) w
      in transmit env (if Cm19a (w_usb w) then tl frame else frame) w)"

definition rfsec_tx ::
  "(int \<Rightarrow> byte list \<Rightarrow> nat \<Rightarrow> world \<Rightarrow> world) \<Rightarrow> env \<Rightarrow> bool \<Rightarrow> 64 word \<Rightarrow> byte \<Rightarrow> world \<Rightarrow> world" where
  "rfsec_tx drf env rf8bitaddr rfaddr func w =
     rf_transmit drf env (if rf8bitaddr then rfsec_frame_short rfaddr func else rfsec_frame_long rfaddr func) w"

definition rf_tx_houseunitfunc ::
  "(int \<Rightarrow> byte list \<Rightarrow> nat \<Rightarrow> world \<Rightarrow> world) \<Rightarrow> env \<Rightarrow> nat \<Rightarrow> nat option \<Rightarrow> nat \<Rightarrow> world \<Rightarrow> world" where
  "rf_tx_houseunitfunc drf env house unit func w =
     (case rf_frame house (case unit of None \<Rightarrow> -1 | Some u \<Rightarrow> int u) func of
        None \<Rightarrow> w
      | Some frame \<Rightarrow> rf_transmit drf env frame w)"

section \<open>Diagnostics\<close>

definition uptime_seconds :: "env \<Rightarrow> net \<Rightarrow> nat \<times> net" where
  "uptime_seconds env n =
     (if e_start env = 0 then (0, n)
      else let (now, n) = read_time env n
           in if now < e_start env then (0, n) else (nat (now - e_start env), n))"

definition controller_model :: "usb_state \<Rightarrow> string" where
  "controller_model u = (if \<not> Devh u then ''none'' else if Cm19a u then ''CM19A'' else ''CM15A'')"

definition endpoints_ready :: "usb_state \<Rightarrow> bool" where
  "endpoints_ready u \<longleftrightarrow> InEndpoint u \<noteq> 0 \<and> OutEndpoint u \<noteq> 0"

definition transfers_ready :: "usb_state \<Rightarrow> bool" where
  "transfers_ready u \<longleftrightarrow>
     IntrIn_transfer u \<and> IntrOut_transfer u \<and> IntrIn_submitted u \<and> \<not> IntrIn_canceling u \<and> \<not> IntrOut_canceling u"

definition fill_diag_runtime :: "env \<Rightarrow> world \<Rightarrow> mochad_diag_runtime \<times> world" where
  "fill_diag_runtime env w =
     (let (up, n) = uptime_seconds env (w_net w); u = w_usb w
      in (\<lparr>rt_uptime_seconds = up, rt_usb_connected = Devh u, rt_controller = controller_model u,
           rt_endpoints_ready = endpoints_ready u, rt_transfers_ready = transfers_ready u,
           rt_clients_main = NClients n Main_client, rt_clients_xml = NClients n Xml_client,
           rt_clients_openremote = NClients n Or20_client,
           rt_usb_out_completed = UsbOutCompletedCount u, rt_usb_ack_received = UsbAckReceivedCount u,
           rt_usb_ack_timeout = UsbAckTimeoutCount u,
           rt_usb_unexpected_one_byte = UsbUnexpectedOneByteCount u,
           rt_max_clients = MAXCLISOCKETS, rt_next_client_id = NextClientId n, rt_config = e_config env\<rparr>,
          w\<lparr>w_net := n\<rparr>))"

definition tell :: "env \<Rightarrow> int \<Rightarrow> string \<Rightarrow> world \<Rightarrow> int \<times> world" where
  "tell env fd txt w =
     (let (r, n) = statusprintf env fd txt (w_net w) in (r, w\<lparr>w_net := n\<rparr>))"

definition send_diag_json :: "env \<Rightarrow> int \<Rightarrow> string option \<Rightarrow> world \<Rightarrow> int \<times> world" where
  "send_diag_json env fd json w =
     (case json of
        None \<Rightarrow> tell env fd (''{\"ok\":false,\"error\":\"diagnostic output too large\"}'' @ nl) w
      | Some s \<Rightarrow> tell env fd (s @ nl) w)"

definition mochad_diag_hello :: "env \<Rightarrow> int \<Rightarrow> world \<Rightarrow> int \<times> world" where
  "mochad_diag_hello env fd w = send_diag_json env fd (mochad_diag_json_hello 1024 MOCHAD_UPSTREAM_BASE) w"

definition mochad_diag_capabilities :: "env \<Rightarrow> int \<Rightarrow> world \<Rightarrow> int \<times> world" where
  "mochad_diag_capabilities env fd w =
     send_diag_json env fd (mochad_diag_json_capabilities 1024 (cfg_raw_data (e_config env))) w"

definition mochad_diag_health :: "env \<Rightarrow> int \<Rightarrow> world \<Rightarrow> int \<times> world" where
  "mochad_diag_health env fd w =
     (let (rt, w) = fill_diag_runtime env w
      in send_diag_json env fd (mochad_diag_json_health 1024 MOCHAD_UPSTREAM_BASE rt) w)"

definition mochad_diag_clients :: "env \<Rightarrow> int \<Rightarrow> world \<Rightarrow> int \<times> world" where
  "mochad_diag_clients env fd w =
     (let (rt, w) = fill_diag_runtime env w in send_diag_json env fd (mochad_diag_json_clients 1024 rt) w)"

definition mochad_diag_config :: "env \<Rightarrow> int \<Rightarrow> world \<Rightarrow> int \<times> world" where
  "mochad_diag_config env fd w = send_diag_json env fd (mochad_diag_json_config 1024 (e_config env)) w"

definition mochad_diag_version :: "env \<Rightarrow> int \<Rightarrow> world \<Rightarrow> int \<times> world" where
  "mochad_diag_version env fd w = send_diag_json env fd (mochad_diag_json_version 1024 MOCHAD_UPSTREAM_BASE) w"

section \<open>The status report\<close>

definition say_line :: "env \<Rightarrow> int \<Rightarrow> string option \<Rightarrow> world \<Rightarrow> world" where
  "say_line env fd line w = (case line of None \<Rightarrow> w | Some s \<Rightarrow> say env fd s w)"

definition show_sensor :: "env \<Rightarrow> int \<Rightarrow> x10secsensor \<Rightarrow> world \<Rightarrow> world" where
  "show_sensor env fd sen w =
     (let (now, n) = read_time env (w_net w) in say env fd (sensor_line now sen) (w\<lparr>w_net := n\<rparr>))"

definition hua_show :: "env \<Rightarrow> int \<Rightarrow> world \<Rightarrow> world" where
  "hua_show env fd w =
     (let w = say env fd (''Device selected'' @ nlcr) w;
          w = fold (\<lambda>h w. say_line env fd (selected_line (w_x10 w) h) w) [0..<16] w;
          w = say env fd (''Device status'' @ nlcr) w;
          w = fold (\<lambda>h w. say_line env fd (status_line (w_x10 w) h) w) [0..<16] w;
          w = say env fd (''Security sensor status'' @ nlcr) w;
          w = on_x10 sort_sensors w;
          w = fold (show_sensor env fd) (X10sensors (w_x10 w)) w
      in say env fd (''End status'' @ nlcr) w)"

section \<open>Commands\<close>

text \<open>
  A command either returns (\<open>Inl\<close>) or falls through to the check for unused arguments
  (\<open>Inr\<close>, with the tokens left).
\<close>

type_synonym outcome = "(int \<times> world) + (string list \<times> world)"

definition or20_ok :: "env \<Rightarrow> int \<Rightarrow> world \<Rightarrow> world" where
  "or20_ok env fd w = (if or20client env fd (w_net w) then snd (tell env fd (''ok'' @ nlcr) w) else w)"

definition default_param :: "nat \<Rightarrow> nat option \<Rightarrow> nat" where
  "default_param d p = (case p of None \<Rightarrow> d | Some v \<Rightarrow> v)"

definition command_pl_house :: "env \<Rightarrow> nat \<Rightarrow> string list \<Rightarrow> world \<Rightarrow> outcome" where
  "command_pl_house env house toks w =
     (let (func, toks) = getfunc toks
      in case func of
           None \<Rightarrow> Inl (-1, w)
         | Some func \<Rightarrow>
             if func = FUNC_EXTENDED_DIM then Inl (-1, w)
             else if func = FUNC_DIM \<or> func = FUNC_BRIGHT then
               (let (param, toks) = getparam toks
                in Inr (toks, pl_tx_housefunc env house func (default_param 1 param) w))
             else Inr (toks, pl_tx_housefunc env house func 0 w))"

definition command_pl_unit :: "env \<Rightarrow> nat \<Rightarrow> nat \<Rightarrow> string list \<Rightarrow> world \<Rightarrow> outcome" where
  "command_pl_unit env house unit toks w =
     (let (func, toks) = getfunc toks
      in case func of
           None \<Rightarrow> Inl (-1, pl_tx_houseunit env house unit w)
         | Some func \<Rightarrow>
             if func = FUNC_EXTENDED_DIM then
               (let (param, toks) = getparam toks
                in Inr (toks, pl_tx_extended_code_1 env house unit 3 1 (default_param 1 param) w))
             else if func = FUNC_DIM \<or> func = FUNC_BRIGHT then
               (let (param, toks) = getparam toks
                in Inr (toks, pl_tx_housefunc env house func (default_param 1 param)
                                (pl_tx_houseunit env house unit w)))
             else if func = FUNC_EXTENDED_CODE_1 then
               (let (extcommand, toks) = getparam toks;
                    (subcmd, toks) = getparam toks;
                    (data, toks) = getparam toks
                in Inr (toks, pl_tx_extended_code_1 env house unit (default_param 0 extcommand)
                                (default_param 0 subcmd) (default_param 0 data) w))
             else Inr (toks, pl_tx_housefunc env house func 0 (pl_tx_houseunit env house unit w)))"

definition command_pl :: "env \<Rightarrow> int \<Rightarrow> string list \<Rightarrow> world \<Rightarrow> outcome" where
  "command_pl env fd toks w =
     (let w = or20_ok env fd w; (addr, toks) = getdeviceaddr toks
      in case addr of
           None \<Rightarrow> Inl (-1, w)
         | Some (house, None) \<Rightarrow> command_pl_house env house toks w
         | Some (house, Some unit) \<Rightarrow> command_pl_unit env house unit toks w)"

definition command_rf ::
  "(int \<Rightarrow> byte list \<Rightarrow> nat \<Rightarrow> world \<Rightarrow> world) \<Rightarrow> env \<Rightarrow> int \<Rightarrow> string list \<Rightarrow> world \<Rightarrow> outcome" where
  "command_rf drf env fd toks w =
     (let w = or20_ok env fd w; (addr, toks) = getdeviceaddr toks
      in case addr of
           None \<Rightarrow> Inl (-1, w)
         | Some (house, unit) \<Rightarrow>
             (let (func, toks) = getfunc toks
              in case func of
                   None \<Rightarrow> Inl (-1, w)
                 | Some func \<Rightarrow> Inr (toks, rf_tx_houseunitfunc drf env house unit func w)))"

definition command_rfsec ::
  "(int \<Rightarrow> byte list \<Rightarrow> nat \<Rightarrow> world \<Rightarrow> world) \<Rightarrow> env \<Rightarrow> int \<Rightarrow> string list \<Rightarrow> world \<Rightarrow> outcome" where
  "command_rfsec drf env fd toks w =
     (let w = or20_ok env fd w; (addr, toks) = getrfaddr toks
      in case addr of
           None \<Rightarrow> Inl (-1, w)
         | Some (rf8bitaddr, rfaddr) \<Rightarrow>
             (let (func, toks) = getrffunc rf8bitaddr toks
              in case func of
                   None \<Rightarrow> Inl (-1, w)
                 | Some func \<Rightarrow> Inr (toks, rfsec_tx drf env rf8bitaddr rfaddr func w)))"

definition command_rfcam ::
  "(int \<Rightarrow> byte list \<Rightarrow> nat \<Rightarrow> world \<Rightarrow> world) \<Rightarrow> env \<Rightarrow> int \<Rightarrow> string list \<Rightarrow> world \<Rightarrow> outcome" where
  "command_rfcam drf env fd toks w =
     (let w = or20_ok env fd w; (addr, toks) = getdeviceaddr toks
      in case addr of
           None \<Rightarrow> Inl (-1, w)
         | Some (house, unit) \<Rightarrow>
             (case toks of
                [] \<Rightarrow> Inl (-1, w)
              | arg1 # toks \<Rightarrow>
                  if arg1 = [] then Inl (-1, w)
                  else let rfcamkey = findCamRemoteCommand arg1
                       in if rfcamkey > 0 then Inr (toks, rf_transmit drf env (rfcam_frame house rfcamkey) w)
                          else Inr (toks, say env fd (''Invalid command '' @ arg1 @ nlcr) w)))"

definition command_pt :: "env \<Rightarrow> int \<Rightarrow> string list \<Rightarrow> world \<Rightarrow> outcome" where
  "command_pt env fd toks w =
     (let w = or20_ok env fd w
      in case gethexdata toks of
           None \<Rightarrow> Inl (-1, w)
         | Some bytes \<Rightarrow> if bytes = [] then Inl (-1, w) else Inr ([], transmit env bytes w))"

definition command_rftopl :: "env \<Rightarrow> int \<Rightarrow> string list \<Rightarrow> world \<Rightarrow> outcome" where
  "command_rftopl env fd toks w =
     (let w = or20_ok env fd w; (bits, toks) = gethousecodes toks; w = w\<lparr>RfToPl16 := bits\<rparr>
      in Inr (toks, say env fd (''RfToPl '' @ fmt_X 4 (unat bits) @ nlcr) w))"

definition command_rftorf :: "env \<Rightarrow> int \<Rightarrow> string list \<Rightarrow> world \<Rightarrow> outcome" where
  "command_rftorf env fd toks w =
     (let w = or20_ok env fd w;
          report = (\<lambda>toks w. Inr (toks, say env fd (''RfToRf '' @ fmt_X 4 (unat (RfToRf16 w)) @ nlcr) w))
      in case toks of
           [] \<Rightarrow> report [] w
         | arg1 # toks \<Rightarrow>
             (case parse_decimal_int arg1 0 65535 of
                None \<Rightarrow> Inl (-1, w)
              | Some v \<Rightarrow> report toks (w\<lparr>RfToRf16 := word_of_int v\<rparr>)))"

definition command_st :: "env \<Rightarrow> int \<Rightarrow> string list \<Rightarrow> world \<Rightarrow> outcome" where
  "command_st env fd toks w =
     (case toks of
        [] \<Rightarrow> Inr ([], hua_show env fd w)
      | arg1 # toks \<Rightarrow> Inr (toks, if arg1 = ''0'' then on_x10 hua_sec_init w else hua_show env fd w))"

definition command_hex :: "env \<Rightarrow> int \<Rightarrow> string list \<Rightarrow> world \<Rightarrow> outcome" where
  "command_hex env fd toks w =
     (case toks of
        [] \<Rightarrow> Inl (-1, w)
      | arg # toks \<Rightarrow> Inl (0, say env fd (''Hex '' @ arg @ crnl) w))"

definition on_off :: "bool \<Rightarrow> string" where
  "on_off b = (if b then ''on'' else ''off'')"

definition command_getstatus :: "env \<Rightarrow> int \<Rightarrow> string list \<Rightarrow> world \<Rightarrow> outcome" where
  "command_getstatus env fd toks w =
     (let (addr, toks) = getdeviceaddr toks
      in case addr of
           Some (house, Some unit) \<Rightarrow>
             (case toks of
                arg1 # toks \<Rightarrow>
                  if arg1 = ''XDIM'' then
                    Inr (toks, snd (tell env fd (fmt_d (uint (hua_getstatus_xdim house unit (w_x10 w))) @ nlcr) w))
                  else Inr (toks, snd (tell env fd (''-1'' @ nlcr) w))
              | [] \<Rightarrow> Inr ([], snd (tell env fd (on_off (hua_getstatus house unit (w_x10 w) = ch1) @ nlcr) w)))
         | _ \<Rightarrow> Inl (-1, w))"

definition command_getstatussec :: "env \<Rightarrow> int \<Rightarrow> string list \<Rightarrow> world \<Rightarrow> outcome" where
  "command_getstatussec env fd toks w =
     (let (addr, toks) = getrfaddr toks
      in case addr of
           None \<Rightarrow> Inl (-1, w)
         | Some (rf8bitaddr, rfaddr) \<Rightarrow>
             Inr (toks, snd (tell env fd (on_off (hua_getstatus_sec rf8bitaddr rfaddr (w_x10 w) = 1) @ nlcr) w)))"

definition run_command ::
  "(int \<Rightarrow> byte list \<Rightarrow> nat \<Rightarrow> world \<Rightarrow> world) \<Rightarrow> env \<Rightarrow> int \<Rightarrow> string \<Rightarrow> string list \<Rightarrow> world \<Rightarrow> outcome" where
  "run_command drf env fd command toks w =
     (if command = ''HELLO'' then Inl (mochad_diag_hello env fd w)
      else if command = ''CAPABILITIES'' then Inl (mochad_diag_capabilities env fd w)
      else if command = ''HEALTH'' then Inl (mochad_diag_health env fd w)
      else if command = ''CLIENTS'' then Inl (mochad_diag_clients env fd w)
      else if command = ''CONFIG'' then Inl (mochad_diag_config env fd w)
      else if command = ''VERSION'' then Inl (mochad_diag_version env fd w)
      else if command = ''PL'' then command_pl env fd toks w
      else if command = ''RF'' then command_rf drf env fd toks w
      else if command = ''RFSEC'' then command_rfsec drf env fd toks w
      else if command = ''RFCAM'' then command_rfcam drf env fd toks w
      else if command = ''PT'' then command_pt env fd toks w
      else if command = ''RFTOPL'' then command_rftopl env fd toks w
      else if command = ''RFTORF'' then command_rftorf env fd toks w
      else if command = ''ST'' then command_st env fd toks w
      else if command = ''INFO'' then Inl (0, say env fd (''Info'' @ crnl) w)
      else if command = ''QUIT'' then Inl (0, say env fd (''Quit'' @ crnl) w)
      else if command = ''HELP'' then Inl (0, say env fd (''Help'' @ crnl) w)
      else if command = ''?'' then Inl (0, say env fd (''Help ?'' @ crnl) w)
      else if command = ''HEX'' then command_hex env fd toks w
      else if command = ''GETSTATUS'' then command_getstatus env fd toks w
      else if command = ''GETSTATUSSEC'' then command_getstatussec env fd toks w
      else Inl (-1, w))"

definition DOMAINPOLICY :: string where
  "DOMAINPOLICY =
     ''<?xml version=\"1.0\"?><!DOCTYPE cross-domain-policy SYSTEM \"http://www.adobe.com/xml/dtds/cross-domain-policy.dtd\"><cross-domain-policy><allow-access-from domain=\"*.chumby.com\" to-ports=\"1100\" /></cross-domain-policy>''
     @ [chr_nul]"

definition processcommandline_with ::
  "(int \<Rightarrow> byte list \<Rightarrow> nat \<Rightarrow> world \<Rightarrow> world) \<Rightarrow> env \<Rightarrow> int \<Rightarrow> string \<Rightarrow> world \<Rightarrow> int \<times> world" where
  "processcommandline_with drf env fd aLine w =
     (let line = strupper aLine
      in if line = ''<POLICY-FILE-REQUEST/>'' then (0, on_net (send_all env fd DOMAINPOLICY) w)
         else case tokenize_command line of
           None \<Rightarrow> (-1, say env fd (''Invalid command: too many arguments'' @ nlcr) w)
         | Some [] \<Rightarrow> (0, w)
         | Some (command # toks) \<Rightarrow>
             (case run_command drf env fd command toks w of
                Inl rw \<Rightarrow> rw
              | Inr (rest, w) \<Rightarrow>
                  if rest \<noteq> [] then (-1, say env fd (''Invalid command: unexpected argument'' @ nlcr) w)
                  else (0, w)))"

section \<open>Closing the recursion\<close>

text \<open>
  The RF decoder relays only \<open>PL\<close> commands, and these run no RF decoder. So the command
  processor the decoder calls may be given any decoder; here one that does nothing.
\<close>

definition relay_command :: "env \<Rightarrow> int \<Rightarrow> string \<Rightarrow> world \<Rightarrow> world" where
  "relay_command env fd txt w = snd (processcommandline_with (\<lambda>_ _ _ w. w) env fd txt w)"

definition cm15a_decode_rf :: "env \<Rightarrow> int \<Rightarrow> byte list \<Rightarrow> nat \<Rightarrow> world \<Rightarrow> world" where
  "cm15a_decode_rf env = decode_rf_with (relay_command env) env"

definition processcommandline :: "env \<Rightarrow> int \<Rightarrow> string \<Rightarrow> world \<Rightarrow> int \<times> world" where
  "processcommandline env = processcommandline_with (cm15a_decode_rf env) env"

definition cm15a_decode :: "env \<Rightarrow> byte list \<Rightarrow> int \<Rightarrow> byte list \<Rightarrow> nat \<Rightarrow> world \<Rightarrow> world" where
  "cm15a_decode env = cm15a_decode_with (cm15a_decode_rf env) env"

end
