(* ===== verification/Daemon_Steps.thy ===== *)
theory Daemon_Steps
  imports Encode
begin

text \<open>
  What the decoder and the command processor do to the daemon, as sequences of primitive steps:
  every call that changes state is a step, and each invariant of a component is lifted to the
  whole daemon by rule induction over the steps. The same analysis shows that the decoder and
  the command processor of Encode solve the mutually recursive equations of the code.
\<close>

section \<open>Closing the recursion\<close>

lemma strupper_append [simp]: "strupper (a @ b) = strupper a @ strupper b"
  by (simp add: strupper_def)

lemma tokenize_word:
  assumes "v \<noteq> []" "\<forall>c \<in> set v. \<not> isspace c" "argc < MAX_COMMAND_TOKENS"
  shows "tokenize_from argc (v @ CHR '' '' # r) = map_option ((#) v) (tokenize_from (argc + 1) r)"
proof -
  have sp: "isspace (CHR '' '')" by (simp add: isspace_def ord_def)
  have d: "dropWhile isspace (v @ CHR '' '' # r) = v @ CHR '' '' # r"
    using assms(1,2) by (cases v) simp_all
  have t: "takeWhile (\<lambda>c. \<not> isspace c) (v @ CHR '' '' # r) = v"
    "dropWhile (\<lambda>c. \<not> isspace c) (v @ CHR '' '' # r) = CHR '' '' # r"
    using assms(2) sp by (simp_all add: takeWhile_append dropWhile_append)
  have "tokenize_from k (CHR '' '' # r) = tokenize_from k r" for k
    using sp by (simp add: tokenize_from.simps [of k "CHR '' '' # r"] tokenize_from.simps [of k r])
  then show ?thesis
    using assms(1,3) by (simp add: tokenize_from.simps [of argc "v @ CHR '' '' # r"] d t Let_def del: dropWhile.simps)
qed

lemma strupper_PL: "strupper (''PL '' @ r) = ''PL'' @ CHR '' '' # strupper r"
  by (simp add: strupper_def islower_def ord_def)

lemma PL_plain: "\<forall>c \<in> set ''PL''. \<not> isspace c"
  by (simp add: isspace_def ord_def)

text \<open>A \<open>PL\<close> command runs no RF decoder.\<close>

lemma processcommandline_PL:
  "processcommandline_with drf env fd (''PL '' @ r) w =
     (case tokenize_from 1 (strupper r) of
        None \<Rightarrow> (-1, say env fd (''Invalid command: too many arguments'' @ nlcr) w)
      | Some toks \<Rightarrow>
          (case command_pl env fd toks w of
             Inl rw \<Rightarrow> rw
           | Inr (rest, w) \<Rightarrow>
               if rest \<noteq> [] then (-1, say env fd (''Invalid command: unexpected argument'' @ nlcr) w) else (0, w)))"
proof -
  have t: "tokenize_command (strupper (''PL '' @ r)) = map_option ((#) ''PL'') (tokenize_from 1 (strupper r))"
    unfolding strupper_PL tokenize_command_def
    by (subst tokenize_word [OF _ PL_plain]) (simp_all add: MAX_COMMAND_TOKENS_def)
  have p: "strupper (''PL '' @ r) \<noteq> ''<POLICY-FILE-REQUEST/>''"
    unfolding strupper_PL by simp
  have c: "run_command drf env fd ''PL'' toks w = command_pl env fd toks w" for toks
    by (simp add: run_command_def)
  show ?thesis
    unfolding processcommandline_with_def Let_def t if_not_P [OF p]
    by (cases "tokenize_from 1 (strupper r)") (simp_all only: option.map option.case list.case c)
qed

lemma snprintf_PL: "\<exists>r'. snprintf_text 80 (''PL '' @ r) = ''PL '' @ r'"
  by (simp add: snprintf_text_def)

lemma rf_relay_closed:
  "rf_relay (relay_command env) env fd buf len house (''PL '' @ r) w =
   rf_relay (\<lambda>fd txt w. snd (processcommandline env fd txt w)) env fd buf len house (''PL '' @ r) w"
proof -
  obtain r' where r': "snprintf_text 80 (''PL '' @ r) = ''PL '' @ r'" using snprintf_PL by blast
  show ?thesis
    unfolding rf_relay_def relay_command_def processcommandline_def r' processcommandline_PL ..
qed

lemma rf_standard_closed:
  "rf_standard (relay_command env) env fd buf len w =
   rf_standard (\<lambda>fd txt w. snd (processcommandline env fd txt w)) env fd buf len w"
  unfolding rf_standard_def Let_def append_assoc rf_relay_closed ..

text \<open>The model of the RF decoder satisfies the equation of the code.\<close>

lemma cm15a_decode_rf_closed:
  "cm15a_decode_rf env = decode_rf_with (\<lambda>fd txt w. snd (processcommandline env fd txt w)) env"
  by (intro ext) (simp only: cm15a_decode_rf_def decode_rf_with_def rf_standard_closed)

section \<open>Primitive steps\<close>

inductive daemon_step :: "env \<Rightarrow> world \<Rightarrow> world \<Rightarrow> bool" for env where
  step_transmit: "daemon_step env w (transmit env buf w)"
| step_say: "daemon_step env w (say env fd txt w)"
| step_tell: "fd \<noteq> -1 \<Longrightarrow> daemon_step env w (snd (tell env fd txt w))"
| step_or20: "daemon_step env w (or20_ok env fd w)"
| step_send_all: "daemon_step env w (on_net (send_all env fd txt) w)"
| step_time: "daemon_step env w (w\<lparr>w_net := snd (read_time env (w_net w))\<rparr>)"
| step_add: "h < 16 \<Longrightarrow> u < 16 \<Longrightarrow> daemon_step env w (on_x10 (hua_add h u) w)"
| step_xdim: "h < 16 \<Longrightarrow> u < 16 \<Longrightarrow> daemon_step env w (on_x10 (hua_setstatus_xdim h u d) w)"
| step_all_on: "h < 16 \<Longrightarrow> daemon_step env w (on_x10 (hua_func_all_on h) w)"
| step_all_off: "h < 16 \<Longrightarrow> daemon_step env w (on_x10 (hua_func_all_off h) w)"
| step_on: "h < 16 \<Longrightarrow> daemon_step env w (on_x10 (hua_func_on h) w)"
| step_off: "h < 16 \<Longrightarrow> daemon_step env w (on_x10 (hua_func_off h) w)"
| step_sec_init: "daemon_step env w (on_x10 hua_sec_init w)"
| step_sort: "daemon_step env w (on_x10 sort_sensors w)"
| step_sec_event: "daemon_step env w (on_x10 (hua_sec_event now a f a8) w)"
| step_dup: "length c \<le> 8 \<Longrightarrow> daemon_step env w (snd (dup_filter env (Some c) w))"
| step_masks: "daemon_step env w (w\<lparr>RfToPl16 := p, RfToRf16 := q\<rparr>)"

abbreviation daemon_steps :: "env \<Rightarrow> world \<Rightarrow> world \<Rightarrow> bool" where
  "daemon_steps env \<equiv> (daemon_step env)\<^sup>*\<^sup>*"

lemma steps_snoc: "daemon_steps env a b \<Longrightarrow> daemon_step env b c \<Longrightarrow> daemon_steps env a c"
  by (rule rtranclp.rtrancl_into_rtrancl)

text \<open>Each primitive after any steps; the collection drives the decomposition below.\<close>

named_theorems daemon_intros

lemma steps_say [daemon_intros]: "daemon_steps env a w \<Longrightarrow> daemon_steps env a (say env fd txt w)"
  by (erule steps_snoc) (rule step_say)

lemma steps_say_hex [daemon_intros]: "daemon_steps env a w \<Longrightarrow> daemon_steps env a (say_hex env fd buf len w)"
  using steps_say [of env a w fd "hexdump_text buf len 301 @ nl"]
  by (simp add: say_hex_def say_def sockhexdump_def [abs_def])

lemma steps_raw [daemon_intros]:
  "daemon_steps env a w \<Longrightarrow> daemon_steps env a (on_net (mh_sockhexdump env fd buf len) w)"
  using steps_say [of env a w fd "''Raw data received: '' @ hexdump_text buf len 301 @ nl"]
  by (simp add: say_def mh_sockhexdump_def [abs_def])

lemma steps_transmit [daemon_intros]: "daemon_steps env a w \<Longrightarrow> daemon_steps env a (transmit env buf w)"
  by (erule steps_snoc) (rule step_transmit)

lemma steps_tell [daemon_intros]:
  "daemon_steps env a w \<Longrightarrow> fd \<noteq> -1 \<Longrightarrow> daemon_steps env a (snd (tell env fd txt w))"
  by (erule steps_snoc) (rule step_tell)

lemma steps_or20 [daemon_intros]: "daemon_steps env a w \<Longrightarrow> daemon_steps env a (or20_ok env fd w)"
  by (erule steps_snoc) (rule step_or20)

lemma steps_send_all [daemon_intros]:
  "daemon_steps env a w \<Longrightarrow> daemon_steps env a (on_net (send_all env fd txt) w)"
  by (erule steps_snoc) (rule step_send_all)

lemma steps_dispatch [daemon_intros]:
  "daemon_steps env a w \<Longrightarrow> daemon_steps env a (mochad_dispatch_event env fd ev w)"
  by (simp add: mochad_dispatch_event_def daemon_intros split: option.split)

lemma steps_on_x10 [daemon_intros]:
  "daemon_steps env a w \<Longrightarrow> h < 16 \<Longrightarrow> u < 16 \<Longrightarrow> daemon_steps env a (on_x10 (hua_add h u) w)"
  "daemon_steps env a w \<Longrightarrow> h < 16 \<Longrightarrow> u < 16 \<Longrightarrow> daemon_steps env a (on_x10 (hua_setstatus_xdim h u d) w)"
  "daemon_steps env a w \<Longrightarrow> h < 16 \<Longrightarrow> daemon_steps env a (on_x10 (hua_func_all_on h) w)"
  "daemon_steps env a w \<Longrightarrow> h < 16 \<Longrightarrow> daemon_steps env a (on_x10 (hua_func_all_off h) w)"
  "daemon_steps env a w \<Longrightarrow> h < 16 \<Longrightarrow> daemon_steps env a (on_x10 (hua_func_on h) w)"
  "daemon_steps env a w \<Longrightarrow> h < 16 \<Longrightarrow> daemon_steps env a (on_x10 (hua_func_off h) w)"
  "daemon_steps env a w \<Longrightarrow> daemon_steps env a (on_x10 hua_sec_init w)"
  "daemon_steps env a w \<Longrightarrow> daemon_steps env a (on_x10 sort_sensors w)"
  "daemon_steps env a w \<Longrightarrow> daemon_steps env a (on_x10 (hua_sec_event now ad f a8) w)"
  by (auto elim: steps_snoc intro: daemon_step.intros)

lemma steps_time [daemon_intros]:
  "daemon_steps env a w \<Longrightarrow> daemon_steps env a (w\<lparr>w_net := snd (read_time env (w_net w))\<rparr>)"
  by (erule steps_snoc) (rule step_time)

lemma steps_dup [daemon_intros]:
  "daemon_steps env a w \<Longrightarrow> length c \<le> 8 \<Longrightarrow> daemon_steps env a (snd (dup_filter env (Some c) w))"
  by (erule steps_snoc) (rule step_dup)

lemma steps_masks [daemon_intros]:
  "daemon_steps env a w \<Longrightarrow> daemon_steps env a (w\<lparr>RfToPl16 := p\<rparr>)"
  "daemon_steps env a w \<Longrightarrow> daemon_steps env a (w\<lparr>RfToRf16 := q\<rparr>)"
proof -
  assume s: "daemon_steps env a w"
  show "daemon_steps env a (w\<lparr>RfToPl16 := p\<rparr>)"
    using steps_snoc [OF s step_masks [where w = w and p = p and q = "RfToRf16 w"]] by simp
  show "daemon_steps env a (w\<lparr>RfToRf16 := q\<rparr>)"
    using steps_snoc [OF s step_masks [where w = w and p = "RfToPl16 w" and q = q]] by simp
qed

section \<open>The decoder as steps\<close>

lemma steps_pl_function [daemon_intros]:
  "daemon_steps env a w \<Longrightarrow> h < 16 \<Longrightarrow> daemon_steps env a (on_x10 (pl_function f h) w)"
proof -
  assume a: "daemon_steps env a w" "h < 16"
  have "on_x10 (pl_function f h) w =
      (if f = 0 \<or> f = 6 then on_x10 (hua_func_all_off h) w else if f = 1 then on_x10 (hua_func_all_on h) w
       else if f = 2 \<or> f = 13 then on_x10 (hua_func_on h) w
       else if f = 3 \<or> f = 14 then on_x10 (hua_func_off h) w else w)"
    by (simp add: on_x10_def pl_function_def)
  with a show ?thesis by (simp add: daemon_intros)
qed

lemma uc_decode_unit [simp]: "uc_decode b - Suc 0 < 16"
  using uc_decode_range [of b] by arith

lemma steps_plc [daemon_intros]:
  assumes "daemon_steps env a w"
  shows "daemon_steps env a (cm15a_decode_plc env fd buf len w)"
  using assms
  by (auto simp: cm15a_decode_plc_def Let_def split: prod.splits intro!: daemon_intros
      dest: huc_decode_range hfc_decode_range)

lemma steps_repeatRF [daemon_intros]:
  "daemon_steps env a w \<Longrightarrow> daemon_steps env a (repeatRF env fd buf len w)"
  by (simp add: repeatRF_def Let_def daemon_intros)

lemma sec_event_steps: "daemon_steps env w (sec_event env ad f a8 w)"
proof (cases "list_ex (\<lambda>x. secaddr x = secaddr32 ad) (X10sensors (w_x10 w)) \<or>
    length (X10sensors (w_x10 w)) + 1 < X10SENSORS_MAX")
  case True
  then have "sec_event env ad f a8 w =
      on_x10 (hua_sec_event (fst (read_time env (w_net w))) ad f a8) (w\<lparr>w_net := snd (read_time env (w_net w))\<rparr>)"
    by (simp add: sec_event_def on_x10_def read_time_def)
  then show ?thesis by (simp add: daemon_intros)
qed (simp add: sec_event_def)

lemma steps_sec_event [daemon_intros]:
  "daemon_steps env a w \<Longrightarrow> daemon_steps env a (sec_event env ad f a8 w)"
  by (erule rtranclp_trans) (rule sec_event_steps)

lemma steps_setClock [daemon_intros]: "daemon_steps env a w \<Longrightarrow> daemon_steps env a (setClock env w)"
  using steps_time [of env a w]
  by (simp add: setClock_def Let_def read_time_def daemon_intros)

text \<open>The relay commands: their steps are those of \<open>PL\<close> commands.\<close>

lemma steps_pl_tx [daemon_intros]:
  assumes "daemon_steps env a w"
  shows "daemon_steps env a (pl_tx_houseunit env h u w)"
    "daemon_steps env a (pl_tx_housefunc env h f p w)"
    "daemon_steps env a (pl_tx_extended_code_1 env h u c s p w)"
  using assms by (simp_all add: pl_tx_houseunit_def pl_tx_housefunc_def pl_tx_extended_code_1_def daemon_intros)

lemma steps_dup_bind:
  assumes "dup_filter env (Some c) w = (b, w')" "daemon_steps env a w" "length c \<le> 8"
  shows "daemon_steps env a w'"
  using steps_dup [OF assms(2,3)] assms(1) by simp

lemma steps_camera [daemon_intros]:
  "daemon_steps env a w \<Longrightarrow> len \<le> 8 \<Longrightarrow> daemon_steps env a (rf_camera env fd buf len w)"
  by (auto simp: rf_camera_def intro!: daemon_intros elim!: steps_dup_bind split: option.split prod.split)

lemma steps_security [daemon_intros]:
  "daemon_steps env a w \<Longrightarrow> len \<le> 8 \<Longrightarrow> daemon_steps env a (rf_security env fd buf len w)"
  by (auto simp: rf_security_def Let_def intro!: daemon_intros elim!: steps_dup_bind
      split: sum.split secaf_error.split prod.split)

section \<open>The command processor as steps\<close>

definition out_world :: "outcome \<Rightarrow> world" where
  "out_world x = (case x of Inl rw \<Rightarrow> snd rw | Inr tw \<Rightarrow> snd tw)"

lemma out_world_simps [simp]: "out_world (Inl (r, w)) = w" "out_world (Inr (toks, w)) = w"
  by (simp_all add: out_world_def)

lemma steps_command_pl [daemon_intros]:
  assumes "daemon_steps env a w"
  shows "daemon_steps env a (out_world (command_pl env fd toks w))"
proof -
  have house: "daemon_steps env a (out_world (command_pl_house env h toks w))" if "daemon_steps env a w" for h toks w
    using that by (auto simp: command_pl_house_def intro!: daemon_intros split: prod.split option.split)
  have unit: "daemon_steps env a (out_world (command_pl_unit env h u toks w))" if "daemon_steps env a w" for h u toks w
    using that by (auto simp: command_pl_unit_def intro!: daemon_intros split: prod.split option.split)
  show ?thesis
    using assms by (auto simp: command_pl_def Let_def intro!: house unit daemon_intros split: prod.split option.split)
qed

lemma steps_relay [daemon_intros]:
  assumes "daemon_steps env a w"
  shows "daemon_steps env a (relay_command env fd (''PL '' @ r) w)"
proof -
  have "daemon_steps env a (snd (case x of Inl rw \<Rightarrow> rw | Inr (rest, w) \<Rightarrow>
      if rest \<noteq> [] then (-1, say env fd e w) else (0, w)))" if "daemon_steps env a (out_world x)" for x e
    using that by (auto simp: out_world_def intro: daemon_intros split: sum.split)
  with assms show ?thesis
    unfolding relay_command_def processcommandline_PL
    by (auto intro!: daemon_intros split: option.split)
qed

lemma steps_rf_relay [daemon_intros]:
  assumes "daemon_steps env a w"
  shows "daemon_steps env a (rf_relay (relay_command env) env fd buf len h (''PL '' @ r) w)"
proof -
  obtain r' where "snprintf_text 80 (''PL '' @ r) = ''PL '' @ r'" using snprintf_PL by blast
  with assms show ?thesis by (auto simp: rf_relay_def simp del: append.simps intro!: daemon_intros)
qed

lemma steps_standard [daemon_intros]:
  "daemon_steps env a w \<Longrightarrow> len \<le> 8 \<Longrightarrow> daemon_steps env a (rf_standard (relay_command env) env fd buf len w)"
  unfolding rf_standard_def Let_def append_assoc
  by (auto simp del: append.simps intro!: daemon_intros elim!: steps_dup_bind
      dest: hufc_decode_range split: prod.split)

lemma steps_decode_rf [daemon_intros]:
  "daemon_steps env a w \<Longrightarrow> daemon_steps env a (cm15a_decode_rf env fd buf len w)"
  by (auto simp: cm15a_decode_rf_def decode_rf_with_def intro!: daemon_intros split: prod.split)

lemma steps_decode [daemon_intros]:
  "daemon_steps env a w \<Longrightarrow> daemon_steps env a (cm15a_decode env junk fd buf len w)"
  by (auto simp: cm15a_decode_def cm15a_decode_with_def Let_def intro!: daemon_intros)

lemma steps_rf_transmit [daemon_intros]:
  "daemon_steps env a w \<Longrightarrow> daemon_steps env a (rf_transmit (cm15a_decode_rf env) env frame w)"
  by (simp add: rf_transmit_def Let_def daemon_intros)

lemma steps_diag:
  assumes "daemon_steps env a w" "fd \<noteq> -1"
  shows "daemon_steps env a (snd (send_diag_json env fd j w))" "daemon_steps env a (snd (fill_diag_runtime env w))"
  using assms steps_time [of env a w]
  by (auto simp: send_diag_json_def fill_diag_runtime_def uptime_seconds_def Let_def read_time_def
      intro!: daemon_intros split: option.split)

lemma steps_diag_commands [daemon_intros]:
  assumes a: "daemon_steps env a w" "fd \<noteq> -1"
  shows "daemon_steps env a (snd (mochad_diag_hello env fd w))"
    "daemon_steps env a (snd (mochad_diag_capabilities env fd w))"
    "daemon_steps env a (snd (mochad_diag_health env fd w))"
    "daemon_steps env a (snd (mochad_diag_clients env fd w))"
    "daemon_steps env a (snd (mochad_diag_config env fd w))"
    "daemon_steps env a (snd (mochad_diag_version env fd w))"
  using steps_diag [OF a] steps_diag(1) [OF steps_diag(2) [OF a] a(2)]
  by (simp_all add: mochad_diag_hello_def mochad_diag_capabilities_def mochad_diag_health_def
      mochad_diag_clients_def mochad_diag_config_def mochad_diag_version_def split_beta)

lemma steps_fold:
  assumes "\<And>x w. daemon_steps env a w \<Longrightarrow> daemon_steps env a (f x w)" "daemon_steps env a w"
  shows "daemon_steps env a (fold f xs w)"
  using assms(2) by (induction xs arbitrary: w) (simp_all add: assms(1))

lemma steps_show_sensor [daemon_intros]:
  "daemon_steps env a w \<Longrightarrow> daemon_steps env a (show_sensor env fd sen w)"
  using steps_time [of env a w] by (simp add: show_sensor_def read_time_def daemon_intros)

lemma steps_say_line [daemon_intros]:
  "daemon_steps env a w \<Longrightarrow> daemon_steps env a (say_line env fd l w)"
  by (simp add: say_line_def daemon_intros split: option.split)

lemma steps_show [daemon_intros]: "daemon_steps env a w \<Longrightarrow> daemon_steps env a (hua_show env fd w)"
  by (simp add: hua_show_def Let_def daemon_intros steps_fold)

lemma steps_commands [daemon_intros]:
  assumes "daemon_steps env a w"
  shows "daemon_steps env a (out_world (command_rf (cm15a_decode_rf env) env fd toks w))"
    "daemon_steps env a (out_world (command_rfsec (cm15a_decode_rf env) env fd toks w))"
    "daemon_steps env a (out_world (command_rfcam (cm15a_decode_rf env) env fd toks w))"
    "daemon_steps env a (out_world (command_pt env fd toks w))"
    "daemon_steps env a (out_world (command_rftopl env fd toks w))"
    "daemon_steps env a (out_world (command_rftorf env fd toks w))"
    "daemon_steps env a (out_world (command_st env fd toks w))"
    "daemon_steps env a (out_world (command_hex env fd toks w))"
  using assms
  by (auto simp: command_rf_def command_rfsec_def command_rfcam_def command_pt_def command_rftopl_def
      command_rftorf_def command_st_def command_hex_def rf_tx_houseunitfunc_def rfsec_tx_def Let_def
      intro!: daemon_intros split: prod.split option.split list.split)

lemma steps_status_commands [daemon_intros]:
  assumes "daemon_steps env a w" "fd \<noteq> -1"
  shows "daemon_steps env a (out_world (command_getstatus env fd toks w))"
    "daemon_steps env a (out_world (command_getstatussec env fd toks w))"
  using assms
  by (auto simp: command_getstatus_def command_getstatussec_def intro!: daemon_intros
      split: prod.split option.split list.split)

lemma steps_run_command [daemon_intros]:
  assumes "daemon_steps env a w" "fd \<noteq> -1"
  shows "daemon_steps env a (out_world (run_command (cm15a_decode_rf env) env fd command toks w))"
  using assms steps_diag_commands [OF assms]
  by (simp add: run_command_def out_world_def [of "Inl _"] daemon_intros)

lemma steps_processcommandline [daemon_intros]:
  assumes "daemon_steps env a w" "fd \<noteq> -1"
  shows "daemon_steps env a (snd (processcommandline env fd txt w))"
proof -
  have "daemon_steps env a (snd (case x of Inl rw \<Rightarrow> rw | Inr (rest, w) \<Rightarrow>
      if rest \<noteq> [] then (-1, say env fd e w) else (0, w)))" if "daemon_steps env a (out_world x)" for x e
    using that by (auto simp: out_world_def intro: daemon_intros split: sum.split)
  with assms show ?thesis
    unfolding processcommandline_def processcommandline_with_def Let_def
    by (auto intro!: daemon_intros split: option.split list.split)
qed

end
