(* ===== verification/Daemon_Invariants.thy ===== *)
theory Daemon_Invariants
  imports Daemon_Steps
begin

text \<open>
  The invariants of the components, lifted to the whole daemon by rule induction over the
  primitive steps, and the properties of every command and every report that follow.
\<close>

section \<open>The network part\<close>

text \<open>Output opens no socket.\<close>

lemma closed_del: "fd_port n x = None \<Longrightarrow> fd_port (snd (del_client fd n)) x = None"
  by (auto simp: del_client_def split: option.split)

lemma closed_send_all: "fd_port n x = None \<Longrightarrow> fd_port (snd (send_all env fd s n)) x = None"
  using send_all_impl_frame [of "e_sends env (n_send n)" fd s "n\<lparr>n_send := n_send n + 1\<rparr>"]
  by (auto simp: send_all_def split: option.split)

lemma closed_queue: "fd_port n x = None \<Longrightarrow> fd_port (snd (queue_client_bytes env fd s n)) x = None"
  by (auto simp: queue_client_bytes_def closed_send_all closed_del split: option.split)

lemma closed_table: "fd_port n x = None \<Longrightarrow> fd_port (send_table env k s n) x = None"
  unfolding send_table_def
  by (rule fold_invariant [where P = "\<lambda>n. fd_port n x = None" and Q = "\<lambda>_. True"]) (auto simp: closed_queue)

lemma closed_sockprintf: "fd_port n x = None \<Longrightarrow> fd_port (snd (sockprintf env fd txt n)) x = None"
  by (auto simp: sockprintf_def Let_def split_beta closed_queue closed_table)

lemma closed_statusprintf: "fd_port n x = None \<Longrightarrow> fd_port (snd (statusprintf env fd txt n)) x = None"
  by (simp add: statusprintf_def closed_queue)

section \<open>The duplicate table\<close>

definition dups_ok :: "dup_entry list \<Rightarrow> bool" where
  "dups_ok ds \<longleftrightarrow> length ds = 16 \<and> (\<forall>d \<in> set ds. length (rf_command d) \<le> 16)"

lemma dup_scan_ok: "dup_scan now c ds = (es, hit) \<Longrightarrow>
   length es = length ds \<and> (\<forall>d \<in> set es. rf_command d = [] \<or> rf_command d \<in> rf_command ` set ds)"
proof (induction ds arbitrary: es hit)
  case (Cons p ps)
  then show ?case by (cases "dup_scan now c ps") (auto simp: Let_def split: if_splits)
qed simp

lemma dups_ok_scan: "dup_scan now c ds = (es, hit) \<Longrightarrow> dups_ok ds \<Longrightarrow> dups_ok es"
  using dup_scan_ok [of now c ds es hit] unfolding dups_ok_def by force

lemma dups_ok_update: "dups_ok ds \<Longrightarrow> length (rf_command d) \<le> 16 \<Longrightarrow> dups_ok (ds[i := d])"
  by (auto simp: dups_ok_def dest!: set_update_subset_insert [THEN subsetD])

lemma dup_scan_hit: "dup_scan now c ds = (es, Some i) \<Longrightarrow> i < length es \<and> c = Some (rf_command (es ! i))"
proof (induction ds arbitrary: es i)
  case (Cons p ps)
  then show ?case by (cases "dup_scan now c ps") (auto simp: Let_def split: if_splits)
qed simp

lemma dups_ok_filter:
  assumes "dups_ok (w_dups w)" "length c \<le> 8" "dup_filter env (Some c) w = (b, w')"
  shows "dups_ok (w_dups w')"
proof -
  obtain es hit where s: "dup_scan (e_mono env (n_mono w)) (Some c) (w_dups w) = (es, hit)" by fastforce
  have es: "dups_ok es" by (rule dups_ok_scan [OF s assms(1)])
  show ?thesis
  proof (cases hit)
    case None
    with assms(3) s obtain i t where "w_dups w' = es[i := \<lparr>timems = t, rf_command = c\<rparr>]"
      by (auto simp: dup_filter_def get_timems_def)
    with es assms(2) show ?thesis by (simp add: dups_ok_update)
  next
    case (Some i)
    with s have "c = rf_command (es ! i)" using dup_scan_hit by fastforce
    with assms Some s es show ?thesis
      by (auto simp: dup_filter_def get_timems_def dups_ok_update split: if_splits)
  qed
qed

lemma dup_filter_frame:
  assumes "dup_filter env c w = (b, w')"
  shows "w_net w' = w_net w" "w_usb w' = w_usb w" "w_x10 w' = w_x10 w"
    "RfToPl16 w' = RfToPl16 w" "RfToRf16 w' = RfToRf16 w"
  using assms by (auto simp: dup_filter_def get_timems_def split: prod.splits option.splits if_splits)

section \<open>The invariant of the daemon\<close>

definition world_inv :: "world \<Rightarrow> bool" where
  "world_inv w \<longleftrightarrow> net_inv (w_net w) \<and> fd_port (w_net w) (-1) = None \<and> tx_inv (w_usb w) \<and>
     x10_wf (w_x10 w) \<and> dups_ok (w_dups w)"

lemma world_inv_net:
  "world_inv w \<Longrightarrow> net_inv (snd (f (w_net w))) \<Longrightarrow> fd_port (snd (f (w_net w))) (-1) = None \<Longrightarrow> world_inv (on_net f w)"
  by (simp add: world_inv_def on_net_def)

lemma world_inv_x10: "world_inv w \<Longrightarrow> x10_wf (f (w_x10 w)) \<Longrightarrow> world_inv (on_x10 f w)"
  by (simp add: world_inv_def on_x10_def)

lemma world_inv_tell: "world_inv w \<Longrightarrow> fd \<noteq> -1 \<Longrightarrow> world_inv (snd (tell env fd txt w))"
  by (auto simp: world_inv_def tell_def split_beta mochad_inv closed_statusprintf)

lemma x10_write_tx_inv: "tx_inv s \<Longrightarrow> tx_inv (snd (x10_write sub buf s))"
  using tx_step_conserves [OF step_write, of sub buf s "fst (x10_write sub buf s)"] by simp

lemma world_inv_step: "daemon_step env w w' \<Longrightarrow> world_inv w \<Longrightarrow> world_inv w'"
proof (induction rule: daemon_step.induct)
  case (step_transmit w buf)
  then show ?case by (simp add: world_inv_def transmit_def x10_write_tx_inv)
next
  case (step_say w fd s)
  then show ?case unfolding say_def
    by (intro world_inv_net) (auto simp: world_inv_def mochad_inv closed_sockprintf)
next
  case (step_or20 w fd)
  have "or20client env fd (w_net w) \<Longrightarrow> fd \<noteq> -1"
    using step_or20 by (auto simp: or20client_def world_inv_def)
  with step_or20 show ?case by (auto simp: or20_ok_def intro!: world_inv_tell)
next
  case (step_send_all w fd s)
  then show ?case by (intro world_inv_net) (auto simp: world_inv_def mochad_inv closed_send_all)
next
  case (step_dup c w)
  obtain b w' where d: "dup_filter env (Some c) w = (b, w')" by fastforce
  with step_dup dups_ok_filter [OF _ _ d] show ?case
    by (simp add: world_inv_def dup_filter_frame [OF d])
qed (auto intro!: world_inv_x10 world_inv_tell simp: mochad_inv, auto simp: world_inv_def mochad_inv)

lemma world_inv_steps: "daemon_steps env w w' \<Longrightarrow> world_inv w \<Longrightarrow> world_inv w'"
  by (induction rule: rtranclp_induct) (auto intro: world_inv_step)

text \<open>No step writes a cell outside the 16 by 16 tables.\<close>

lemma same_outside_step: "daemon_step env w w' \<Longrightarrow> same_outside (w_x10 w) (w_x10 w')"
proof (induction rule: daemon_step.induct)
  case (step_dup c w)
  obtain b w' where d: "dup_filter env (Some c) w = (b, w')" by fastforce
  then show ?case by (simp add: dup_filter_frame [OF d])
qed (auto simp: transmit_def say_def on_net_def tell_def or20_ok_def on_x10_def split_beta mochad_frame)

lemma same_outside_steps: "daemon_steps env w w' \<Longrightarrow> same_outside (w_x10 w) (w_x10 w')"
  by (induction rule: rtranclp_induct) (auto intro: same_outside_step same_outside_trans)

section \<open>Transmissions\<close>

text \<open>
  What a sequence of writes does to the transmitter: packets are appended, at most one of them
  goes out at once, and only when the transmitter was idle.
\<close>

definition tx_appends :: "usb_state \<Rightarrow> usb_state \<Rightarrow> bool" where
  "tx_appends s t \<longleftrightarrow>
     (\<exists>acc. wire t @ pending t = wire s @ pending s @ acc \<and> (\<forall>p \<in> set acc. length p \<le> 8)) \<and>
     (wire t = wire s \<or> (\<not> Outbusy s \<and> Outbusy t \<and> (\<exists>p. wire t = wire s @ [p]))) \<and>
     (Outbusy s \<longrightarrow> Outbusy t)"

lemma tx_appends_refl [simp]: "tx_appends s s"
  by (simp add: tx_appends_def)

lemma tx_appends_trans: "tx_appends s t \<Longrightarrow> tx_appends t u \<Longrightarrow> tx_appends s u"
proof -
  assume st: "tx_appends s t" and tu: "tx_appends t u"
  from st obtain a where a: "wire t @ pending t = wire s @ pending s @ a" "\<forall>p \<in> set a. length p \<le> 8"
    unfolding tx_appends_def by blast
  from tu obtain b where b: "wire u @ pending u = wire t @ pending t @ b" "\<forall>p \<in> set b. length p \<le> 8"
    unfolding tx_appends_def by blast
  have c: "wire u @ pending u = wire s @ pending s @ (a @ b)" "\<forall>p \<in> set (a @ b). length p \<le> 8"
    using a b by auto
  have d: "Outbusy s \<longrightarrow> Outbusy u" using st tu unfolding tx_appends_def by blast
  have "wire u = wire s \<or> (\<not> Outbusy s \<and> Outbusy u \<and> (\<exists>p. wire u = wire s @ [p]))"
    using st tu unfolding tx_appends_def by metis
  with c d show ?thesis unfolding tx_appends_def by blast
qed

lemma tx_appends_write: "tx_inv s \<Longrightarrow> tx_appends s (snd (x10_write sub buf s))"
proof -
  assume inv: "tx_inv s"
  obtain r t where w: "x10_write sub buf s = (r, t)" by fastforce
  show ?thesis
  proof (cases "Outbusy s")
    case True
    note b = x10_write_busy [OF inv True w]
    have "Outbusy t"
      using True w by (auto simp: x10_write_def add_x10out_def Let_def split: if_splits)
    with b show ?thesis by (cases "r < 0") (auto simp: w tx_appends_def not_less)
  next
    case False
    note i = x10_write_idle [OF inv False w]
    have p: "pending s = []" using inv False by (simp add: tx_inv_def)
    have "\<not> r < 0 \<Longrightarrow> Outbusy t" using i by (auto simp: tx_inv_def)
    with i p False show ?thesis by (cases "r < 0") (auto simp: w tx_appends_def)
  qed
qed

lemma tx_appends_step: "daemon_step env w w' \<Longrightarrow> tx_inv (w_usb w) \<Longrightarrow> tx_appends (w_usb w) (w_usb w')"
proof (induction rule: daemon_step.induct)
  case (step_transmit w buf)
  then show ?case by (simp add: transmit_def tx_appends_write)
next
  case (step_dup c w)
  obtain b w' where d: "dup_filter env (Some c) w = (b, w')" by fastforce
  then show ?case by (simp add: dup_filter_frame [OF d])
qed (auto simp: say_def on_net_def tell_def or20_ok_def on_x10_def split_beta)

lemma tx_appends_steps: "daemon_steps env w w' \<Longrightarrow> world_inv w \<Longrightarrow> tx_appends (w_usb w) (w_usb w')"
proof (induction rule: rtranclp_induct)
  case (step y z)
  have "world_inv y" by (rule world_inv_steps [OF step.hyps(1) step.prems])
  then have "tx_appends (w_usb y) (w_usb z)" using tx_appends_step [OF step.hyps(2)] by (simp add: world_inv_def)
  with step show ?case by (blast intro: tx_appends_trans)
qed simp

section \<open>Properties\<close>

text \<open>A daemon with an attached CM15A, one main client on descriptor 5 and nothing received yet.\<close>

definition world_one :: world where
  "world_one = \<lparr>w_net = net_one, w_usb = usb_ready, w_x10 = x10_zero,
     w_dups = replicate 16 \<lparr>timems = 0, rf_command = []\<rparr>, RfToPl16 = 0, RfToRf16 = 0, n_mono = 0\<rparr>"

lemma fd_port_one: "fd_port net_one x = None"
proof -
  have "fd_port (fold (\<lambda>p n. set_slot p (init_slot (slot n p)) n) ps n) x = fd_port n x" for ps n
    by (induction ps arbitrary: n) auto
  then have "fd_port net_zero x = None" by (simp add: net_zero_def init_client_def)
  then show ?thesis
    by (auto simp: net_one_def add_client_def next_client_id_def Let_def split: option.split)
qed

lemma world_inv_one [simp]: "world_inv world_one"
  by (simp add: world_inv_def world_one_def net_one_props fd_port_one dups_ok_def)

text \<open>
  C13: Whatever bytes the controller reports and whatever line a client sends, the daemon stays
  well-formed (client tables, transmitter, device and sensor tables, duplicate table), and no
  cell outside the 16 by 16 device tables is written.
\<close>

theorem daemon_wellformed:
  assumes "world_inv w" "fd \<noteq> -1"
    and "w' = cm15a_decode env junk fd' buf len w \<or> w' = snd (processcommandline env fd txt w)"
  shows "world_inv w' \<and> same_outside (w_x10 w) (w_x10 w')"
proof -
  have "daemon_steps env w w'" using assms(2,3) by (auto intro: daemon_intros)
  then show ?thesis using world_inv_steps same_outside_steps assms(1) by blast
qed

theorem daemon_wellformed_witness:
  "world_inv (snd (processcommandline env_zero 5 ''PL A1 ON'' world_one)) \<and>
   world_inv (cm15a_decode env_zero [] (-1) [0x5d, 0x20, 0x60, 0x9f, 0x00, 0xff, 0, 0, 0] 6 world_one)"
  by (intro conjI daemon_wellformed [OF world_inv_one _ disjI2 [OF refl], THEN conjunct1]
      daemon_wellformed [OF world_inv_one _ disjI1 [OF refl], of 5, THEN conjunct1]) simp_all

text \<open>
  C14: A report or a command only appends to the packets for the controller: nothing sent or
  queued is lost or reordered, every new packet has at most 8 bytes, and at most one goes out
  before the event loop runs again, and only if the transmitter was idle.
\<close>

theorem daemon_transmissions:
  assumes "world_inv w" "fd \<noteq> -1"
    and "w' = cm15a_decode env junk fd' buf len w \<or> w' = snd (processcommandline env fd txt w)"
  shows "\<exists>acc. wire (w_usb w') @ pending (w_usb w') = wire (w_usb w) @ pending (w_usb w) @ acc \<and>
    (\<forall>p \<in> set acc. length p \<le> 8) \<and>
    (wire (w_usb w') = wire (w_usb w) \<or> \<not> Outbusy (w_usb w) \<and> (\<exists>p. wire (w_usb w') = wire (w_usb w) @ [p]))"
proof -
  have "daemon_steps env w w'" using assms(2,3) by (auto intro: daemon_intros)
  from tx_appends_steps [OF this assms(1)] show ?thesis unfolding tx_appends_def by blast
qed

theorem daemon_transmissions_witness:
  "\<exists>acc. wire (w_usb (snd (processcommandline env_zero 5 ''PL A1 ON'' world_one))) @
     pending (w_usb (snd (processcommandline env_zero 5 ''PL A1 ON'' world_one))) = acc \<and>
     (\<forall>p \<in> set acc. length p \<le> 8)"
proof -
  have "wire (w_usb world_one) = []" "pending (w_usb world_one) = []"
    by (simp_all add: world_one_def usb_ready_def usb_init_def pending_def pending_count_def OUTPTRSSIZE_def)
  with daemon_transmissions [OF world_inv_one, of 5 _ env_zero _ _ _ _ "''PL A1 ON''", OF _ disjI2 [OF refl]]
  show ?thesis by auto
qed

end
