(* ===== verification/Commands.thy ===== *)
theory Commands
  imports Daemon_Invariants
begin

text \<open>
  What commands mean: the tokenizer against the words of a line, the parsers of arguments on
  the texts that \<open>printf\<close> makes of their values, and what the commands built from them do to
  the devices and to the controller.
\<close>

section \<open>Digits\<close>

lemma digits_val_snoc: "digits_val b (ds @ [c]) = b * digits_val b ds + digit_val c"
  by (simp add: digits_val_def)

lemma digit_char_props:
  assumes "d < 16"
  shows "digit_val (digit_char d) = d \<and> isxdigit (digit_char d) \<and> \<not> islower (digit_char d) \<and>
     (d < 10 \<longrightarrow> isdigit (digit_char d))"
proof -
  have "\<forall>d < 16. digit_val (digit_char d) = d \<and> isxdigit (digit_char d) \<and> \<not> islower (digit_char d) \<and>
     (d < 10 \<longrightarrow> isdigit (digit_char d))"
    unfolding all_less_16 by (simp add: digit_char_def digit_val_def isxdigit_def isdigit_def islower_def ord_def)
  with assms show ?thesis by blast
qed

lemma num_str_props:
  assumes "2 \<le> b" "b \<le> 16"
  shows "digits_val b (num_str b n) = n" "\<forall>c \<in> set (num_str b n). isxdigit c \<and> \<not> islower c"
    "b = 10 \<Longrightarrow> \<forall>c \<in> set (num_str b n). isdigit c"
proof -
  have "digits_val b (num_str b n) = n \<and> (\<forall>c \<in> set (num_str b n). isxdigit c \<and> \<not> islower c \<and> (b = 10 \<longrightarrow> isdigit c))"
  proof (induction n rule: less_induct)
    case (less n)
    show ?case
    proof (cases "n < b")
      case True
      with digit_char_props [of n] assms show ?thesis by (simp add: num_str_less digits_val_def)
    next
      case False
      have less_n: "n div b < n" and m: "n mod b < b" using assms False by simp_all
      note IH = less.IH [OF less_n]
      have d: "digit_val (digit_char (n mod b)) = n mod b" "isxdigit (digit_char (n mod b))"
        "\<not> islower (digit_char (n mod b))" "n mod b < 10 \<Longrightarrow> isdigit (digit_char (n mod b))"
        using digit_char_props [of "n mod b"] m assms(2) by auto
      have s: "num_str b n = num_str b (n div b) @ [digit_char (n mod b)]"
        using assms(1) False by (simp add: num_str_step)
      have "b = 10 \<Longrightarrow> isdigit (digit_char (n mod b))" using d(4) m by blast
      then have "\<forall>c \<in> set (num_str b n). isxdigit c \<and> \<not> islower c \<and> (b = 10 \<longrightarrow> isdigit c)"
        unfolding s using IH d(2,3) by (simp only: set_append list.set ball_Un) blast
      moreover have "digits_val b (num_str b n) = n"
        unfolding s digits_val_snoc d(1) using IH by (simp only: mult_div_mod_eq)
      ultimately show ?thesis by blast
    qed
  qed
  then show "digits_val b (num_str b n) = n" "\<forall>c \<in> set (num_str b n). isxdigit c \<and> \<not> islower c"
    "b = 10 \<Longrightarrow> \<forall>c \<in> set (num_str b n). isdigit c" by auto
qed

lemma fmt_d_nat: "fmt_d (int n) = num_str 10 n"
  by (simp add: fmt_d_def)

lemma isxdigit_plain: "isxdigit c \<Longrightarrow> \<not> isspace c \<and> c \<noteq> CHR ''-'' \<and> c \<noteq> CHR ''+'' \<and> c \<noteq> CHR ''X'' \<and> c \<noteq> CHR ''x''"
  by (auto simp: isxdigit_def isdigit_def isspace_def ord_def)

lemma strupper_plain: "\<forall>c \<in> set s. \<not> islower c \<Longrightarrow> strupper s = s"
  by (induction s) (auto simp: strupper_def)

section \<open>Parsers of numbers\<close>

lemma parse_decimal_num:
  assumes "int n \<le> LONG_MAX"
  shows "parse_decimal_int (num_str 10 n) lo hi = (if lo \<le> int n \<and> int n \<le> hi then Some (int n) else None)"
  using strtol10_digits [OF num_str_nonempty num_str_props(3), of 10 n] num_str_props(1) [of 10 n] assms
  by (auto simp: parse_decimal_int_def Let_def)

lemma parse_decimal_range: "parse_decimal_int s lo hi = Some v \<Longrightarrow> lo \<le> v \<and> v \<le> hi"
  by (auto simp: parse_decimal_int_def Let_def split: if_splits)

lemma strtoul16_digits:
  assumes "v \<noteq> []" "\<forall>c \<in> set v. isxdigit c" "int (digits_val 16 v) \<le> ULONG_MAX"
  shows "strtoul16 v = \<lparr>sr_value = int (digits_val 16 v), sr_erange = False, sr_converted = True, sr_rest = []\<rparr>"
proof -
  from assms isxdigit_plain have v: "dropWhile isspace v = v" "split_sign v = (False, v)" "strip_0x v = v"
    by (cases v; auto simp: strip_0x_def split: list.split)+
  from assms(2) have d: "takeWhile isxdigit v = v" "dropWhile isxdigit v = []"
    by (auto simp: takeWhile_eq_all_conv)
  show ?thesis using assms(1,3) by (simp add: strtoul16_def v d)
qed

lemma parse_hex_digits:
  assumes "v \<noteq> []" "\<forall>c \<in> set v. isxdigit c" "int (digits_val 16 v) \<le> ULONG_MAX"
  shows "parse_hex_ulong v k = (if k \<ge> 0 \<and> int (length v) \<noteq> k then None else Some (int (digits_val 16 v)))"
proof -
  have "take 2 v \<noteq> ''0X''"
  proof
    assume t: "take 2 v = ''0X''"
    then have "CHR ''X'' \<in> set v" using set_take_subset [of 2 v] by auto
    with assms(2) isxdigit_plain show False by blast
  qed
  with assms strtoul16_digits [OF assms] show ?thesis
    by (simp add: parse_hex_ulong_def list_all_iff)
qed

lemma digits_val_pad0: "digits_val 16 (pad0 w s) = digits_val 16 s"
proof -
  have "foldl (\<lambda>n c. 16 * n + digit_val c) 0 (replicate k CHR ''0'' @ s) = foldl (\<lambda>n c. 16 * n + digit_val c) 0 s" for k
    by (induction k) (simp_all add: digit_val_def isdigit_def ord_def)
  then show ?thesis by (simp add: digits_val_def pad0_def)
qed

lemma fmt_X_props:
  "digits_val 16 (fmt_X w n) = n" "\<forall>c \<in> set (fmt_X w n). isxdigit c \<and> \<not> islower c" "fmt_X w n \<noteq> []"
  using num_str_props [of 16 n]
  by (auto simp: fmt_X_def digits_val_pad0) (auto simp: pad0_def isxdigit_def isdigit_def islower_def ord_def)

section \<open>The tokenizer\<close>

text \<open>The reference: the line split at every white space, without the empty pieces.\<close>

fun pieces :: "string \<Rightarrow> string list" where
  "pieces [] = [[]]"
| "pieces (c # s) =
     (case pieces s of
        [] \<Rightarrow> [[c]]
      | p # ps \<Rightarrow> if isspace c then [] # p # ps else (c # p) # ps)"

definition words :: "string \<Rightarrow> string list" where
  "words s = filter (\<lambda>v. v \<noteq> []) (pieces s)"

lemma pieces_nonempty [simp]: "pieces s \<noteq> []"
  by (cases s) (simp_all split: list.split)

lemma pieces_space: "isspace c \<Longrightarrow> pieces (c # s) = [] # pieces s"
  by (auto split: list.split)

lemma pieces_word: "\<forall>c \<in> set v. \<not> isspace c \<Longrightarrow> pieces (v @ s) = (v @ hd (pieces s)) # tl (pieces s)"
  by (induction v) simp_all

lemma words_space: "words (dropWhile isspace s) = words s"
  by (induction s) (simp_all add: words_def pieces_space del: pieces.simps(2))

lemma words_word:
  assumes "v \<noteq> []" "\<forall>c \<in> set v. \<not> isspace c" "s = [] \<or> isspace (hd s)"
  shows "words (v @ s) = v # words s"
  using assms pieces_word [OF assms(2), of s] by (cases s) (simp_all add: words_def pieces_space del: pieces.simps(2))

lemma tokenize_from_words:
  "argc \<le> MAX_COMMAND_TOKENS \<Longrightarrow>
     tokenize_from argc s = (if argc + length (words s) \<le> MAX_COMMAND_TOKENS then Some (words s) else None)"
proof (induction argc s rule: tokenize_from.induct)
  case (1 argc s)
  let ?p = "dropWhile isspace s"
  let ?v = "takeWhile (\<lambda>c. \<not> isspace c) ?p" and ?r = "dropWhile (\<lambda>c. \<not> isspace c) ?p"
  show ?case
  proof (cases "?p = []")
    case True
    with words_space [of s] have "words s = []" by (simp add: words_def)
    with True 1(2) show ?thesis by (simp add: tokenize_from.simps [of argc s])
  next
    case False
    then have "\<not> isspace (hd ?p)" by (rule hd_dropWhile)
    with False have v: "?v \<noteq> []" by (cases ?p) auto
    have "?r = [] \<or> isspace (hd ?r)" using hd_dropWhile [of "\<lambda>c. \<not> isspace c" ?p] by blast
    moreover have "\<forall>c \<in> set ?v. \<not> isspace c" by (auto dest: set_takeWhileD)
    ultimately have w: "words s = ?v # words ?r"
      using words_word [OF v] words_space [of s] by (metis takeWhile_dropWhile_id)
    show ?thesis
    proof (cases "argc \<ge> MAX_COMMAND_TOKENS")
      case True
      with False w show ?thesis by (simp add: tokenize_from.simps [of argc s] Let_def)
    next
      case less: False
      with 1(1) [OF refl False less] have "tokenize_from (argc + 1) ?r =
          (if argc + 1 + length (words ?r) \<le> MAX_COMMAND_TOKENS then Some (words ?r) else None)" by simp
      with False less w show ?thesis by (simp add: tokenize_from.simps [of argc s] Let_def)
    qed
  qed
qed

text \<open>Lines made of words.\<close>

definition join :: "string list \<Rightarrow> string" where
  "join ws = concat (map (\<lambda>v. v @ '' '') ws)"

definition plain_word :: "string \<Rightarrow> bool" where
  "plain_word v \<longleftrightarrow> v \<noteq> [] \<and> (\<forall>c \<in> set v. \<not> isspace c)"

lemma words_join: "\<forall>v \<in> set ws. plain_word v \<Longrightarrow> words (join ws) = ws"
proof (induction ws)
  case Nil
  then show ?case by (simp add: join_def words_def)
next
  case (Cons v ws)
  have sp: "isspace (CHR '' '')" by (simp add: isspace_def)
  have "words (CHR '' '' # join ws) = words (join ws)"
    using sp by (simp add: words_def pieces_space del: pieces.simps(2))
  moreover have "words (v @ (CHR '' '' # join ws)) = v # words (CHR '' '' # join ws)"
    using Cons.prems sp by (intro words_word) (auto simp: plain_word_def)
  ultimately show ?case using Cons by (simp add: join_def)
qed

section \<open>Parsers of addresses and functions\<close>

lemma getdeviceaddr_unit:
  assumes "h < 16" "u < 16"
  shows "getdeviceaddr ((chr (65 + h) # num_str 10 (u + 1)) # toks) = (Some (h, Some u), toks)"
proof -
  have "length (num_str 10 (u + 1)) \<le> 2" using assms length_num_str_le [of "u + 1" 10 1] by simp
  moreover have "parse_decimal_int (num_str 10 (u + 1)) 1 16 = Some (int (u + 1))"
    using parse_decimal_num [of "u + 1"] assms by (simp add: LONG_MAX_def)
  ultimately show ?thesis using assms by (simp add: getdeviceaddr_def ishouse_def)
qed

lemma getdeviceaddr_house: "h < 16 \<Longrightarrow> getdeviceaddr ([chr (65 + h)] # toks) = (Some (h, None), toks)"
  by (simp add: getdeviceaddr_def ishouse_def)

lemma getdeviceaddr_range:
  assumes "getdeviceaddr toks = (Some (h, u), rest)"
  shows "h < 16 \<and> (\<forall>v. u = Some v \<longrightarrow> v < 16) \<and> rest = tl toks \<and> hd (hd toks) = chr (65 + h)"
proof -
  have r: "parse_decimal_int s 1 16 = Some v \<Longrightarrow> nat v - Suc 0 < 16" for s v
    using parse_decimal_range [of s 1 16 v] by auto
  show ?thesis using assms r
    by (auto simp: getdeviceaddr_def ishouse_def split: list.splits if_splits option.splits)
qed

lemma index_from_nth: "distinct xs \<Longrightarrow> i < length xs \<Longrightarrow> index_from k xs (xs ! i) = Some (k + i)"
proof (induction xs arbitrary: i k)
  case (Cons x xs)
  then show ?case by (cases i) auto
qed simp

lemma index_from_sound: "index_from k xs s = Some j \<Longrightarrow> k \<le> j \<and> j < k + length xs \<and> xs ! (j - k) = s"
  by (induction xs arbitrary: k) (fastforce simp: nth_Cons' split: if_splits)+

lemma distinct_funccommands: "distinct funccommands" "length funccommands = 17"
  by (simp_all add: funccommands_def)

lemma getfunc_name: "f < 17 \<Longrightarrow> getfunc (funccommands ! f # toks) = (Some f, toks)"
  using index_from_nth [of funccommands f 0] by (simp add: getfunc_def distinct_funccommands)

lemma getfunc_sound: "getfunc toks = (Some f, rest) \<Longrightarrow> f < 17 \<and> toks = funccommands ! f # rest"
  using index_from_sound [of 0 funccommands "hd toks" f]
  by (auto simp: getfunc_def distinct_funccommands split: list.splits)

lemma house_bits_from:
  "h < 16 \<Longrightarrow> bit (fold (\<lambda>c rc. if ishouse c then rc OR push_bit (ord c - 65) 1 else rc) s rc :: 16 word) h \<longleftrightarrow>
     bit rc h \<or> chr (65 + h) \<in> set s"
proof (induction s arbitrary: rc)
  case (Cons c s)
  let ?rc = "if ishouse c then rc OR push_bit (ord c - 65) 1 else rc"
  have "ishouse (chr (65 + h))" using Cons.prems by (simp add: ishouse_def)
  moreover have "ishouse c \<Longrightarrow> ord c - 65 = h \<Longrightarrow> c = chr (65 + h)"
    by (metis chr_ord ishouse_def le_add_diff_inverse)
  ultimately have "bit ?rc h \<longleftrightarrow> bit rc h \<or> c = chr (65 + h)"
    using Cons.prems by (cases "c = chr (65 + h)") (auto simp: bit_simps bit_1_iff)
  with Cons.IH [OF Cons.prems, of ?rc] show ?case
    by (simp only: fold_simps comp_def list.set insert_iff) blast
qed simp

lemma house_bits_bit: "h < 16 \<Longrightarrow> bit (house_bits s) h \<longleftrightarrow> chr (65 + h) \<in> set s"
  by (simp add: house_bits_def house_bits_from)

lemma parse_hex_fmt: "n < 2 ^ 64 \<Longrightarrow> parse_hex_ulong (fmt_X w n) (-1) = Some (int n)"
  using parse_hex_digits [of "fmt_X w n" "-1"] fmt_X_props [of w n]
  by (simp add: ULONG_MAX_def)

lemma gethexdata_bytes:
  "n + length bs \<le> 8 \<Longrightarrow> gethexdata_from n (map (\<lambda>b. fmt_X 2 (unat b)) bs) = Some bs"
proof (induction bs arbitrary: n)
  case (Cons b bs)
  have "unat b < 256" using unsigned_less [of b] by simp
  then have "parse_hex_ulong (fmt_X 2 (unat b)) (-1) = Some (uint b)"
    using parse_hex_fmt [of "unat b" 2] by simp
  moreover have "uint b < 2 ^ LENGTH(8)" by (rule unsigned_less)
  ultimately show ?case using Cons by simp
qed simp

end
