(* ===== verification/End_To_End.thy ===== *)
theory End_To_End
  imports Commands
begin

text \<open>
  From a command line to the devices and the packets: what the commands do as a whole.
\<close>

section \<open>Frames\<close>

lemma say_frame [simp]:
  "w_usb (say env fd s w) = w_usb w" "w_x10 (say env fd s w) = w_x10 w" "w_dups (say env fd s w) = w_dups w"
  "RfToPl16 (say env fd s w) = RfToPl16 w" "RfToRf16 (say env fd s w) = RfToRf16 w"
  by (simp_all add: say_def on_net_def)

lemma dispatch_frame [simp]:
  "w_usb (mochad_dispatch_event env fd ev w) = w_usb w" "w_x10 (mochad_dispatch_event env fd ev w) = w_x10 w"
  "w_dups (mochad_dispatch_event env fd ev w) = w_dups w"
  "RfToPl16 (mochad_dispatch_event env fd ev w) = RfToPl16 w"
  "RfToRf16 (mochad_dispatch_event env fd ev w) = RfToRf16 w"
  by (simp_all add: mochad_dispatch_event_def split: option.split)

lemma on_x10_frame [simp]:
  "w_usb (on_x10 f w) = w_usb w" "w_x10 (on_x10 f w) = f (w_x10 w)" "w_dups (on_x10 f w) = w_dups w"
  "w_net (on_x10 f w) = w_net w" "RfToPl16 (on_x10 f w) = RfToPl16 w" "RfToRf16 (on_x10 f w) = RfToRf16 w"
  by (simp_all add: on_x10_def)

lemma transmit_frame [simp]:
  "w_x10 (transmit env buf w) = w_x10 w" "w_net (transmit env buf w) = w_net w"
  "w_dups (transmit env buf w) = w_dups w" "RfToPl16 (transmit env buf w) = RfToPl16 w"
  "RfToRf16 (transmit env buf w) = RfToRf16 w"
  by (simp_all add: transmit_def)

lemma or20_ok_frame [simp]:
  "w_usb (or20_ok env fd w) = w_usb w" "w_x10 (or20_ok env fd w) = w_x10 w"
  "RfToRf16 (or20_ok env fd w) = RfToRf16 w" "RfToPl16 (or20_ok env fd w) = RfToPl16 w"
  by (simp_all add: or20_ok_def tell_def split_beta)

lemma on_net_frame [simp]:
  "w_usb (on_net f w) = w_usb w" "w_x10 (on_net f w) = w_x10 w" "w_dups (on_net f w) = w_dups w"
  "RfToPl16 (on_net f w) = RfToPl16 w" "RfToRf16 (on_net f w) = RfToRf16 w" "n_mono (on_net f w) = n_mono w"
  by (simp_all add: on_net_def)

section \<open>Room in the transmitter\<close>

text \<open>All packets handed over or queued, oldest first, and room for \<open>n\<close> more.\<close>

definition tx_log :: "usb_state \<Rightarrow> byte list list" where
  "tx_log s = wire s @ pending s"

definition tx_room :: "nat \<Rightarrow> usb_state \<Rightarrow> bool" where
  "tx_room n s \<longleftrightarrow> tx_inv s \<and> Devh s \<and> IntrOut_transfer s \<and> length (pending s) + n \<le> 255"

lemma x10_write_frame:
  "x10_write sub buf s = (r, t) \<Longrightarrow> Devh t = Devh s \<and> IntrOut_transfer t = IntrOut_transfer s \<and> Cm19a t = Cm19a s"
  by (auto simp: x10_write_def add_x10out_def write_usb_def libusb_submit_out_def Let_def split: if_splits)

lemma x10_write_room:
  assumes room: "tx_room (Suc n) s" and dev: "\<forall>k. 0 \<le> sub k" and len: "length buf \<le> 8"
    and w: "x10_write sub buf s = (r, t)"
  shows "tx_room n t \<and> tx_log t = tx_log s @ [buf] \<and> r = int (length buf)"
proof -
  from room have inv: "tx_inv s" by (simp add: tx_room_def)
  note fr = x10_write_frame [OF w]
  show ?thesis
  proof (cases "Outbusy s")
    case True
    note b = x10_write_busy [OF inv True w]
    have "\<not> r < 0" using b len room by (auto simp: tx_room_def)
    moreover have "r = (if length buf > 8 then -1 else fst (add_x10out buf s))"
      using w True by (simp add: x10_write_def split: if_splits)
    ultimately have "r = int (length buf)" by (auto simp: add_x10out_def Let_def split: if_splits)
    with \<open>\<not> r < 0\<close> b fr room show ?thesis by (simp add: tx_room_def tx_log_def)
  next
    case False
    note i = x10_write_idle [OF inv False w]
    obtain t' where "write_usb sub buf (s\<lparr>Outbusy := True\<rparr>) = (0, t')"
      using write_usb_succeeds [of "s\<lparr>Outbusy := True\<rparr>" buf sub] room False len dev
      by (auto simp: tx_room_def tx_inv_def)
    with w False len have "r = int (length buf)" by (auto simp: x10_write_def Let_def)
    moreover have "pending s = []" using inv False by (simp add: tx_inv_def)
    ultimately show ?thesis using i fr room by (simp add: tx_room_def tx_log_def)
  qed
qed

lemma transmit_room:
  assumes "tx_room (Suc n) (w_usb w)" "\<forall>k. 0 \<le> e_submit env k" "length buf \<le> 8"
  shows "tx_room n (w_usb (transmit env buf w))"
    "tx_log (w_usb (transmit env buf w)) = tx_log (w_usb w) @ [buf]"
proof -
  obtain r t where w: "x10_write (e_submit env) buf (w_usb w) = (r, t)" by fastforce
  from x10_write_room [OF assms w]
  show "tx_room n (w_usb (transmit env buf w))"
    "tx_log (w_usb (transmit env buf w)) = tx_log (w_usb w) @ [buf]"
    by (simp_all add: transmit_def w)
qed

lemma transmit_Cm19a [simp]: "Cm19a (w_usb (transmit env buf w)) = Cm19a (w_usb w)"
  using x10_write_frame [of "e_submit env" buf "w_usb w"]
  by (cases "x10_write (e_submit env) buf (w_usb w)") (simp add: transmit_def)

section \<open>Power-line frames of our own\<close>

lemma plc_houseunit:
  assumes "h < 16" "u < 16"
  shows "cm15a_decode_plc env fd (pl_houseunit_rx h u) 4 w =
     mochad_dispatch_event env fd (pl_houseunit_event 0 (chr (65 + h)) (u + 1) None) (on_x10 (hua_add h u) w)"
  using assms by (simp add: cm15a_decode_plc_def pl_houseunit_rx_def huc_decode_pack)

lemma plc_switch:
  assumes "h < 16" "f = FUNC_ON \<or> f = FUNC_OFF"
  shows "cm15a_decode_plc env fd (pl_housefunc_rx h f 0) 4 w =
     mochad_dispatch_event env fd (pl_house_event 0 (chr (65 + h)) (Some (Funcname ! f)))
       (on_x10 (if f = FUNC_ON then hua_func_on h else hua_func_off h) w)"
proof -
  have "f < 16" using assms(2) by (auto simp: func_defs)
  from hfc_decode_pack [OF assms(1) this]
  have hf: "hfc_decode (pl_pack h (word_of_nat f)) = (chr (65 + h), f)" .
  have rx: "pl_housefunc_rx h f 0 = [0, 2, 1, pl_pack h (word_of_nat f)]"
    using assms(2) by (auto simp: pl_housefunc_rx_def func_defs)
  have fn: "pl_function f h = (if f = FUNC_ON then hua_func_on h else hua_func_off h)"
    using assms(2) by (auto simp: pl_function_def fun_eq_iff func_defs)
  show ?thesis unfolding rx cm15a_decode_plc_def using assms(1) hf fn by simp
qed

lemma plc_xdim:
  assumes "h < 16" "u < 16" "p < 256"
  shows "cm15a_decode_plc env fd (pl_extended_rx h u 3 1 p) 7 w =
     on_x10 (hua_setstatus_xdim h u (word_of_nat p))
       (mochad_dispatch_event env fd
          (pl_extended_event 0 (chr (65 + h)) (u + 1) (Some (Funcname ! 7)) (word_of_nat p) 0x31) w)"
proof -
  have m: "x AND 0xFF = x" for x :: byte by (rule bit_word_eqI) (auto simp: byte_FF bit_simps dest: bit_imp_le_length)
  have c: "push_bit 4 (3 AND 0x0F) OR (1 AND 0x0F) = (0x31 :: byte)" by simp
  show ?thesis using assms
    by (simp add: cm15a_decode_plc_def pl_extended_rx_def hfc_decode_pack_7 uc_decode_code m Let_def)
qed

section \<open>Commands\<close>

lemma processcommandline_words:
  assumes "strupper line \<noteq> ''<POLICY-FILE-REQUEST/>''" "words (strupper line) = c # ws" "length ws < 16"
  shows "processcommandline env fd line w =
     (case run_command (cm15a_decode_rf env) env fd c ws w of
        Inl rw \<Rightarrow> rw
      | Inr (rest, w) \<Rightarrow>
          if rest \<noteq> [] then (-1, say env fd (''Invalid command: unexpected argument'' @ nlcr) w) else (0, w))"
proof -
  have "tokenize_command (strupper line) = Some (c # ws)"
    using tokenize_from_words [of 0 "strupper line"] assms(2,3)
    by (simp add: tokenize_command_def MAX_COMMAND_TOKENS_def)
  with assms(1) show ?thesis by (simp add: processcommandline_def processcommandline_with_def Let_def)
qed

lemma words_policy: "words ''<POLICY-FILE-REQUEST/>'' = [''<POLICY-FILE-REQUEST/>'']"
  using words_word [of "''<POLICY-FILE-REQUEST/>''" "[]"] by (simp add: isspace_def words_def [of "[]"])

lemma not_policy: "words s = c # d # ws \<Longrightarrow> s \<noteq> ''<POLICY-FILE-REQUEST/>''"
  using words_policy by auto

text \<open>The address of a unit and the words of a command on it.\<close>

definition unit_word :: "nat \<Rightarrow> nat \<Rightarrow> string" where
  "unit_word h u = chr (65 + h) # num_str 10 (u + 1)"

lemma getdeviceaddr_unit_word:
  "h < 16 \<Longrightarrow> u < 16 \<Longrightarrow> getdeviceaddr (unit_word h u # toks) = (Some (h, Some u), toks)"
  unfolding unit_word_def by (rule getdeviceaddr_unit)

text \<open>Addressing a unit and switching it.\<close>

definition pl_switch :: "env \<Rightarrow> nat \<Rightarrow> nat \<Rightarrow> nat \<Rightarrow> world \<Rightarrow> world" where
  "pl_switch env h u f w = pl_tx_housefunc env h f 0 (pl_tx_houseunit env h u w)"

lemma command_pl_switch:
  assumes "h < 16" "u < 16" "f = FUNC_ON \<or> f = FUNC_OFF"
  shows "command_pl env fd [unit_word h u, funccommands ! f] w = Inr ([], pl_switch env h u f (or20_ok env fd w))"
proof -
  have "f < 17" using assms(3) by (auto simp: func_defs)
  then show ?thesis
    using assms getfunc_name [of f "[]"]
    by (auto simp: command_pl_def getdeviceaddr_unit_word command_pl_unit_def pl_switch_def func_defs)
qed

lemma pl_switch_frames:
  assumes "h < 16" "u < 16" "f = FUNC_ON \<or> f = FUNC_OFF"
  shows "pl_switch env h u f w =
      transmit env (pl_housefunc_tx h f 0) (cm15a_decode_plc env (-1) (pl_housefunc_rx h f 0) 4
        (transmit env (pl_houseunit_tx h u) (cm15a_decode_plc env (-1) (pl_houseunit_rx h u) 4 w)))"
proof -
  have "(if f = FUNC_DIM \<or> f = FUNC_BRIGHT then 5 else if f = FUNC_EXTENDED_DIM then 7 else 4) = (4 :: nat)"
    using assms(3) by (auto simp: func_defs)
  then show ?thesis unfolding pl_switch_def pl_tx_housefunc_def pl_tx_houseunit_def by simp
qed

lemma pl_switch_packets:
  assumes hu: "h < 16" "u < 16" "f = FUNC_ON \<or> f = FUNC_OFF"
    and room: "tx_room (Suc (Suc n)) (w_usb w)" and dev: "\<forall>k. 0 \<le> e_submit env k"
  shows "tx_room n (w_usb (pl_switch env h u f w))"
    "tx_log (w_usb (pl_switch env h u f w)) = tx_log (w_usb w) @ [pl_houseunit_tx h u, pl_housefunc_tx h f 0]"
    "Cm19a (w_usb (pl_switch env h u f w)) = Cm19a (w_usb w)"
proof -
  let ?w = "cm15a_decode_plc env (-1) (pl_houseunit_rx h u) 4 w"
  have u1: "w_usb ?w = w_usb w" using hu by (simp add: plc_houseunit)
  have l: "length (pl_houseunit_tx h u) \<le> 8" "length (pl_housefunc_tx h f 0) \<le> 8"
    using hu(3) by (auto simp: pl_houseunit_tx_def pl_housefunc_tx_def func_defs)
  note t1 = transmit_room [where w = ?w and n = "Suc n", OF _ dev l(1)]
  let ?v = "cm15a_decode_plc env (-1) (pl_housefunc_rx h f 0) 4 (transmit env (pl_houseunit_tx h u) ?w)"
  have u2: "w_usb ?v = w_usb (transmit env (pl_houseunit_tx h u) ?w)" using hu by (simp add: plc_switch)
  note t2 = transmit_room [where w = ?v and n = n, OF _ dev l(2)]
  show "tx_room n (w_usb (pl_switch env h u f w))"
    "tx_log (w_usb (pl_switch env h u f w)) = tx_log (w_usb w) @ [pl_houseunit_tx h u, pl_housefunc_tx h f 0]"
    "Cm19a (w_usb (pl_switch env h u f w)) = Cm19a (w_usb w)"
    unfolding pl_switch_frames [OF hu] using t1 t2 u1 u2 room by simp_all
qed

lemma pl_switch_effect:
  assumes hu: "h < 16" "u < 16" and f: "f = FUNC_ON \<or> f = FUNC_OFF" and wf: "x10_wf (w_x10 w)"
  shows "house_abs h (w_x10 (pl_switch env h u f w)) = spec_func (f = FUNC_ON) (spec_add u (house_abs h (w_x10 w)))"
    and "k \<noteq> h \<Longrightarrow> house_abs k (w_x10 (pl_switch env h u f w)) = house_abs k (w_x10 w)"
proof -
  have x: "w_x10 (pl_switch env h u f w) = (if f = FUNC_ON then hua_func_on h else hua_func_off h) (hua_add h u (w_x10 w))"
    unfolding pl_switch_frames [OF hu f] using hu f by (simp add: plc_houseunit plc_switch)
  show "house_abs h (w_x10 (pl_switch env h u f w)) = spec_func (f = FUNC_ON) (spec_add u (house_abs h (w_x10 w)))"
    unfolding x using f house_abs_func house_abs_add [OF wf hu] by (auto simp: func_defs)
  show "k \<noteq> h \<Longrightarrow> house_abs k (w_x10 (pl_switch env h u f w)) = house_abs k (w_x10 w)"
    unfolding x by (simp add: house_abs_other)
qed

lemma pl_command_effect:
  assumes "h < 16" "u < 16" "f = FUNC_ON \<or> f = FUNC_OFF" "x10_wf (w_x10 w)" "tx_room 2 (w_usb w)"
    "\<forall>k. 0 \<le> e_submit env k" "words (strupper line) = [''PL'', unit_word h u, funccommands ! f]"
    "processcommandline env fd line w = (r, w')"
  shows "r = 0 \<and>
    house_abs h (w_x10 w') = spec_func (f = FUNC_ON) (spec_add u (house_abs h (w_x10 w))) \<and>
    (\<forall>k. k \<noteq> h \<longrightarrow> house_abs k (w_x10 w') = house_abs k (w_x10 w)) \<and>
    tx_log (w_usb w') = tx_log (w_usb w) @ [pl_houseunit_tx h u, pl_housefunc_tx h f 0]"
proof -
  have "run_command (cm15a_decode_rf env) env fd ''PL'' [unit_word h u, funccommands ! f] w =
      Inr ([], pl_switch env h u f (or20_ok env fd w))"
    using command_pl_switch [OF assms(1-3)] by (simp add: run_command_def)
  with processcommandline_words [OF not_policy [OF assms(7)] assms(7), of env fd w] assms(8)
  have "r = 0" "w' = pl_switch env h u f (or20_ok env fd w)" by simp_all
  with pl_switch_effect [OF assms(1-3), where w = "or20_ok env fd w" and env = env]
    pl_switch_packets [OF assms(1-3), where w = "or20_ok env fd w" and n = 0] assms(4-6) show ?thesis
    by (simp add: numeral_2_eq_2)
qed

text \<open>What addressing a unit and a function do to the units of a house.\<close>

lemma switched_units:
  "v \<in> lit (spec_func on (spec_add u a)) \<longleftrightarrow>
     (if v = u \<or> collecting a \<and> v \<in> chosen a then on else v \<in> lit a)"
  by (auto simp: spec_func_def spec_add_def)

section \<open>Properties of commands\<close>

text \<open>
  C5: A power-line command does what the X10 protocol says: for every house, unit and spelling (any
  case and white space) of \<open>PL <house><unit> ON\<close> (or OFF) the command succeeds and sends exactly the
  address packet and the function packet. The unit is then on (or off), and so is every unit of the
  house that was addressed and not followed by a function before; if there is none, because the last
  packet of the house was a function, no other unit of the house changes. No other house changes.
\<close>

theorem pl_command_switches:
  assumes "h < 16" "u < 16" "f = FUNC_ON \<or> f = FUNC_OFF" "x10_wf (w_x10 w)" "tx_room 2 (w_usb w)"
    "\<forall>k. 0 \<le> e_submit env k" "words (strupper line) = [''PL'', unit_word h u, funccommands ! f]"
    "processcommandline env fd line w = (r, w')"
  shows "r = 0 \<and>
    house_abs h (w_x10 w') = spec_func (f = FUNC_ON) (spec_add u (house_abs h (w_x10 w))) \<and>
    (u \<in> lit (house_abs h (w_x10 w')) \<longleftrightarrow> f = FUNC_ON) \<and>
    (\<forall>v. v \<noteq> u \<longrightarrow> (v \<in> lit (house_abs h (w_x10 w')) \<longleftrightarrow>
       (if collecting (house_abs h (w_x10 w)) \<and> v \<in> chosen (house_abs h (w_x10 w)) then f = FUNC_ON
        else v \<in> lit (house_abs h (w_x10 w))))) \<and>
    (\<forall>k. k \<noteq> h \<longrightarrow> house_abs k (w_x10 w') = house_abs k (w_x10 w)) \<and>
    tx_log (w_usb w') = tx_log (w_usb w) @ [pl_houseunit_tx h u, pl_housefunc_tx h f 0]"
proof -
  note e = pl_command_effect [OF assms]
  then have "house_abs h (w_x10 w') = spec_func (f = FUNC_ON) (spec_add u (house_abs h (w_x10 w)))" by blast
  then have "(u \<in> lit (house_abs h (w_x10 w')) \<longleftrightarrow> f = FUNC_ON) \<and>
    (\<forall>v. v \<noteq> u \<longrightarrow> (v \<in> lit (house_abs h (w_x10 w')) \<longleftrightarrow>
       (if collecting (house_abs h (w_x10 w)) \<and> v \<in> chosen (house_abs h (w_x10 w)) then f = FUNC_ON
        else v \<in> lit (house_abs h (w_x10 w)))))"
    by (simp add: switched_units)
  with e show ?thesis by blast
qed

lemmas eval_words =
  words_def strupper_def isspace_def islower_def toupper_def ord_def chr_def unit_word_def num_str_less
  digit_char_def funccommands_def func_defs char_of_def bit_0

lemma tx_room_one: "n \<le> 255 \<Longrightarrow> tx_room n (w_usb world_one)" "tx_log (w_usb world_one) = []"
  by (simp_all add: tx_room_def tx_log_def world_one_def)
    (simp_all add: usb_ready_def usb_init_def pending_def pending_count_def OUTPTRSSIZE_def)

lemma world_one_frame:
  "w_x10 world_one = x10_zero" "x10_wf (w_x10 world_one)" "\<forall>k. 0 \<le> e_submit env_zero k"
  "RfToRf16 world_one = 0" "RfToPl16 world_one = 0" "Cm19a (w_usb world_one) = False"
  by (simp_all add: world_one_def env_zero_def usb_ready_def usb_init_def)

theorem pl_command_switches_witness:
  "lit (house_abs 0 (w_x10 (snd (processcommandline env_zero 5 ''pl  a1 On'' world_one)))) = {0} \<and>
   tx_log (w_usb (snd (processcommandline env_zero 5 ''pl  a1 On'' world_one))) =
     [pl_houseunit_tx 0 0, pl_housefunc_tx 0 FUNC_ON 0]"
proof -
  obtain r w' where run: "processcommandline env_zero 5 ''pl  a1 On'' world_one = (r, w')" by fastforce
  have ws: "words (strupper ''pl  a1 On'') = [''PL'', unit_word 0 0, funccommands ! FUNC_ON]"
    by (simp add: eval_words)
  from pl_command_switches [OF _ _ _ _ _ _ ws run] show ?thesis
    by (simp add: run world_one_frame tx_room_one house_abs_zero spec_add_def spec_func_def)
qed

text \<open>
  C28: \<open>PT\<close> passes bytes through: a line of \<open>PT\<close> and one to eight two-digit hexadecimal bytes,
  however spaced, queues exactly these bytes as one packet and changes no device.
\<close>

theorem pt_passes_bytes:
  assumes "words (strupper line) = ''PT'' # map (\<lambda>b. fmt_X 2 (unat b)) bs" "bs \<noteq> []" "length bs \<le> 8"
    "tx_room 1 (w_usb w)" "\<forall>k. 0 \<le> e_submit env k"
    "processcommandline env fd line w = (r, w')"
  shows "r = 0 \<and> tx_log (w_usb w') = tx_log (w_usb w) @ [bs] \<and> w_x10 w' = w_x10 w"
proof -
  have np: "strupper line \<noteq> ''<POLICY-FILE-REQUEST/>''" using assms(1,2) words_policy by (cases bs) auto
  have "gethexdata (map (\<lambda>b. fmt_X 2 (unat b)) bs) = Some bs"
    using gethexdata_bytes [of 0 bs] assms(3) by (simp add: gethexdata_def)
  then have "run_command (cm15a_decode_rf env) env fd ''PT'' (map (\<lambda>b. fmt_X 2 (unat b)) bs) w =
      Inr ([], transmit env bs (or20_ok env fd w))"
    using assms(2) by (simp add: run_command_def command_pt_def)
  with processcommandline_words [OF np assms(1), of env fd w] assms(3,6)
  have "r = 0" "w' = transmit env bs (or20_ok env fd w)" by simp_all
  with transmit_room [where n = 0 and w = "or20_ok env fd w" and env = env and buf = bs] assms(3-5)
  show ?thesis by simp
qed

theorem pt_passes_bytes_witness:
  "tx_log (w_usb (snd (processcommandline env_zero 5 ''pt eb 14'' world_one))) = [[0xEB, 0x14]]"
proof -
  obtain r w' where run: "processcommandline env_zero 5 ''pt eb 14'' world_one = (r, w')" by fastforce
  have ws: "words (strupper ''pt eb 14'') = ''PT'' # map (\<lambda>b. fmt_X 2 (unat b)) [0xEB, 0x14 :: byte]"
    by (simp add: eval_words fmt_X_def num_str_step pad0_def)
  from pt_passes_bytes [OF ws _ _ _ _ run] show ?thesis
    by (simp add: run world_one_frame tx_room_one)
qed

text \<open>
  C27: Extended dimming reads back: after \<open>PL <house><unit> XDIM n\<close> with n up to 255 the query
  \<open>GETSTATUS <house><unit> XDIM\<close> answers n, and the device is on exactly when n is not 0.
\<close>

theorem xdim_reads_back:
  assumes "h < 16" "u < 16" "n < 256"
    "words (strupper line) = [''PL'', unit_word h u, ''XDIM'', num_str 10 n]"
    "words (strupper query) = [''GETSTATUS'', unit_word h u, ''XDIM'']"
    "processcommandline env fd line w = (r, w')"
  shows "r = 0 \<and> processcommandline env fd query w' = (0, snd (tell env fd (fmt_d (int n) @ nlcr) w')) \<and>
    house_abs h (w_x10 w') = spec_xdim u (n \<noteq> 0) (house_abs h (w_x10 w))"
proof -
  let ?b = "word_of_nat n :: byte"
  have b: "uint ?b = int n" "?b = 0 \<longleftrightarrow> n = 0"
    using assms(3) by (simp_all add: unsigned_of_nat take_bit_nat_eq_self_iff word_of_nat_eq_0_iff)
      (auto simp: take_bit_nat_eq_self_iff dest!: nat_dvd_not_less)
  have x: "funccommands ! 16 = ''XDIM''" by (simp add: funccommands_def)
  have "getfunc (''XDIM'' # toks) = (Some 16, toks)" for toks using getfunc_name [of 16 toks] by (simp add: x)
  moreover have "getparam [num_str 10 n] = (Some n, [])"
    using parse_decimal_num [of n 0 255] assms(3) by (simp add: getparam_def LONG_MAX_def)
  ultimately have "run_command (cm15a_decode_rf env) env fd ''PL'' [unit_word h u, ''XDIM'', num_str 10 n] w =
      Inr ([], pl_tx_extended_code_1 env h u 3 1 n (or20_ok env fd w))"
    using assms(1,2) by (simp add: run_command_def command_pl_def getdeviceaddr_unit_word command_pl_unit_def
        func_defs default_param_def)
  with processcommandline_words [OF not_policy [OF assms(4)] assms(4), of env fd w] assms(6)
  have rw: "r = 0" "w' = pl_tx_extended_code_1 env h u 3 1 n (or20_ok env fd w)" by simp_all
  then have s: "w_x10 w' = hua_setstatus_xdim h u ?b (w_x10 w)"
    using assms(1-3) by (simp add: pl_tx_extended_code_1_def plc_xdim del: One_nat_def)
  then have d: "hua_getstatus_xdim h u (w_x10 w') = ?b"
    by (simp add: hua_getstatus_xdim_def hua_setstatus_xdim_def Let_def)
  have "run_command (cm15a_decode_rf env) env fd ''GETSTATUS'' [unit_word h u, ''XDIM''] w' =
      Inr ([], snd (tell env fd (fmt_d (int n) @ nlcr) w'))"
    using assms(1,2) by (simp add: run_command_def command_getstatus_def getdeviceaddr_unit_word d b)
  with processcommandline_words [OF not_policy [OF assms(5)] assms(5), of env fd w'] rw(1)
    house_abs_xdim [OF assms(2), of h ?b "w_x10 w"] s b
  show ?thesis by simp
qed

theorem xdim_reads_back_witness:
  "\<exists>w'. processcommandline env_zero 5 ''pl a1 xdim 200'' world_one = (0, w') \<and>
     processcommandline env_zero 5 ''getstatus a1 xdim'' w' = (0, snd (tell env_zero 5 (''200'' @ nlcr) w'))"
proof -
  obtain r w' where run: "processcommandline env_zero 5 ''pl a1 xdim 200'' world_one = (r, w')" by fastforce
  have n: "num_str 10 200 = ''200''" by (simp add: num_str_step num_str_less digit_char_def)
  have "words (strupper ''pl a1 xdim 200'') = [''PL'', unit_word 0 0, ''XDIM'', num_str 10 200]"
    unfolding n by (simp add: eval_words)
  moreover have "words (strupper ''getstatus a1 xdim'') = [''GETSTATUS'', unit_word 0 0, ''XDIM'']"
    by (simp add: eval_words)
  ultimately have "r = 0 \<and> processcommandline env_zero 5 ''getstatus a1 xdim'' w' =
      (0, snd (tell env_zero 5 (fmt_d (int 200) @ nlcr) w')) \<and>
      house_abs 0 (w_x10 w') = spec_xdim 0 (200 \<noteq> (0::nat)) (house_abs 0 (w_x10 world_one))"
    by (intro xdim_reads_back [OF _ _ _ _ _ run]) simp_all
  moreover have "fmt_d (int 200) = ''200''" unfolding fmt_d_nat by (rule n)
  ultimately show ?thesis using run by (metis (no_types))
qed

text \<open>The first words the command processor knows.\<close>

definition command_names :: "string list" where
  "command_names =
     [''HELLO'', ''CAPABILITIES'', ''HEALTH'', ''CLIENTS'', ''CONFIG'', ''VERSION'', ''PL'', ''RF'', ''RFSEC'',
      ''RFCAM'', ''PT'', ''RFTOPL'', ''RFTORF'', ''ST'', ''INFO'', ''QUIT'', ''HELP'', ''?'', ''HEX'',
      ''GETSTATUS'', ''GETSTATUSSEC'', ''<POLICY-FILE-REQUEST/>'']"

text \<open>
  C34: Commands that are not understood change nothing: a line whose first word is no command of
  the daemon returns -1 and leaves the daemon as it was; a line with no word does nothing; a line
  of more than 16 words is answered with an error and not executed.
\<close>

theorem unknown_commands_do_nothing:
  assumes "words (strupper line) = ws"
  shows "(ws = [] \<longrightarrow> processcommandline env fd line w = (0, w)) \<and>
    (0 < length ws \<and> length ws \<le> 16 \<and> hd ws \<notin> set command_names \<longrightarrow> processcommandline env fd line w = (-1, w)) \<and>
    (length ws > 16 \<longrightarrow> processcommandline env fd line w =
       (-1, say env fd (''Invalid command: too many arguments'' @ nlcr) w))"
proof -
  have tok: "tokenize_command (strupper line) = (if length ws \<le> 16 then Some ws else None)"
    using tokenize_from_words [of 0 "strupper line"] assms by (simp add: tokenize_command_def MAX_COMMAND_TOKENS_def)
  have p: "strupper line = ''<POLICY-FILE-REQUEST/>'' \<Longrightarrow> ws = [''<POLICY-FILE-REQUEST/>'']"
    using assms words_policy by metis
  have empty: "ws = [] \<Longrightarrow> processcommandline env fd line w = (0, w)"
    using p by (auto simp: processcommandline_def processcommandline_with_def Let_def tok)
  have many: "length ws > 16 \<Longrightarrow> processcommandline env fd line w =
      (-1, say env fd (''Invalid command: too many arguments'' @ nlcr) w)"
    using p by (auto simp: processcommandline_def processcommandline_with_def Let_def tok)
  have unknown: "processcommandline env fd line w = (-1, w)"
    if ws: "ws = c # toks" "length ws \<le> 16" "c \<notin> set command_names" for c toks
  proof -
    from ws(3) have "run_command (cm15a_decode_rf env) env fd c toks w = Inl (-1, w)"
      by (simp add: command_names_def run_command_def)
    moreover have "strupper line \<noteq> ''<POLICY-FILE-REQUEST/>''"
      using p ws(1,3) by (auto simp: command_names_def)
    ultimately show ?thesis
      using processcommandline_words [of line c toks env fd w] assms ws(1,2) by simp
  qed
  show ?thesis using empty many unknown by (cases ws) auto
qed

theorem unknown_commands_do_nothing_witness:
  "processcommandline env_zero 5 ''hail a1'' world_one = (-1, world_one)"
proof -
  have "words (strupper ''hail a1'') = [''HAIL'', ''A1'']" by (simp add: eval_words)
  moreover have "''HAIL'' \<notin> set command_names" by (simp add: command_names_def)
  ultimately show ?thesis
    using unknown_commands_do_nothing [of "''hail a1''" "[''HAIL'', ''A1'']" env_zero 5 world_one] by simp
qed

end
