(* ===== verification/Line_Reader.thy ===== *)
theory Line_Reader
  imports End_To_End
begin

text \<open>
  The line reader of \<open>src/x10/encode.c\<close>: \<open>cm15a_encode_with_state\<close> breaks the bytes of a client
  into lines, runs each line as a command and keeps the unfinished line for the next call. The
  unfinished line, \<open>remptr - remainder\<close> bytes of the 80-byte array, is the field \<open>remainder\<close>.
\<close>

section \<open>Reading\<close>

definition is_eol :: "char \<Rightarrow> bool" where
  "is_eol c \<longleftrightarrow> c = chr_nl \<or> c = chr_cr \<or> c = chr_nul"

definition REMAINDER_SIZE :: nat where "REMAINDER_SIZE = 80"

text \<open>A complete line; an OpenRemote client is disconnected after each command.\<close>

definition run_line :: "env \<Rightarrow> int \<Rightarrow> string \<Rightarrow> world \<Rightarrow> world" where
  "run_line env fd line w =
     (let w = snd (processcommandline env fd line w)
      in if or20client env fd (w_net w) then on_net (del_client fd) w else w)"

text \<open>One iteration of the loop over the bytes.\<close>

definition encode_byte :: "env \<Rightarrow> int \<Rightarrow> char \<Rightarrow> encode_state \<times> world \<Rightarrow> encode_state \<times> world" where
  "encode_byte env fd c sw =
     (case sw of (st, w) \<Rightarrow>
        if discarding st then (st\<lparr>discarding := \<not> is_eol c\<rparr>, w)
        else if length (remainder st) \<ge> REMAINDER_SIZE - 1 then (\<lparr>remainder = [], discarding = True\<rparr>, w)
        else if is_eol c then
          (\<lparr>remainder = [], discarding = False\<rparr>, if remainder st \<noteq> [] then run_line env fd (remainder st) w else w)
        else (st\<lparr>remainder := remainder st @ [c]\<rparr>, w))"

definition cm15a_encode_with_state :: "env \<Rightarrow> int \<Rightarrow> encode_state \<Rightarrow> string \<Rightarrow> world \<Rightarrow> encode_state \<times> world" where
  "cm15a_encode_with_state env fd state buf w = fold (encode_byte env fd) buf (state, w)"

text \<open>
  The call of the event loop: the state is that of the client's slot, which stays the same slot
  when the client is disconnected on the way.
\<close>

definition client_input :: "env \<Rightarrow> int \<Rightarrow> string \<Rightarrow> world \<Rightarrow> world" where
  "client_input env fd buf w =
     (case find_slot fd (w_net w) of
        None \<Rightarrow> w
      | Some p \<Rightarrow>
          let (st, w) = cm15a_encode_with_state env fd (c_state (slot (w_net w) p)) buf w
          in w\<lparr>w_net := set_slot p ((slot (w_net w) p)\<lparr>c_state := st\<rparr>) (w_net w)\<rparr>)"

section \<open>Reference: the lines of a stream\<close>

text \<open>The stream split after every terminator; the last piece is the unfinished line.\<close>

fun split_lines :: "string \<Rightarrow> string list" where
  "split_lines [] = [[]]"
| "split_lines (c # s) =
     (case split_lines s of
        [] \<Rightarrow> [[c]]
      | p # ps \<Rightarrow> if is_eol c then [] # p # ps else (c # p) # ps)"

lemma split_lines_nonempty [simp]: "split_lines s \<noteq> []"
  by (cases s) (simp_all split: list.split)

lemma split_lines_eol: "is_eol c \<Longrightarrow> split_lines (c # s) = [] # split_lines s"
  by (cases "split_lines s") simp_all

lemma split_lines_plain: "\<forall>c \<in> set v. \<not> is_eol c \<Longrightarrow> split_lines (v @ s) = (v @ hd (split_lines s)) # tl (split_lines s)"
  by (induction v) simp_all

lemma split_lines_line: "\<forall>c \<in> set v. \<not> is_eol c \<Longrightarrow> is_eol c \<Longrightarrow> split_lines (v @ c # s) = v # split_lines s"
  by (simp add: split_lines_plain split_lines_eol del: split_lines.simps(2))

text \<open>Lines short enough for the reader.\<close>

definition lines_fit :: "string list \<Rightarrow> bool" where
  "lines_fit ls \<longleftrightarrow> (\<forall>l \<in> set (butlast ls). length l \<le> 78) \<and> length (last ls) \<le> 79"

definition run_lines :: "env \<Rightarrow> int \<Rightarrow> string list \<Rightarrow> world \<Rightarrow> world" where
  "run_lines env fd ls w = fold (run_line env fd) (filter (\<lambda>l. l \<noteq> []) ls) w"

lemma cm15a_encode_append:
  "cm15a_encode_with_state env fd st (xs @ ys) w =
     (case cm15a_encode_with_state env fd st xs w of (st', w') \<Rightarrow> cm15a_encode_with_state env fd st' ys w')"
  by (simp add: cm15a_encode_with_state_def split_beta)

lemma cm15a_encode_lines:
  assumes "\<forall>c \<in> set r. \<not> is_eol c" "lines_fit (split_lines (r @ s))"
  shows "cm15a_encode_with_state env fd \<lparr>remainder = r, discarding = False\<rparr> s w =
     (\<lparr>remainder = last (split_lines (r @ s)), discarding = False\<rparr>, run_lines env fd (butlast (split_lines (r @ s))) w)"
  using assms
proof (induction s arbitrary: r w)
  case Nil
  then show ?case
    using split_lines_plain [of r "[]"] by (simp add: cm15a_encode_with_state_def run_lines_def)
next
  case (Cons c s)
  show ?case
  proof (cases "is_eol c")
    case True
    have sp: "split_lines (r @ c # s) = r # split_lines s" by (rule split_lines_line [OF Cons.prems(1) True])
    with Cons.prems(2) have r: "length r \<le> 78" and fit: "lines_fit (split_lines s)"
      by (simp_all add: lines_fit_def split: if_splits)
    from Cons.IH [of "[]"] fit r True sp show ?thesis
      by (auto simp: cm15a_encode_with_state_def encode_byte_def REMAINDER_SIZE_def run_lines_def)
  next
    case False
    have "length r < 79"
      using Cons.prems(2) split_lines_plain [of "r @ [c]" s] Cons.prems(1) False
      by (cases "tl (split_lines s) = []") (auto simp: lines_fit_def)
    moreover have "\<forall>x \<in> set (r @ [c]). \<not> is_eol x" using Cons.prems(1) False by auto
    ultimately show ?thesis
      using Cons.IH [of "r @ [c]"] Cons.prems(2) False
      by (simp add: cm15a_encode_with_state_def encode_byte_def REMAINDER_SIZE_def)
  qed
qed

text \<open>Overlong lines.\<close>

lemma encode_fill:
  assumes "\<forall>c \<in> set v. \<not> is_eol c" "length r + length v \<le> 79"
  shows "cm15a_encode_with_state env fd \<lparr>remainder = r, discarding = False\<rparr> v w =
     (\<lparr>remainder = r @ v, discarding = False\<rparr>, w)"
  using assms
proof (induction v arbitrary: r)
  case (Cons c v)
  then show ?case using Cons.IH [of "r @ [c]"]
    by (simp add: cm15a_encode_with_state_def encode_byte_def REMAINDER_SIZE_def)
qed (simp add: cm15a_encode_with_state_def)

lemma encode_overflow:
  "length r = 79 \<Longrightarrow> cm15a_encode_with_state env fd \<lparr>remainder = r, discarding = False\<rparr> [c] w =
     (\<lparr>remainder = [], discarding = True\<rparr>, w)"
  by (simp add: cm15a_encode_with_state_def encode_byte_def REMAINDER_SIZE_def)

lemma encode_discard:
  assumes "\<forall>c \<in> set v. \<not> is_eol c" "is_eol e"
  shows "cm15a_encode_with_state env fd \<lparr>remainder = [], discarding = True\<rparr> (v @ [e]) w =
     (\<lparr>remainder = [], discarding = False\<rparr>, w)"
proof -
  have "fold (encode_byte env fd) v (\<lparr>remainder = [], discarding = True\<rparr>, w) = (\<lparr>remainder = [], discarding = True\<rparr>, w)"
    using assms(1) by (induction v) (auto simp: encode_byte_def)
  with assms(2) show ?thesis by (simp add: cm15a_encode_with_state_def encode_byte_def)
qed

section \<open>The remainder stays inside its array\<close>

definition reader_ok :: "encode_state \<Rightarrow> bool" where
  "reader_ok st \<longleftrightarrow> length (remainder st) < REMAINDER_SIZE \<and> (\<forall>c \<in> set (remainder st). \<not> is_eol c)"

lemma reader_ok_init [simp]: "reader_ok cm15a_encode_state_init"
  by (simp add: reader_ok_def cm15a_encode_state_init_def REMAINDER_SIZE_def)

lemma reader_ok_byte: "reader_ok st \<Longrightarrow> reader_ok (fst (encode_byte env fd c (st, w)))"
  by (auto simp: reader_ok_def encode_byte_def REMAINDER_SIZE_def)

lemma reader_ok_encode: "reader_ok st \<Longrightarrow> reader_ok (fst (cm15a_encode_with_state env fd st buf w))"
proof (induction buf arbitrary: st w)
  case (Cons c buf)
  obtain st' w' where "encode_byte env fd c (st, w) = (st', w')" by fastforce
  with Cons reader_ok_byte [of st env fd c w] show ?case by (simp add: cm15a_encode_with_state_def)
qed (simp add: cm15a_encode_with_state_def)

section \<open>Properties\<close>

text \<open>
  C10: The reader runs exactly the lines of the stream, however the bytes arrive: if no line is too
  long, two calls with the parts of a stream run the non-empty lines of the whole stream in order,
  each once, and keep the unfinished line.
\<close>

theorem reader_runs_lines:
  assumes "lines_fit (split_lines (xs @ ys))"
    "cm15a_encode_with_state env fd cm15a_encode_state_init xs w = (st, v)"
  shows "cm15a_encode_with_state env fd st ys v =
    (\<lparr>remainder = last (split_lines (xs @ ys)), discarding = False\<rparr>,
     run_lines env fd (butlast (split_lines (xs @ ys))) w)"
  using cm15a_encode_lines [of "[]" "xs @ ys" env fd w] assms
    cm15a_encode_append [of env fd cm15a_encode_state_init xs ys w]
  by (simp add: cm15a_encode_state_init_def)

text \<open>
  C33: What the length of a line decides. A line of up to 78 characters is run. A line of 80 or more is
  dropped up to its terminator, as the documentation says (\<open>docs/architecture/architecture.md\<close>: an
  overlong command is discarded until the next line delimiter), and the next line is run. A line of
  exactly 79 departs from the documentation: it is dropped, but its terminator is consumed as the
  character too many, so that the following line is dropped with it.
\<close>

theorem overlong_lines:
  assumes "\<forall>c \<in> set v. \<not> is_eol c" "\<forall>c \<in> set u. \<not> is_eol c" "is_eol e" "is_eol e'"
    "init = \<lparr>remainder = [], discarding = False\<rparr>"
  shows "(v \<noteq> [] \<and> length v \<le> 78 \<longrightarrow>
      cm15a_encode_with_state env fd init (v @ [e] @ s) w =
        cm15a_encode_with_state env fd init s (run_line env fd v w)) \<and>
    (length v = 79 \<longrightarrow>
      cm15a_encode_with_state env fd init (v @ [e] @ u @ [e'] @ s) w = cm15a_encode_with_state env fd init s w) \<and>
    (length v \<ge> 80 \<longrightarrow>
      cm15a_encode_with_state env fd init (v @ [e] @ s) w = cm15a_encode_with_state env fd init s w)"
proof (intro conjI impI)
  assume short: "v \<noteq> [] \<and> length v \<le> 78"
  have fill: "cm15a_encode_with_state env fd init v w = (\<lparr>remainder = v, discarding = False\<rparr>, w)"
    using encode_fill [of v "[]" env fd w] assms(1,5) short by simp
  have eol: "cm15a_encode_with_state env fd \<lparr>remainder = v, discarding = False\<rparr> [e] w = (init, run_line env fd v w)"
    using short assms(3,5) by (simp add: cm15a_encode_with_state_def encode_byte_def REMAINDER_SIZE_def)
  show "cm15a_encode_with_state env fd init (v @ [e] @ s) w = cm15a_encode_with_state env fd init s (run_line env fd v w)"
    by (simp only: cm15a_encode_append fill eol prod.case)
next
  assume "length v = 79"
  then have fill: "cm15a_encode_with_state env fd init v w = (\<lparr>remainder = v, discarding = False\<rparr>, w)"
    using encode_fill [of v "[]" env fd w] assms(1,5) by simp
  have over: "cm15a_encode_with_state env fd \<lparr>remainder = v, discarding = False\<rparr> [e] w =
      (\<lparr>remainder = [], discarding = True\<rparr>, w)" using \<open>length v = 79\<close> by (rule encode_overflow)
  define t where "t = u @ [e']"
  have disc: "cm15a_encode_with_state env fd \<lparr>remainder = [], discarding = True\<rparr> t w = (init, w)"
    using encode_discard [OF assms(2,4), of env fd w] assms(5) by (simp add: t_def)
  have "cm15a_encode_with_state env fd init (v @ [e] @ t @ s) w = cm15a_encode_with_state env fd init s w"
    by (simp only: cm15a_encode_append fill over disc prod.case)
  then show "cm15a_encode_with_state env fd init (v @ [e] @ u @ [e'] @ s) w = cm15a_encode_with_state env fd init s w"
    by (simp add: t_def)
next
  assume "length v \<ge> 80"
  then have v: "v = take 79 v @ [v ! 79] @ drop 80 v" using id_take_nth_drop [of 79 v] by simp
  have fill: "cm15a_encode_with_state env fd init (take 79 v) w = (\<lparr>remainder = take 79 v, discarding = False\<rparr>, w)"
    using encode_fill [of "take 79 v" "[]" env fd w] assms(1,5) by (auto dest: in_set_takeD)
  have over: "cm15a_encode_with_state env fd \<lparr>remainder = take 79 v, discarding = False\<rparr> [v ! 79] w =
      (\<lparr>remainder = [], discarding = True\<rparr>, w)" using \<open>length v \<ge> 80\<close> by (intro encode_overflow) simp
  define t where "t = drop 80 v @ [e]"
  have disc: "cm15a_encode_with_state env fd \<lparr>remainder = [], discarding = True\<rparr> t w = (init, w)"
    using encode_discard [of "drop 80 v" e env fd w] assms(1,3,5) by (auto simp: t_def dest: in_set_dropD)
  have "cm15a_encode_with_state env fd init (take 79 v @ [v ! 79] @ t @ s) w = cm15a_encode_with_state env fd init s w"
    by (simp only: cm15a_encode_append fill over disc prod.case)
  then show "cm15a_encode_with_state env fd init (v @ [e] @ s) w = cm15a_encode_with_state env fd init s w"
    using v by (metis append_assoc t_def)
qed

theorem overlong_lines_witness:
  "(let run = cm15a_encode_with_state env_zero 5 cm15a_encode_state_init in
    run (''PL A1 ON'' @ [chr_nl] @ ''ST'') world_one = run ''ST'' (run_line env_zero 5 ''PL A1 ON'' world_one) \<and>
    run (replicate 79 (CHR ''x'') @ [chr_nl] @ ''PL A1 ON'' @ [chr_nl] @ ''ST'') world_one = run ''ST'' world_one \<and>
    run (replicate 80 (CHR ''x'') @ [chr_nl] @ ''ST'') world_one = run ''ST'' world_one)"
  using overlong_lines [of "''PL A1 ON''" "[]" chr_nl chr_nl _ env_zero 5 "''ST''" world_one]
    overlong_lines [of "replicate 79 (CHR ''x'')" "''PL A1 ON''" chr_nl chr_nl _ env_zero 5 "''ST''" world_one]
    overlong_lines [of "replicate 80 (CHR ''x'')" "[]" chr_nl chr_nl _ env_zero 5 "''ST''" world_one]
  by (simp add: is_eol_def cm15a_encode_state_init_def Let_def)

theorem reader_runs_lines_witness:
  "\<exists>st v. cm15a_encode_with_state env_zero 5 cm15a_encode_state_init ''PL A1'' world_one = (st, v) \<and>
     cm15a_encode_with_state env_zero 5 st ('' ON'' @ [chr_nl] @ ''PL'') v =
       (\<lparr>remainder = ''PL'', discarding = False\<rparr>, run_line env_zero 5 ''PL A1 ON'' world_one)"
proof -
  obtain st v where run: "cm15a_encode_with_state env_zero 5 cm15a_encode_state_init ''PL A1'' world_one = (st, v)"
    by fastforce
  have "split_lines (''PL A1'' @ '' ON'' @ [chr_nl] @ ''PL'') = [''PL A1 ON'', ''PL'']" by (simp add: is_eol_def)
  with reader_runs_lines [of "''PL A1''" "'' ON'' @ [chr_nl] @ ''PL''", OF _ run] run
  show ?thesis by (auto simp: lines_fit_def run_lines_def)
qed

end
