(* ===== verification/Client_Sessions.thy ===== *)
theory Client_Sessions
  imports Line_Reader
begin

text \<open>
  The client sessions under everything the daemon does: an invariant of the client tables that
  disconnecting and output preserve is preserved by every report, every command and every flush.
  The contract is a locale; it is interpreted for the well-formed tables in which every client's
  socket is open and every client's line reader is inside its array.
\<close>

section \<open>Invariants of the client tables\<close>

locale client_invariant =
  fixes P :: "net \<Rightarrow> bool"
  assumes wf: "P n \<Longrightarrow> net_inv n"
    and del: "P n \<Longrightarrow> fd \<noteq> -1 \<Longrightarrow> P (snd (del_client fd n))"
    and out: "P n \<Longrightarrow> p \<in> Slots \<Longrightarrow> slot_ok ((slot n p)\<lparr>c_out := q\<rparr>) \<Longrightarrow> P (set_slot p ((slot n p)\<lparr>c_out := q\<rparr>) n)"
    and cong: "P n \<Longrightarrow> slot m = slot n \<Longrightarrow> NClients m = NClients n \<Longrightarrow> fd_port m = fd_port n \<Longrightarrow> P m"
begin

lemma time: "P n \<Longrightarrow> P (snd (read_time env n))"
  by (rule cong) (simp_all add: read_time_def)

lemma send: "P n \<Longrightarrow> P (snd (send_all env fd s n))"
proof -
  assume inv: "P n"
  then have counted: "P (n\<lparr>n_send := n_send n + 1\<rparr>)" by (rule cong) simp_all
  show ?thesis
  proof (cases "send_all_impl (e_sends env (n_send n)) fd s (n\<lparr>n_send := n_send n + 1\<rparr>)")
    case None
    with inv counted show ?thesis by (simp add: send_all_def)
  next
    case (Some r)
    obtain ok m where r: "r = (ok, m)" by (cases r)
    have "P m" using cong [OF counted] send_all_impl_frame [OF Some [unfolded r]] by simp
    with inv Some r show ?thesis by (simp add: send_all_def)
  qed
qed

lemma queue: "P n \<Longrightarrow> fd \<noteq> -1 \<Longrightarrow> P (snd (queue_client_bytes env fd s n))"
proof (cases "find_slot fd n")
  case (Some p)
  assume a: "P n" "fd \<noteq> -1"
  from find_slot_Some [OF Some] have p: "p \<in> Slots" "c_fd (slot n p) = fd" by simp_all
  show ?thesis
  proof (cases "client_output_enqueue s (c_out (slot n p))")
    case None
    with a Some show ?thesis by (simp add: queue_client_bytes_def del)
  next
    case enq: (Some q)
    have "slot_ok ((slot n p)\<lparr>c_out := q\<rparr>)"
      using push_ok(1) [OF net_inv_ok [OF wf [OF a(1)] p(1)], of s] p a(2) enq by (simp add: push_def)
    with a p Some enq show ?thesis by (simp add: queue_client_bytes_def out)
  qed
qed (simp add: queue_client_bytes_def send)

lemma table: "P n \<Longrightarrow> P (send_table env k s n)"
  unfolding send_table_def
  by (rule fold_invariant [where P = P and Q = "\<lambda>_. True"]) (auto intro: queue)

lemma sockprintf_inv: "P n \<Longrightarrow> P (snd (sockprintf env fd txt n))"
  by (auto simp: sockprintf_def Let_def split_beta intro!: queue table time)

lemma statusprintf_inv: "P n \<Longrightarrow> fd \<noteq> -1 \<Longrightarrow> P (snd (statusprintf env fd txt n))"
  by (simp add: statusprintf_def queue)

lemma set_stalled_inv: "P n \<Longrightarrow> p \<in> Slots \<Longrightarrow> P (set_stalled env p n)"
proof -
  assume a: "P n" "p \<in> Slots"
  let ?m = "snd (read_time env n)"
  have "slot_ok ((slot ?m p)\<lparr>c_out := (c_out (slot ?m p))\<lparr>q_stalled_since := t\<rparr>\<rparr>)" for t
    using net_inv_ok [OF wf [OF a(1)] a(2)] by (simp add: slot_ok_def oq_inv_def)
  from out [OF time [OF a(1)] a(2) this] a(1) show ?thesis by (simp add: set_stalled_def split_beta)
qed

lemma disconnect_inv: "P n \<Longrightarrow> P (disconnect_stalled_clients now n)"
  unfolding disconnect_stalled_clients_def
  by (rule fold_invariant [where P = P and Q = "\<lambda>_. True"]) (auto simp: stalled_def intro: del)

lemma flush_inv:
  assumes "P n" "p \<in> Slots" "c_fd (slot n p) = fd" "fd \<noteq> -1"
    "flush_client_output env rs fd p budget n = Some (r, b, m)"
  shows "P m"
  using assms
proof (induction rs arbitrary: budget n)
  case Nil
  then show ?case by (auto simp: flush_Nil split: if_splits)
next
  case (Cons x rs)
  show ?case
  proof (cases "q_len (c_out (slot n p)) = 0 \<or> budget = 0")
    case True
    with Cons.prems show ?thesis by (auto simp: flush_Cons)
  next
    case False
    show ?thesis
    proof (cases x)
      case (Sent w)
      let ?w = "min w (min (length (client_output_peek (c_out (slot n p)))) budget)"
      show ?thesis
      proof (cases "?w = 0")
        case True
        with Cons.prems False Sent have "m = set_stalled env p n" by (simp add: flush_Cons)
        with Cons.prems(1,2) show ?thesis by (simp add: set_stalled_inv)
      next
        case w: False
        with Cons.prems(5) False Sent
        have run: "flush_client_output env rs fd p (budget - ?w) (flushed fd p ?w n) = Some (r, b, m)"
          by (simp add: flush_Cons Let_def)
        have le: "?w \<le> length (client_output_peek (c_out (slot n p)))" by simp
        note fl = flushed_inv [OF wf [OF Cons.prems(1)] Cons.prems(2-4) le]
        let ?q = "client_output_consume ?w ((c_out (slot n p))\<lparr>q_stalled_since := 0\<rparr>)"
        have "slot_ok ((slot n p)\<lparr>c_out := ?q\<rparr>)"
          using net_inv_ok [OF fl(1) Cons.prems(2)] by (simp add: flushed_def took_def)
        from out [OF Cons.prems(1,2) this] have "P (flushed fd p ?w n)"
          unfolding flushed_def by (rule cong) (simp_all add: took_def)
        from Cons.IH [OF this Cons.prems(2) fl(2) Cons.prems(4) run] show ?thesis .
      qed
    next
      case Send_eintr
      with Cons.prems(5) False have "flush_client_output env rs fd p budget n = Some (r, b, m)"
        by (simp add: flush_Cons)
      from Cons.IH [OF Cons.prems(1-4) this] show ?thesis .
    next
      case Send_again
      with Cons.prems False have "m = set_stalled env p n" by (simp add: flush_Cons)
      with Cons.prems(1,2) show ?thesis by (simp add: set_stalled_inv)
    next
      case Send_error
      with Cons.prems False have "m = snd (del_client fd n)" by (simp add: flush_Cons)
      with Cons.prems(1,4) show ?thesis by (simp add: del)
    qed
  qed
qed

text \<open>Every primitive step of the daemon.\<close>

lemma primitive_step: "daemon_step env w w' \<Longrightarrow> fd_port (w_net w) (-1) = None \<Longrightarrow> P (w_net w) \<Longrightarrow> P (w_net w')"
proof (induction rule: daemon_step.induct)
  case (step_or20 w fd)
  have "or20client env fd (w_net w) \<Longrightarrow> fd \<noteq> -1" using step_or20 by (auto simp: or20client_def)
  with step_or20 show ?case by (auto simp: or20_ok_def tell_def split_beta intro: statusprintf_inv)
next
  case (step_dup c w)
  obtain b w' where d: "dup_filter env (Some c) w = (b, w')" by fastforce
  with step_dup show ?case by (simp add: dup_filter_frame [OF d])
qed (auto simp: transmit_def say_def on_net_def tell_def on_x10_def split_beta
    intro: sockprintf_inv statusprintf_inv send time)

lemma steps: "daemon_steps env w w' \<Longrightarrow> world_inv w \<Longrightarrow> P (w_net w) \<Longrightarrow> P (w_net w')"
proof (induction rule: rtranclp_induct)
  case (step y z)
  have "world_inv y" by (rule world_inv_steps [OF step.hyps(1) step.prems(1)])
  with step primitive_step [OF step.hyps(2)] show ?case by (simp add: world_inv_def)
qed simp

end

section \<open>Sessions\<close>

text \<open>
  Well-formed tables in which the socket of every client is open and every line reader is inside
  its array.
\<close>

definition sessions_ok :: "net \<Rightarrow> bool" where
  "sessions_ok n \<longleftrightarrow> net_inv n \<and>
     (\<forall>p \<in> Slots. reader_ok (c_state (slot n p)) \<and> (c_fd (slot n p) \<noteq> -1 \<longrightarrow> fd_port n (c_fd (slot n p)) \<noteq> None))"

lemma sessions_set_slot:
  assumes "sessions_ok n" "p \<in> Slots" "slot_ok c" "c_fd c = c_fd (slot n p)" "reader_ok (c_state c)"
  shows "sessions_ok (set_slot p c n)"
  using assms net_inv_set_slot [OF _ assms(2-4)] by (auto simp: sessions_ok_def)

lemma reader_ok_init_slot [simp]: "reader_ok (c_state (init_slot c))"
  by (simp add: init_slot_def)

lemma sessions_del: "sessions_ok n \<Longrightarrow> fd \<noteq> -1 \<Longrightarrow> sessions_ok (snd (del_client fd n))"
proof (cases "find_slot fd n")
  case (Some p)
  assume a: "sessions_ok n" "fd \<noteq> -1"
  then have inv: "net_inv n" by (simp add: sessions_ok_def)
  from find_slot_Some [OF Some] have p: "p \<in> Slots" "c_fd (slot n p) = fd" by simp_all
  have sl: "slot (snd (del_client fd n)) q = (if q = p then init_slot (slot n p) else slot n q)" for q
    by (rule slot_del [OF inv p a(2)])
  have port: "fd_port (snd (del_client fd n)) = (fd_port n)(fd := None)"
    using Some by (simp add: del_client_def)
  have "c_fd (slot n q) \<noteq> fd" if "q \<in> Slots" "q \<noteq> p" for q
    using net_inv_inj [OF inv that(1) p(1)] that(2) p(2) a(2) by auto
  with a net_inv_del [OF inv a(2)] show ?thesis by (auto simp: sessions_ok_def sl port)
qed (simp add: del_client_def)

interpretation sessions: client_invariant sessions_ok
proof
  show "sessions_ok n \<Longrightarrow> net_inv n" for n by (simp add: sessions_ok_def)
  show "sessions_ok n \<Longrightarrow> fd \<noteq> -1 \<Longrightarrow> sessions_ok (snd (del_client fd n))" for n fd
    by (rule sessions_del)
  show "sessions_ok (set_slot p ((slot n p)\<lparr>c_out := q\<rparr>) n)"
    if "sessions_ok n" "p \<in> Slots" "slot_ok ((slot n p)\<lparr>c_out := q\<rparr>)" for n p q
    using that(1,2) by (intro sessions_set_slot [OF that]) (simp_all add: sessions_ok_def)
  show "sessions_ok m" if "sessions_ok n" "slot m = slot n" "NClients m = NClients n" "fd_port m = fd_port n" for n m
    using that net_inv_cong [of n m] by (simp add: sessions_ok_def)
qed

text \<open>Well-formed tables, with a descriptor \<open>x\<close> that no socket uses.\<close>

interpretation closed: client_invariant "\<lambda>n. net_inv n \<and> fd_port n x = None" for x
proof
  show "net_inv (snd (del_client fd n)) \<and> fd_port (snd (del_client fd n)) x = None"
    if "net_inv n \<and> fd_port n x = None" "fd \<noteq> -1" for n fd
    using that by (simp add: net_inv_del closed_del)
  show "net_inv (set_slot p ((slot n p)\<lparr>c_out := q\<rparr>) n) \<and> fd_port (set_slot p ((slot n p)\<lparr>c_out := q\<rparr>) n) x = None"
    if "net_inv n \<and> fd_port n x = None" "p \<in> Slots" "slot_ok ((slot n p)\<lparr>c_out := q\<rparr>)" for n p q
    using that by (simp add: net_inv_set_slot)
qed (auto intro: net_inv_cong)

text \<open>A new client: its descriptor is one that was not open.\<close>

lemma sessions_add:
  assumes "sessions_ok n" "0 \<le> fd" "fd_port n fd = None"
  shows "sessions_ok (snd (add_client env k fd (n\<lparr>fd_port := (fd_port n)(fd := Some port)\<rparr>)))"
    "fst (add_client env k fd (n\<lparr>fd_port := (fd_port n)(fd := Some port)\<rparr>)) < 0 \<Longrightarrow>
       (snd (add_client env k fd (n\<lparr>fd_port := (fd_port n)(fd := Some port)\<rparr>)))\<lparr>fd_port := fd_port n\<rparr> = n"
proof -
  let ?n = "n\<lparr>fd_port := (fd_port n)(fd := Some port)\<rparr>"
  have open_fd: "c_fd (slot n p) \<noteq> fd" if "p \<in> Slots" for p
    using assms that by (auto simp: sessions_ok_def)
  then have none: "find_slot fd ?n = None" by (simp add: find_slot_None)
  have inv: "net_inv (snd (add_client env k fd ?n))"
    using net_inv_add [OF _ assms(2) none] assms(1) by (simp add: sessions_ok_def)
  have new: "slot (snd (add_client env k fd ?n)) q = slot n q \<or>
      c_fd (slot (snd (add_client env k fd ?n)) q) = fd \<and> reader_ok (c_state (slot (snd (add_client env k fd ?n)) q))" for q
    by (auto simp: add_client_def next_client_id_def Let_def split: option.split)
  have port: "fd_port (snd (add_client env k fd ?n)) = fd_port ?n"
    by (auto simp: add_client_def next_client_id_def Let_def split: option.split)
  have "reader_ok (c_state (slot (snd (add_client env k fd ?n)) p)) \<and>
      (c_fd (slot (snd (add_client env k fd ?n)) p) \<noteq> -1 \<longrightarrow>
        fd_port (snd (add_client env k fd ?n)) (c_fd (slot (snd (add_client env k fd ?n)) p)) \<noteq> None)"
    if "p \<in> Slots" for p
    using new [of p] assms(1) that unfolding sessions_ok_def port by auto
  with inv show "sessions_ok (snd (add_client env k fd ?n))" unfolding sessions_ok_def by blast
  show "fst (add_client env k fd ?n) < 0 \<Longrightarrow> (snd (add_client env k fd ?n))\<lparr>fd_port := fd_port n\<rparr> = n"
    by (auto simp: add_client_def split_beta split: option.splits if_splits)
qed

section \<open>What every operation keeps\<close>

text \<open>
  Packets are only appended: what has been sent and what is pending is never lost or reordered.
\<close>

definition tx_keeps :: "usb_state \<Rightarrow> usb_state \<Rightarrow> bool" where
  "tx_keeps s t \<longleftrightarrow>
     (\<exists>acc. wire t @ pending t = wire s @ pending s @ acc \<and> (\<forall>p \<in> set acc. length p \<le> 8))"

lemma tx_keeps_refl [simp]: "tx_keeps s s"
  by (simp add: tx_keeps_def)

lemma tx_keeps_trans:
  assumes "tx_keeps s t" "tx_keeps t u"
  shows "tx_keeps s u"
proof -
  from assms(1) obtain a where a: "wire t @ pending t = wire s @ pending s @ a" "\<forall>p \<in> set a. length p \<le> 8"
    unfolding tx_keeps_def by blast
  from assms(2) obtain b where b: "wire u @ pending u = wire t @ pending t @ b" "\<forall>p \<in> set b. length p \<le> 8"
    unfolding tx_keeps_def by blast
  have "wire u @ pending u = wire s @ pending s @ (a @ b)" "\<forall>p \<in> set (a @ b). length p \<le> 8"
    using a b by auto
  then show ?thesis unfolding tx_keeps_def by blast
qed

lemma tx_keeps_appends: "tx_appends s t \<Longrightarrow> tx_keeps s t"
  unfolding tx_appends_def tx_keeps_def by blast

lemma tx_keeps_advance: "advance_effect s t \<Longrightarrow> tx_keeps s t"
  unfolding advance_effect_def tx_keeps_def by (intro exI [of _ "[]"]) auto

lemma tx_keeps_same: "wire t = wire s \<Longrightarrow> pending t = pending s \<Longrightarrow> tx_keeps s t"
  by (simp add: tx_keeps_def)

definition world_ok :: "world \<Rightarrow> bool" where
  "world_ok w \<longleftrightarrow> world_inv w \<and> sessions_ok (w_net w)"

text \<open>An exit of the loop is never revoked, and the device handle is kept.\<close>

definition usb_frame :: "usb_state \<Rightarrow> usb_state \<Rightarrow> bool" where
  "usb_frame s t \<longleftrightarrow> Devh t = Devh s \<and> (Do_exit s \<noteq> 0 \<longrightarrow> Do_exit t \<noteq> 0)"

lemma usb_frame_refl [simp]: "usb_frame s s"
  by (simp add: usb_frame_def)

lemma usb_frame_same: "Devh t = Devh s \<Longrightarrow> Do_exit t = Do_exit s \<Longrightarrow> usb_frame s t"
  by (simp add: usb_frame_def)

lemma usb_frame_write: "usb_frame s (snd (x10_write sub buf s))"
  by (auto simp: usb_frame_def x10_write_def add_x10out_def write_usb_def libusb_submit_out_def Let_def)

lemma usb_frame_finish: "usb_frame s (maybe_finish_x10_transmit sub s)"
  by (auto simp: usb_frame_def maybe_finish_x10_transmit_def send_next_x10out_def write_usb_def
      libusb_submit_out_def Let_def)

lemma usb_frame_trans: "usb_frame s t \<Longrightarrow> usb_frame t u \<Longrightarrow> usb_frame s u"
  by (simp add: usb_frame_def)

text \<open>From a well-formed state to a well-formed one.\<close>

definition world_keeps :: "world \<Rightarrow> world \<Rightarrow> bool" where
  "world_keeps w w' \<longleftrightarrow> (world_ok w \<longrightarrow>
     world_ok w' \<and> tx_keeps (w_usb w) (w_usb w') \<and> same_outside (w_x10 w) (w_x10 w')) \<and>
     usb_frame (w_usb w) (w_usb w')"

lemma world_keeps_refl [simp]: "world_keeps w w"
  by (simp add: world_keeps_def)

lemma world_keeps_trans: "world_keeps v w \<Longrightarrow> world_keeps w x \<Longrightarrow> world_keeps v x"
  unfolding world_keeps_def using tx_keeps_trans same_outside_trans usb_frame_trans by blast

lemma usb_frame_step: "daemon_step env w w' \<Longrightarrow> usb_frame (w_usb w) (w_usb w')"
proof (induction rule: daemon_step.induct)
  case (step_dup c w)
  obtain b w' where d: "dup_filter env (Some c) w = (b, w')" by fastforce
  then show ?case by (simp add: dup_filter_frame [OF d])
qed (auto simp: transmit_def say_def on_net_def tell_def or20_ok_def on_x10_def split_beta usb_frame_write)

lemma usb_frame_steps: "daemon_steps env w w' \<Longrightarrow> usb_frame (w_usb w) (w_usb w')"
  by (induction rule: rtranclp_induct) (auto intro: usb_frame_trans usb_frame_step)

lemma world_keeps_steps: "daemon_steps env w w' \<Longrightarrow> world_keeps w w'"
  using world_inv_steps [of env w w'] sessions.steps [of env w w'] tx_keeps_appends [OF tx_appends_steps]
    same_outside_steps [of env w w'] usb_frame_steps [of env w w']
  by (simp add: world_keeps_def world_ok_def)

lemma world_keeps_net:
  assumes "sessions_ok (w_net w) \<Longrightarrow> fd_port (w_net w) (-1) = None \<Longrightarrow> sessions_ok n \<and> fd_port n (-1) = None"
  shows "world_keeps w (w\<lparr>w_net := n\<rparr>)"
  using assms by (auto simp: world_keeps_def world_ok_def world_inv_def sessions_ok_def)

lemma world_keeps_del: "fd \<noteq> -1 \<Longrightarrow> world_keeps w (on_net (del_client fd) w)"
  unfolding on_net_def by (rule world_keeps_net) (simp add: sessions_del closed_del)

text \<open>The bytes a client sends.\<close>

lemma world_keeps_run_line: "fd \<noteq> -1 \<Longrightarrow> world_keeps w (run_line env fd l w)"
proof -
  assume fd: "fd \<noteq> -1"
  let ?w = "snd (processcommandline env fd l w)"
  have "daemon_steps env w ?w" by (intro daemon_intros fd) simp
  then have "world_keeps w ?w" by (rule world_keeps_steps)
  with world_keeps_del [OF fd, of ?w] show ?thesis
    by (auto simp: run_line_def Let_def intro: world_keeps_trans)
qed

lemma world_keeps_encode:
  assumes "fd \<noteq> -1" "cm15a_encode_with_state env fd st buf w = (st', w')"
  shows "world_keeps w w'"
  using assms(2)
proof (induction buf arbitrary: st w)
  case (Cons c buf)
  obtain s v where b: "encode_byte env fd c (st, w) = (s, v)" by fastforce
  then have "world_keeps w v"
    using world_keeps_run_line [OF assms(1)] by (auto simp: encode_byte_def split: if_splits)
  moreover have "world_keeps v w'"
    by (rule Cons.IH [of s]) (use Cons.prems b in \<open>simp add: cm15a_encode_with_state_def\<close>)
  ultimately show ?case by (rule world_keeps_trans)
qed (simp add: cm15a_encode_with_state_def)

lemma world_keeps_client_input:
  assumes "fd \<noteq> -1"
  shows "world_keeps w (client_input env fd buf w)"
proof (cases "find_slot fd (w_net w)")
  case (Some p)
  then have p: "p \<in> Slots" by (simp add: find_slot_Some)
  obtain st v where e: "cm15a_encode_with_state env fd (c_state (slot (w_net w) p)) buf w = (st, v)" by fastforce
  have v: "world_keeps w v" by (rule world_keeps_encode [OF assms e])
  have "sessions_ok (set_slot p ((slot (w_net v) p)\<lparr>c_state := st\<rparr>) (w_net v))"
    if "sessions_ok (w_net w)" "sessions_ok (w_net v)"
  proof -
    have "reader_ok (c_state (slot (w_net w) p))" using that(1) p by (simp add: sessions_ok_def)
    from reader_ok_encode [OF this, of env fd buf w] e have "reader_ok st" by simp
    moreover have "slot_ok ((slot (w_net v) p)\<lparr>c_state := st\<rparr>)"
      using that(2) p by (auto simp: sessions_ok_def net_inv_def slot_ok_def)
    ultimately show ?thesis using that(2) by (intro sessions_set_slot p) simp_all
  qed
  with v Some e show ?thesis
    by (auto simp: client_input_def world_keeps_def world_ok_def world_inv_def sessions_ok_def)
qed (simp add: client_input_def)

end
