(* ===== verification/Poll_Support.thy ===== *)
theory Poll_Support
  imports Usb_Transmit
begin

text \<open>
  The poll support of \<open>src/core/mochad.c\<close>: the growing pollfd arrays, the records of libusb's
  descriptors and the timeouts. An array is its capacity and the list of the records in use;
  \<open>alloc\<close> tells whether \<open>realloc\<close> succeeds for a capacity. \<open>long\<close> and \<open>nfds_t\<close> are 64 bits wide.
\<close>

section \<open>Growing arrays\<close>

text \<open>The doubling loop from capacity \<open>c > 0\<close>; it wraps at 64 bits in C, far beyond any capacity here.\<close>

function grow_capacity :: "nat \<Rightarrow> nat \<Rightarrow> nat" where
  "grow_capacity c needed = (if 0 < c \<and> c < needed then grow_capacity (c * 2) needed else c)"
  by pat_completeness auto
termination by (relation "measure (\<lambda>(c, needed). needed - c)") auto

declare grow_capacity.simps [simp del]

definition ensure_pollfd_capacity :: "(nat \<Rightarrow> bool) \<Rightarrow> nat \<Rightarrow> nat \<Rightarrow> int \<times> nat" where
  "ensure_pollfd_capacity alloc capacity needed =
     (if needed \<le> capacity then (0, capacity)
      else let new_capacity = grow_capacity (if capacity \<noteq> 0 then capacity else 8) needed
           in if \<not> alloc new_capacity then (- ENOMEM, capacity) else (0, new_capacity))"

section \<open>The descriptors of libusb\<close>

record usb_pollfds =
  UsbPollfds :: "(int \<times> int) list"
  UsbPollfdCapacity :: nat
  UsbPollfdError :: int

definition add_usb_pollfd_record :: "(nat \<Rightarrow> bool) \<Rightarrow> int \<Rightarrow> int \<Rightarrow> usb_pollfds \<Rightarrow> int \<times> usb_pollfds" where
  "add_usb_pollfd_record alloc fd events u =
     (let (r, cap) = ensure_pollfd_capacity alloc (UsbPollfdCapacity u) (length (UsbPollfds u) + 1)
      in if r < 0 then (r, u)
         else (0, u\<lparr>UsbPollfdCapacity := cap, UsbPollfds := UsbPollfds u @ [(fd, events)]\<rparr>))"

fun remove_first_fd :: "int \<Rightarrow> (int \<times> int) list \<Rightarrow> (int \<times> int) list" where
  "remove_first_fd fd [] = []"
| "remove_first_fd fd (p # ps) = (if fst p = fd then ps else p # remove_first_fd fd ps)"

definition remove_usb_pollfd_record :: "int \<Rightarrow> usb_pollfds \<Rightarrow> usb_pollfds" where
  "remove_usb_pollfd_record fd u = u\<lparr>UsbPollfds := remove_first_fd fd (UsbPollfds u)\<rparr>"

definition usb_pollfd_added :: "(nat \<Rightarrow> bool) \<Rightarrow> int \<Rightarrow> int \<Rightarrow> usb_pollfds \<Rightarrow> usb_pollfds" where
  "usb_pollfd_added alloc fd events u =
     (let (r, u) = add_usb_pollfd_record alloc fd events u
      in if r < 0 then u\<lparr>UsbPollfdError := r\<rparr> else u)"

definition usb_pollfd_removed :: "int \<Rightarrow> usb_pollfds \<Rightarrow> usb_pollfds" where
  "usb_pollfd_removed fd u = remove_usb_pollfd_record fd u"

text \<open>\<open>initialize_usb_pollfds\<close> on what \<open>libusb_get_pollfds\<close> returns.\<close>

fun add_all_pollfds :: "(nat \<Rightarrow> bool) \<Rightarrow> (int \<times> int) list \<Rightarrow> usb_pollfds \<Rightarrow> int \<times> usb_pollfds" where
  "add_all_pollfds alloc [] u = (0, u)"
| "add_all_pollfds alloc (p # ps) u =
     (let (r, u) = add_usb_pollfd_record alloc (fst p) (snd p) u
      in if r < 0 then (r, u) else add_all_pollfds alloc ps u)"

definition initialize_usb_pollfds :: "(nat \<Rightarrow> bool) \<Rightarrow> (int \<times> int) list option \<Rightarrow> usb_pollfds \<Rightarrow> int \<times> usb_pollfds" where
  "initialize_usb_pollfds alloc pollfds u =
     (case pollfds of None \<Rightarrow> (- ENOMEM, u) | Some ps \<Rightarrow> add_all_pollfds alloc ps u)"

definition cleanup_usb_pollfds :: "usb_pollfds \<Rightarrow> usb_pollfds" where
  "cleanup_usb_pollfds u = \<lparr>UsbPollfds = [], UsbPollfdCapacity = 0, UsbPollfdError = 0\<rparr>"

section \<open>Timeouts\<close>

definition timeval_to_timeout_ms :: "int \<Rightarrow> int \<Rightarrow> int" where
  "timeval_to_timeout_ms tv_sec tv_usec =
     (if tv_sec < 0 \<or> tv_usec < 0 then 0
      else if tv_sec > INT_MAX div 1000 then INT_MAX
      else let seconds_ms = tv_sec * 1000; useconds_ms = (tv_usec + 999) div 1000
           in if seconds_ms > INT_MAX - useconds_ms then INT_MAX else seconds_ms + useconds_ms)"

text \<open>\<open>usb\<close>: the timeout of libusb when \<open>libusb_get_next_timeout\<close> returns 1.\<close>

definition combined_poll_timeout_ms :: "(int \<times> int) option \<Rightarrow> int \<Rightarrow> int" where
  "combined_poll_timeout_ms usb x10_timeout_ms =
     (case usb of
        None \<Rightarrow> x10_timeout_ms
      | Some (sec, usec) \<Rightarrow>
          let usb_timeout_ms = timeval_to_timeout_ms sec usec
          in if x10_timeout_ms < 0 then usb_timeout_ms
             else if usb_timeout_ms < x10_timeout_ms then usb_timeout_ms
             else x10_timeout_ms)"

section \<open>Lemmas\<close>

lemma grow_capacity_enough: "0 < c \<Longrightarrow> needed \<le> grow_capacity c needed \<and> c \<le> grow_capacity c needed"
proof (induction c needed rule: grow_capacity.induct)
  case (1 c needed)
  show ?case
  proof (cases "c < needed")
    case True
    with 1 have "needed \<le> grow_capacity (c * 2) needed \<and> c * 2 \<le> grow_capacity (c * 2) needed" by simp
    moreover have "grow_capacity c needed = grow_capacity (c * 2) needed"
      using True "1.prems" by (simp add: grow_capacity.simps [of c])
    ultimately show ?thesis by simp
  qed (simp add: grow_capacity.simps [of c])
qed

lemma grow_capacity_less: "0 < c \<Longrightarrow> c < needed \<Longrightarrow> grow_capacity c needed < 2 * needed"
proof (induction c needed rule: grow_capacity.induct)
  case (1 c needed)
  have eq: "grow_capacity c needed = grow_capacity (c * 2) needed"
    using "1.prems" by (simp add: grow_capacity.simps [of c])
  show ?case
  proof (cases "c * 2 < needed")
    case True
    with 1 eq show ?thesis by simp
  next
    case False
    then have "grow_capacity (c * 2) needed = c * 2" by (simp add: grow_capacity.simps [of "c * 2"])
    with eq "1.prems" show ?thesis by simp
  qed
qed

lemma ensure_capacity:
  assumes "ensure_pollfd_capacity alloc capacity needed = (r, cap)"
  shows "(r = 0 \<and> needed \<le> cap \<and> capacity \<le> cap) \<or> (r = - ENOMEM \<and> cap = capacity)"
  using assms grow_capacity_enough [of "if capacity \<noteq> 0 then capacity else 8" needed]
  by (auto simp: ensure_pollfd_capacity_def Let_def split: if_splits)

definition pollfds_ok :: "usb_pollfds \<Rightarrow> bool" where
  "pollfds_ok u \<longleftrightarrow> length (UsbPollfds u) \<le> UsbPollfdCapacity u"

lemma length_remove_first: "length (remove_first_fd fd ps) \<le> length ps"
  by (induction ps) auto

lemma pollfds_ok_add: "pollfds_ok u \<Longrightarrow> pollfds_ok (snd (add_usb_pollfd_record alloc fd ev u))"
  using ensure_capacity [of alloc "UsbPollfdCapacity u" "length (UsbPollfds u) + 1"]
  by (cases "ensure_pollfd_capacity alloc (UsbPollfdCapacity u) (length (UsbPollfds u) + 1)")
    (auto simp: pollfds_ok_def add_usb_pollfd_record_def ENOMEM_def)

lemma pollfds_ok_added: "pollfds_ok u \<Longrightarrow> pollfds_ok (usb_pollfd_added alloc fd ev u)"
  using pollfds_ok_add [of u alloc fd ev] by (auto simp: usb_pollfd_added_def split_beta pollfds_ok_def)

lemma pollfds_ok_removed: "pollfds_ok u \<Longrightarrow> pollfds_ok (usb_pollfd_removed fd u)"
  using length_remove_first [of fd "UsbPollfds u"]
  by (simp add: usb_pollfd_removed_def remove_usb_pollfd_record_def pollfds_ok_def)

section \<open>Properties\<close>

text \<open>
  C36: A poll timeout is never too short, never more than a millisecond too long, and always a
  valid one: it is the least number of milliseconds not below the time of the timeval, cut off at
  \<open>INT_MAX\<close>, for every non-negative timeval; combining takes the earlier of the two timeouts.
\<close>

theorem poll_timeouts:
  assumes "0 \<le> sec" "0 \<le> usec" "ms = timeval_to_timeout_ms sec usec" "usec + 999 < 2 ^ 63"
  shows "0 \<le> ms \<and> ms \<le> INT_MAX \<and>
    (ms < INT_MAX \<longrightarrow> sec * 1000000 + usec \<le> ms * 1000 \<and> ms * 1000 < sec * 1000000 + usec + 1000) \<and>
    (ms = INT_MAX \<longrightarrow> INT_MAX * 1000 < sec * 1000000 + usec + 1000) \<and>
    combined_poll_timeout_ms (Some (sec, usec)) x10 = (if x10 < 0 then ms else min ms x10) \<and>
    combined_poll_timeout_ms None x10 = x10"
proof -
  define q where "q = (usec + 999) div 1000"
  have "(usec + 999) = q * 1000 + (usec + 999) mod 1000" by (simp only: q_def div_mult_mod_eq)
  moreover have "0 \<le> (usec + 999) mod 1000" "(usec + 999) mod 1000 < 1000" by simp_all
  ultimately have u: "usec \<le> q * 1000" "q * 1000 < usec + 1000" by linarith+
  with assms(2) have u0: "0 \<le> q" by linarith
  have max: "INT_MAX = 2147483647" by (simp add: INT_MAX_def)
  have div: "INT_MAX div 1000 = 2147483" by (simp add: max)
  have "combined_poll_timeout_ms (Some (sec, usec)) x10 = (if x10 < 0 then ms else min ms x10)"
    by (simp add: combined_poll_timeout_ms_def assms(3) Let_def min_def)
  moreover have "combined_poll_timeout_ms None x10 = x10" by (simp add: combined_poll_timeout_ms_def)
  moreover have "0 \<le> ms \<and> ms \<le> INT_MAX \<and>
    (ms < INT_MAX \<longrightarrow> sec * 1000000 + usec \<le> ms * 1000 \<and> ms * 1000 < sec * 1000000 + usec + 1000) \<and>
    (ms = INT_MAX \<longrightarrow> INT_MAX * 1000 < sec * 1000000 + usec + 1000)"
  proof (cases "sec > 2147483 \<or> sec * 1000 > INT_MAX - q")
    case True
    then have "ms = INT_MAX"
      using assms(1,2) unfolding assms(3) timeval_to_timeout_ms_def div Let_def q_def by auto
    moreover have "INT_MAX * 1000 < sec * 1000000 + usec + 1000"
      using True u u0 assms(1,2) unfolding max by linarith
    ultimately show ?thesis by (simp add: max)
  next
    case False
    then have ms: "ms = sec * 1000 + q"
      using assms(1,2) unfolding assms(3) timeval_to_timeout_ms_def div Let_def q_def by auto
    have scale: "(sec * 1000 + q) * 1000 = sec * 1000000 + q * 1000" by simp
    have "0 \<le> ms" "ms \<le> INT_MAX" using False u0 assms(1) unfolding ms by linarith+
    moreover have "sec * 1000000 + usec \<le> ms * 1000" "ms * 1000 < sec * 1000000 + usec + 1000"
      using u unfolding ms scale by linarith+
    ultimately show ?thesis by blast
  qed
  ultimately show ?thesis by blast
qed

theorem poll_timeouts_witness:
  "timeval_to_timeout_ms 2 500001 * 1000 < 2500001 + 1000 \<and> 2500001 \<le> timeval_to_timeout_ms 2 500001 * 1000"
proof -
  have "timeval_to_timeout_ms 2 500001 < INT_MAX" by (simp add: timeval_to_timeout_ms_def INT_MAX_def Let_def)
  with poll_timeouts [of 2 500001] show ?thesis by simp
qed

end
