(* ===== verification/Event_Loop.thy ===== *)
theory Event_Loop
  imports Client_Sessions Poll_Support
begin

text \<open>
  The event loop of \<open>src/core/mochad.c\<close>: the callback of the input transfer, the records for
  \<open>poll\<close>, one turn of the loop of \<open>mydaemon\<close> (poll, stalled clients, the events of libusb, new
  clients, client output and input) and the loop. What the operating system and libusb answer
  during a turn is a record of parameters (\<open>turn\<close>). An index of the \<open>poll\<close> array is an index of
  the list of its records; the counts of descriptors are far below \<open>INT_MAX\<close>, so that the casts
  to \<open>int\<close> are not written out. The events of a call of libusb are its callbacks, in order, and
  the signals handled in between.
\<close>

section \<open>State and parameters\<close>

record daemon =
  d_world :: world
  d_usb :: usb_pollfds
  PollfdCapacity :: nat
  IntrInBuf :: "byte list"
  Exit_signal :: int
  listener :: "client_kind \<Rightarrow> int"

datatype usb_event =
    IntrOut_done transfer_status
  | IntrIn_done transfer_status "byte list"
  | Pollfd_added int int
  | Pollfd_removed int
  | Signal_received int

record revents =
  r_in :: bool
  r_out :: bool
  r_err :: bool

datatype poll_result =
    Poll_eintr "int list"
  | Poll_failed
  | Poll_ready nat "nat \<Rightarrow> revents"

datatype read_result = Read_error | Read_bytes string

text \<open>
  \<open>t_alloc\<close>: whether \<open>realloc\<close> succeeds; \<open>t_usb_timeout\<close>: what \<open>libusb_get_next_timeout\<close>
  returns; \<open>t_poll\<close>: the answer of \<open>poll\<close> to its records and timeout; \<open>t_accept\<close>: the
  descriptor \<open>accept\<close> returns, from the open ones; \<open>t_sends\<close> and \<open>t_read\<close>: the results of
  \<open>send\<close> (\<open>EAGAIN\<close> when the list is used up) and \<open>read\<close> for the record at an index;
  \<open>t_junk\<close>: the uninitialised bytes of \<open>bufcm19a\<close>.
\<close>

record turn =
  t_alloc :: "nat \<Rightarrow> bool"
  t_usb_timeout :: "(int \<times> int) option"
  t_poll :: "(int \<times> int) list \<Rightarrow> int \<Rightarrow> poll_result"
  t_events :: "usb_event list"
  t_accept :: "client_kind \<Rightarrow> (int \<Rightarrow> int option) \<Rightarrow> int"
  t_sends :: "nat \<Rightarrow> send_result list"
  t_read :: "nat \<Rightarrow> read_result"
  t_junk :: "byte list"

definition POLLIN :: int where "POLLIN = 1"
definition POLLOUT :: int where "POLLOUT = 4"
definition CLIENT_WRITE_BUDGET_PER_LOOP :: nat where "CLIENT_WRITE_BUDGET_PER_LOOP = 64 * 1024"

definition on_usb :: "(usb_state \<Rightarrow> usb_state) \<Rightarrow> daemon \<Rightarrow> daemon" where
  "on_usb f d = d\<lparr>d_world := (d_world d)\<lparr>w_usb := f (w_usb (d_world d))\<rparr>\<rparr>"

definition on_world :: "(world \<Rightarrow> world) \<Rightarrow> daemon \<Rightarrow> daemon" where
  "on_world f d = d\<lparr>d_world := f (d_world d)\<rparr>"

abbreviation usb_of :: "daemon \<Rightarrow> usb_state" where "usb_of d \<equiv> w_usb (d_world d)"
abbreviation net_of :: "daemon \<Rightarrow> net" where "net_of d \<equiv> w_net (d_world d)"

section \<open>Callbacks\<close>

definition resubmit_input :: "env \<Rightarrow> usb_state \<Rightarrow> usb_state" where
  "resubmit_input env s =
     (let r = e_submit env (n_submit s); s = s\<lparr>n_submit := n_submit s + 1\<rparr>
      in if r < 0 then s\<lparr>Do_exit := 2\<rparr> else s\<lparr>IntrIn_submitted := True\<rparr>)"

definition IntrIn_cb :: "env \<Rightarrow> byte list \<Rightarrow> transfer_status \<Rightarrow> nat \<Rightarrow> daemon \<Rightarrow> daemon" where
  "IntrIn_cb env junk status actual_length d =
     (let d = on_usb (\<lambda>s. s\<lparr>IntrIn_submitted := False\<rparr>) d
      in if status = LIBUSB_TRANSFER_CANCELLED then on_usb (\<lambda>s. s\<lparr>IntrIn_canceling := False\<rparr>) d
         else
           let d = on_usb (\<lambda>s. s\<lparr>IntrIn_canceling := False\<rparr>) d
           in if status \<noteq> LIBUSB_TRANSFER_COMPLETED then on_usb (\<lambda>s. s\<lparr>Do_exit := 2\<rparr>) d
              else
                let d = (if actual_length = 1 then on_usb (one_byte_input (e_submit env) (IntrInBuf d ! 0)) d else d);
                    d = on_world (cm15a_decode env junk (-1) (IntrInBuf d) actual_length) d
                in if Do_exit (usb_of d) \<noteq> 0 then d else on_usb (resubmit_input env) d)"

definition sighandler :: "int \<Rightarrow> daemon \<Rightarrow> daemon" where
  "sighandler signum d = on_usb (\<lambda>s. s\<lparr>Do_exit := 1\<rparr>) (d\<lparr>Exit_signal := signum\<rparr>)"

text \<open>
  An event of libusb; a finished input transfer has filled the front of its 8-byte buffer.
\<close>

fun handle_event :: "env \<Rightarrow> turn \<Rightarrow> usb_event \<Rightarrow> daemon \<Rightarrow> daemon" where
  "handle_event env t (IntrOut_done status) d = on_usb (IntrOut_cb (e_submit env) status) d"
| "handle_event env t (IntrIn_done status bytes) d =
     IntrIn_cb env (t_junk t) status (length (take 8 bytes))
       (d\<lparr>IntrInBuf := take 8 bytes @ drop (length (take 8 bytes)) (IntrInBuf d)\<rparr>)"
| "handle_event env t (Pollfd_added fd events) d = d\<lparr>d_usb := usb_pollfd_added (t_alloc t) fd events (d_usb d)\<rparr>"
| "handle_event env t (Pollfd_removed fd) d = d\<lparr>d_usb := usb_pollfd_removed fd (d_usb d)\<rparr>"
| "handle_event env t (Signal_received signum) d = sighandler signum d"

definition handle_events :: "env \<Rightarrow> turn \<Rightarrow> daemon \<Rightarrow> daemon" where
  "handle_events env t d = fold (handle_event env t) (t_events t) d"

section \<open>The records for poll\<close>

definition ensure_main_poll_capacity :: "(nat \<Rightarrow> bool) \<Rightarrow> nat \<Rightarrow> daemon \<Rightarrow> int \<times> daemon" where
  "ensure_main_poll_capacity alloc needed d =
     (let (r, cap) = ensure_pollfd_capacity alloc (PollfdCapacity d) needed in (r, d\<lparr>PollfdCapacity := cap\<rparr>))"

definition client_count :: "net \<Rightarrow> nat" where
  "client_count n = unat (NClients n Main_client + NClients n Xml_client + NClients n Or20_client)"

definition listener_records :: "(client_kind \<Rightarrow> int) \<Rightarrow> (int \<times> int) list" where
  "listener_records fd =
     [(fd Main_client, POLLIN),
      (fd Xml_client, if fd Xml_client \<ge> 0 then POLLIN else 0),
      (fd Or20_client, if fd Or20_client \<ge> 0 then POLLIN else 0)]"

definition poll_records :: "daemon \<Rightarrow> (int \<times> int) list" where
  "poll_records d =
     listener_records (listener d) @ UsbPollfds (d_usb d) @
     map (\<lambda>(fd, out). (fd, POLLIN + (if out then POLLOUT else 0))) (fst (copy_clients (net_of d)))"

text \<open>\<open>npollfds\<close> as it is passed to \<open>poll\<close>.\<close>

definition poll_count :: "daemon \<Rightarrow> nat" where
  "poll_count d = 3 + length (UsbPollfds (d_usb d)) + unat (snd (copy_clients (net_of d)))"

section \<open>Clients\<close>

definition flush_client :: "env \<Rightarrow> send_result list \<Rightarrow> int \<Rightarrow> world \<Rightarrow> world" where
  "flush_client env rs fd w =
     (case find_slot fd (w_net w) of
        None \<Rightarrow> w
      | Some p \<Rightarrow>
          (case flush_client_output env (rs @ [Send_again]) fd p CLIENT_WRITE_BUDGET_PER_LOOP (w_net w) of
             None \<Rightarrow> w
           | Some (_, _, n) \<Rightarrow> w\<lparr>w_net := n\<rparr>))"

definition read_client :: "env \<Rightarrow> read_result \<Rightarrow> int \<Rightarrow> world \<Rightarrow> world" where
  "read_client env r fd w =
     (case r of
        Read_error \<Rightarrow> on_net (del_client fd) w
      | Read_bytes buf \<Rightarrow> if buf = [] then on_net (del_client fd) w else client_input env fd buf w)"

text \<open>The loop over the records of the clients; the first argument are the indices left.\<close>

fun client_loop :: "env \<Rightarrow> turn \<Rightarrow> (nat \<Rightarrow> revents) \<Rightarrow> (int \<times> int) list \<Rightarrow> nat list \<Rightarrow> int \<Rightarrow> world \<Rightarrow> world" where
  "client_loop env t re recs [] nready w = w"
| "client_loop env t re recs (i # is) nready w =
     (let clifd = fst (recs ! i)
      in if clifd < 0 then client_loop env t re recs is nready w
         else
           let w = (if r_out (re i) then flush_client env (t_sends t i) clifd w else w)
           in if r_out (re i) \<and> client_output_for_fd clifd (w_net w) = None
              then client_loop env t re recs is nready w
              else if r_in (re i) \<or> r_err (re i) then
                let w = read_client env (t_read t i) clifd w
                in if nready - 1 \<le> 0 then w else client_loop env t re recs is (nready - 1) w
              else client_loop env t re recs is nready w)"

text \<open>\<open>accept\<close> on the listener of a table; the new socket has the port of the listener.\<close>

definition listen_port :: "env \<Rightarrow> client_kind \<Rightarrow> int" where
  "listen_port env k =
     (case k of Main_client \<Rightarrow> server_port (e_config env) | Xml_client \<Rightarrow> xml_port (e_config env)
      | Or20_client \<Rightarrow> openremote_port (e_config env))"

definition accept_client :: "env \<Rightarrow> turn \<Rightarrow> client_kind \<Rightarrow> net \<Rightarrow> net" where
  "accept_client env t k n =
     (let clifd = t_accept t k (fd_port n)
      in if clifd < 0 then n
         else
           let (r, n) = add_client env k clifd (n\<lparr>fd_port := (fd_port n)(clifd := Some (listen_port env k))\<rparr>)
           in if r < 0 then n\<lparr>fd_port := (fd_port n)(clifd := None)\<rparr> else n)"

text \<open>The three listeners; the first component is \<open>None\<close> when the turn is over.\<close>

fun accept_clients :: "env \<Rightarrow> turn \<Rightarrow> (client_kind \<Rightarrow> int) \<Rightarrow> (nat \<Rightarrow> revents) \<Rightarrow> (client_kind \<times> nat) list \<Rightarrow> int \<Rightarrow> net
    \<Rightarrow> int option \<times> net" where
  "accept_clients env t lst re [] nready n = (Some nready, n)"
| "accept_clients env t lst re ((k, i) # ks) nready n =
     (if (k = Main_client \<or> lst k \<ge> 0) \<and> r_in (re i) then
        let n = accept_client env t k n
        in if nready - 1 \<le> 0 then (None, n) else accept_clients env t lst re ks (nready - 1) n
      else accept_clients env t lst re ks nready n)"

definition listeners :: "(client_kind \<times> nat) list" where
  "listeners = [(Main_client, 0), (Xml_client, 1), (Or20_client, 2)]"

section \<open>The loop\<close>

definition exit_loop :: "daemon \<Rightarrow> daemon" where
  "exit_loop d = on_usb (\<lambda>s. s\<lparr>Do_exit := 2\<rparr>) d"

text \<open>
  What follows \<open>poll\<close>, with the records \<open>recs\<close> and the count \<open>npollfds\<close> passed to it. The
  first index of the client loop is computed from the descriptors libusb has after its events.
\<close>

definition after_poll :: "env \<Rightarrow> turn \<Rightarrow> (int \<times> int) list \<Rightarrow> nat \<Rightarrow> nat \<Rightarrow> (nat \<Rightarrow> revents) \<Rightarrow> daemon \<Rightarrow> daemon" where
  "after_poll env t recs npollfds nready re d =
     (let (now, n) = read_time env (net_of d);
          d = on_world (\<lambda>w. w\<lparr>w_net := disconnect_stalled_clients now n\<rparr>) d
      in if nready = 0 then on_usb (poll_timed_out (e_submit env)) (handle_events env t d)
         else
           let d = handle_events env t d;
               (left, n) = accept_clients env t (listener d) re listeners (int nready) (net_of d);
               d = on_world (\<lambda>w. w\<lparr>w_net := n\<rparr>) d
           in case left of
                None \<Rightarrow> d
              | Some nready \<Rightarrow>
                  on_world (client_loop env t re recs [3 + length (UsbPollfds (d_usb d))..<npollfds] nready) d)"

definition loop_turn :: "env \<Rightarrow> turn \<Rightarrow> daemon \<Rightarrow> daemon" where
  "loop_turn env t d =
     (if UsbPollfdError (d_usb d) < 0 then exit_loop d
      else
        let (r, d) = ensure_main_poll_capacity (t_alloc t) (3 + length (UsbPollfds (d_usb d)) + client_count (net_of d)) d
        in if r < 0 then exit_loop d
           else
             case t_poll t (take (poll_count d) (poll_records d))
                    (combined_poll_timeout_ms (t_usb_timeout t) (PollTimeOut (usb_of d))) of
               Poll_eintr signums \<Rightarrow> fold sighandler signums d
             | Poll_failed \<Rightarrow> exit_loop d
             | Poll_ready nready re \<Rightarrow> after_poll env t (poll_records d) (poll_count d) nready re d)"

fun main_loop :: "env \<Rightarrow> turn list \<Rightarrow> daemon \<Rightarrow> daemon" where
  "main_loop env [] d = d"
| "main_loop env (t # ts) d = (if Do_exit (usb_of d) \<noteq> 0 then d else main_loop env ts (loop_turn env t d))"

end
