(* ===== verification/Event_Loop_Safety.thy ===== *)
theory Event_Loop_Safety
  imports Event_Loop
begin

text \<open>
  The event loop keeps the whole daemon well-formed: each callback, each step of a turn and the
  loop keep the invariants of the world, of the client sessions and of the descriptor arrays, and
  lose no packet. The one thing asked of the operating system is that \<open>accept\<close> returns a
  descriptor that is not open.
\<close>

section \<open>The invariant of the loop\<close>

definition daemon_ok :: "daemon \<Rightarrow> bool" where
  "daemon_ok d \<longleftrightarrow> world_ok (d_world d) \<and> pollfds_ok (d_usb d) \<and> length (IntrInBuf d) = 8"

definition daemon_keeps :: "daemon \<Rightarrow> daemon \<Rightarrow> bool" where
  "daemon_keeps d d' \<longleftrightarrow> (daemon_ok d \<longrightarrow> daemon_ok d' \<and> listener d' = listener d) \<and>
     world_keeps (d_world d) (d_world d')"

lemma daemon_keeps_refl [simp]: "daemon_keeps d d"
  by (simp add: daemon_keeps_def)

lemma daemon_keeps_trans: "daemon_keeps d e \<Longrightarrow> daemon_keeps e f \<Longrightarrow> daemon_keeps d f"
  unfolding daemon_keeps_def using world_keeps_trans by metis

lemma daemon_keeps_world: "world_keeps (d_world d) (f (d_world d)) \<Longrightarrow> daemon_keeps d (on_world f d)"
  by (auto simp: daemon_keeps_def on_world_def daemon_ok_def world_keeps_def)

lemma daemon_keeps_usb:
  assumes "\<And>s. tx_inv s \<Longrightarrow> tx_inv (f s) \<and> tx_keeps s (f s)" "\<And>s. usb_frame s (f s)"
  shows "daemon_keeps d (on_usb f d)"
  using assms [of "usb_of d"]
  by (auto simp: daemon_keeps_def on_usb_def daemon_ok_def world_keeps_def world_ok_def world_inv_def)

lemma daemon_keeps_net:
  assumes "sessions_ok (net_of d) \<Longrightarrow> fd_port (net_of d) (-1) = None \<Longrightarrow> sessions_ok n \<and> fd_port n (-1) = None"
  shows "daemon_keeps d (on_world (\<lambda>w. w\<lparr>w_net := n\<rparr>) d)"
  by (rule daemon_keeps_world) (rule world_keeps_net [OF assms])

section \<open>Callbacks\<close>

lemma tx_inv_input [simp]:
  "tx_inv (s\<lparr>IntrIn_submitted := b\<rparr>) = tx_inv s" "tx_inv (s\<lparr>IntrIn_canceling := b\<rparr>) = tx_inv s"
  "tx_inv (s\<lparr>n_submit := k\<rparr>) = tx_inv s"
  "pending (s\<lparr>IntrIn_submitted := b\<rparr>) = pending s" "pending (s\<lparr>IntrIn_canceling := b\<rparr>) = pending s"
  "pending (s\<lparr>n_submit := k\<rparr>) = pending s"
  by (simp_all add: tx_inv_def pending_def pending_count_def fifo_inv_def)

lemma keeps_finish:
  assumes "tx_inv t" "wire t = wire s" "pending t = pending s"
  shows "tx_inv (maybe_finish_x10_transmit sub t) \<and> tx_keeps s (maybe_finish_x10_transmit sub t)"
  using maybe_finish_effect [OF assms(1), of sub] tx_keeps_advance tx_keeps_trans [OF tx_keeps_same [OF assms(2,3)]]
  by simp

lemma usb_frame_finish_of:
  "Devh t = Devh s \<Longrightarrow> Do_exit t = Do_exit s \<Longrightarrow> usb_frame s (maybe_finish_x10_transmit sub t)"
  using usb_frame_finish [of t sub] by (simp add: usb_frame_def)

lemma daemon_keeps_one_byte: "daemon_keeps d (on_usb (one_byte_input sub b) d)"
  by (rule daemon_keeps_usb; cases "b = 0x55")
    (simp_all add: one_byte_input_def keeps_finish tx_keeps_same usb_frame_finish_of usb_frame_same)

lemma daemon_keeps_timeout: "daemon_keeps d (on_usb (poll_timed_out sub) d)"
  by (rule daemon_keeps_usb) (simp_all add: poll_timed_out_def keeps_finish usb_frame_finish_of)

lemma daemon_keeps_IntrOut: "daemon_keeps d (on_usb (IntrOut_cb sub status) d)"
proof (rule daemon_keeps_usb)
  show "usb_frame s (IntrOut_cb sub status s)" for s
    by (auto simp: IntrOut_cb_def Let_def usb_frame_finish_of) (simp_all add: usb_frame_def)
next
  fix s assume inv: "tx_inv s"
  let ?s = "s\<lparr>IntrOut_submitted := False, IntrOut_canceling := False, IntrOut_completed := True\<rparr>"
  have s: "tx_inv ?s" using inv by (auto simp: tx_inv_def)
  show "tx_inv (IntrOut_cb sub status s) \<and> tx_keeps s (IntrOut_cb sub status s)"
  proof (cases "status = LIBUSB_TRANSFER_COMPLETED")
    case True
    have "IntrOut_cb sub status s =
        maybe_finish_x10_transmit sub (?s\<lparr>UsbOutCompletedCount := UsbOutCompletedCount s + 1\<rparr>)"
      by (simp add: IntrOut_cb_def True Let_def)
    with keeps_finish [of "?s\<lparr>UsbOutCompletedCount := UsbOutCompletedCount s + 1\<rparr>" s sub] s show ?thesis by simp
  next
    case False
    have "IntrOut_cb sub status s = ?s \<or> IntrOut_cb sub status s = ?s\<lparr>Do_exit := 2\<rparr>"
      using False by (simp add: IntrOut_cb_def Let_def)
    with s show ?thesis by (auto intro: tx_keeps_same)
  qed
qed

lemma daemon_keeps_flags:
  "daemon_keeps d (on_usb (\<lambda>s. s\<lparr>IntrIn_submitted := b\<rparr>) d)"
  "daemon_keeps d (on_usb (\<lambda>s. s\<lparr>IntrIn_canceling := b\<rparr>) d)"
  "i \<noteq> 0 \<Longrightarrow> daemon_keeps d (on_usb (\<lambda>s. s\<lparr>Do_exit := i\<rparr>) d)"
  "daemon_keeps d (on_usb (resubmit_input env) d)"
  by (rule daemon_keeps_usb; simp add: tx_keeps_same resubmit_input_def Let_def usb_frame_def)+

lemma daemon_keeps_exit: "daemon_keeps d (exit_loop d)"
  by (simp add: exit_loop_def daemon_keeps_flags)

lemma daemon_keeps_decode: "daemon_keeps d (on_world (cm15a_decode env junk (-1) buf len) d)"
  by (rule daemon_keeps_world, rule world_keeps_steps [of env]) (intro daemon_intros, simp)

lemma daemon_keeps_sig: "daemon_keeps d (sighandler signum d)"
proof -
  have "daemon_keeps d (d\<lparr>Exit_signal := signum\<rparr>)" by (simp add: daemon_keeps_def daemon_ok_def)
  moreover have "daemon_keeps (d\<lparr>Exit_signal := signum\<rparr>) (sighandler signum d)"
    unfolding sighandler_def by (rule daemon_keeps_flags) simp
  ultimately show ?thesis by (rule daemon_keeps_trans)
qed

lemma daemon_keeps_IntrIn: "daemon_keeps d (IntrIn_cb env junk status len d)"
proof -
  define a where "a = on_usb (\<lambda>s. s\<lparr>IntrIn_submitted := False\<rparr>) d"
  define b where "b = on_usb (\<lambda>s. s\<lparr>IntrIn_canceling := False\<rparr>) a"
  define c where "c = (if len = 1 then on_usb (one_byte_input (e_submit env) (IntrInBuf b ! 0)) b else b)"
  define e where "e = on_world (cm15a_decode env junk (-1) (IntrInBuf c) len) c"
  have ab: "daemon_keeps d b"
    unfolding a_def b_def by (rule daemon_keeps_trans) (rule daemon_keeps_flags)+
  have bc: "daemon_keeps b c" by (simp add: c_def daemon_keeps_one_byte)
  have ce: "daemon_keeps c e" unfolding e_def by (rule daemon_keeps_decode)
  have "IntrIn_cb env junk status len d =
      (if status = LIBUSB_TRANSFER_CANCELLED then b
       else if status \<noteq> LIBUSB_TRANSFER_COMPLETED then on_usb (\<lambda>s. s\<lparr>Do_exit := 2\<rparr>) b
       else if Do_exit (usb_of e) \<noteq> 0 then e else on_usb (resubmit_input env) e)"
    unfolding IntrIn_cb_def Let_def a_def [symmetric] b_def [symmetric] c_def [symmetric] e_def [symmetric] ..
  then show ?thesis
    using ab daemon_keeps_trans [OF ab bc] ce daemon_keeps_flags(3) [of 2 b] daemon_keeps_flags(4) [of e env]
    by (auto intro: daemon_keeps_trans)
qed

lemma daemon_keeps_event: "daemon_keeps d (handle_event env t e d)"
proof (cases e)
  case (IntrOut_done status)
  then show ?thesis by (simp add: daemon_keeps_IntrOut)
next
  case (IntrIn_done status bytes)
  have "daemon_keeps d (d\<lparr>IntrInBuf := take 8 bytes @ drop (length (take 8 bytes)) (IntrInBuf d)\<rparr>)"
    by (simp add: daemon_keeps_def daemon_ok_def)
  with IntrIn_done show ?thesis
    by (simp only: handle_event.simps) (rule daemon_keeps_trans, assumption, rule daemon_keeps_IntrIn)
qed (simp_all add: daemon_keeps_def daemon_ok_def pollfds_ok_added pollfds_ok_removed,
     simp add: daemon_keeps_sig [unfolded daemon_keeps_def daemon_ok_def])

lemma daemon_keeps_events: "daemon_keeps d (handle_events env t d)"
proof -
  have "daemon_keeps d (fold (handle_event env t) es d)" for es
    by (induction es arbitrary: d) (auto intro: daemon_keeps_trans daemon_keeps_event)
  then show ?thesis by (simp add: handle_events_def)
qed

section \<open>Clients\<close>

lemma find_slot_fd: "find_slot fd n = Some p \<Longrightarrow> p \<in> Slots \<and> c_fd (slot n p) = fd"
  by (rule find_slot_Some)

lemma world_keeps_flush: "fd \<noteq> -1 \<Longrightarrow> world_keeps w (flush_client env rs fd w)"
proof -
  assume fd: "fd \<noteq> -1"
  have "world_keeps w (w\<lparr>w_net := n\<rparr>)" if p: "find_slot fd (w_net w) = Some p"
    "flush_client_output env (rs @ [Send_again]) fd p CLIENT_WRITE_BUDGET_PER_LOOP (w_net w) = Some (r, b, n)"
    for p r b n
  proof (rule world_keeps_net)
    assume "sessions_ok (w_net w)" "fd_port (w_net w) (-1) = None"
    with sessions.flush_inv [OF _ _ _ fd p(2)] closed.flush_inv [OF _ _ _ fd p(2), of "-1"] find_slot_fd [OF p(1)]
    show "sessions_ok n \<and> fd_port n (-1) = None" by (simp add: sessions_ok_def)
  qed
  then show ?thesis by (auto simp: flush_client_def split: option.split)
qed

lemma world_keeps_read: "fd \<noteq> -1 \<Longrightarrow> world_keeps w (read_client env r fd w)"
  by (simp add: read_client_def world_keeps_del world_keeps_client_input split: read_result.split)

lemma world_keeps_clients: "world_keeps w (client_loop env t re recs is nready w)"
proof (induction "is" arbitrary: nready w)
  case (Cons i "is")
  let ?fd = "fst (recs ! i)"
  show ?case
  proof (cases "?fd < 0")
    case False
    then have fd: "?fd \<noteq> -1" by auto
    define v where "v = (if r_out (re i) then flush_client env (t_sends t i) ?fd w else w)"
    define x where "x = read_client env (t_read t i) ?fd v"
    have wv: "world_keeps w v" by (simp add: v_def world_keeps_flush fd)
    have vx: "world_keeps v x" unfolding x_def by (rule world_keeps_read [OF fd])
    have "client_loop env t re recs (i # is) nready w =
       (if r_out (re i) \<and> client_output_for_fd ?fd (w_net v) = None then client_loop env t re recs is nready v
        else if r_in (re i) \<or> r_err (re i) then
          (if nready - 1 \<le> 0 then x else client_loop env t re recs is (nready - 1) x)
        else client_loop env t re recs is nready v)"
      using False by (simp add: Let_def v_def x_def)
    then show ?thesis
      using wv world_keeps_trans [OF wv vx] Cons.IH by (auto intro: world_keeps_trans)
  qed (simp add: Cons.IH)
qed simp

text \<open>What the daemon asks of \<open>accept\<close>: a new descriptor is one that is not open.\<close>

definition accept_fresh :: "turn \<Rightarrow> bool" where
  "accept_fresh t \<longleftrightarrow> (\<forall>k ports. t_accept t k ports \<ge> 0 \<longrightarrow> ports (t_accept t k ports) = None)"

lemma accept_client_ok:
  assumes "accept_fresh t" "sessions_ok n" "fd_port n (-1) = None"
  shows "sessions_ok (accept_client env t k n) \<and> fd_port (accept_client env t k n) (-1) = None"
proof (cases "t_accept t k (fd_port n) < 0")
  case False
  let ?fd = "t_accept t k (fd_port n)"
  let ?n = "n\<lparr>fd_port := (fd_port n)(?fd := Some (listen_port env k))\<rparr>"
  from False have fd: "0 \<le> ?fd" "fd_port n ?fd = None" "?fd \<noteq> -1" using assms(1) by (auto simp: accept_fresh_def)
  obtain r m where a: "add_client env k ?fd ?n = (r, m)" by fastforce
  note ok = sessions_add [OF assms(2) fd(1,2), of env k "listen_port env k", unfolded a fst_conv snd_conv]
  have port: "fd_port m = fd_port ?n"
    using a by (auto simp: add_client_def next_client_id_def Let_def split: option.splits if_splits)
  have closed_again: "(fd_port m)(?fd := None) = fd_port n" unfolding port using fd(2) by (simp add: fun_upd_idem)
  have "accept_client env t k n = (if r < 0 then m\<lparr>fd_port := fd_port n\<rparr> else m)"
    using False by (simp add: accept_client_def Let_def a closed_again)
  with ok assms(2,3) port fd(3) show ?thesis by auto
qed (simp add: accept_client_def assms)

lemma accept_clients_ok:
  assumes "accept_fresh t" "accept_clients env t lst re ks nready n = (left, m)"
    "sessions_ok n" "fd_port n (-1) = None"
  shows "sessions_ok m \<and> fd_port m (-1) = None"
  using assms(2-4)
proof (induction ks arbitrary: nready n)
  case (Cons a ks)
  obtain k i where a: "a = (k, i)" by (cases a)
  show ?case
    using Cons accept_client_ok [OF assms(1) Cons.prems(2,3), of env k]
    by (auto simp: a Let_def split: if_splits)
qed simp

section \<open>A turn\<close>

lemma daemon_keeps_stalled:
  "daemon_keeps d (on_world (\<lambda>w. w\<lparr>w_net := disconnect_stalled_clients now (snd (read_time env (net_of d)))\<rparr>) d)"
proof (rule daemon_keeps_net)
  let ?m = "disconnect_stalled_clients now (snd (read_time env (net_of d)))"
  assume "sessions_ok (net_of d)" "fd_port (net_of d) (-1) = None"
  then show "sessions_ok ?m \<and> fd_port ?m (-1) = None"
    using sessions.disconnect_inv [OF sessions.time] closed.disconnect_inv [of "snd (read_time env (net_of d))" "-1"]
    by (simp add: sessions_ok_def)
qed

lemma daemon_keeps_after_poll:
  assumes "accept_fresh t"
  shows "daemon_keeps d (after_poll env t recs npollfds nready re d)"
proof -
  define a where "a = on_world (\<lambda>w. w\<lparr>w_net := disconnect_stalled_clients (fst (read_time env (net_of d)))
      (snd (read_time env (net_of d)))\<rparr>) d"
  define b where "b = handle_events env t a"
  obtain left n where acc: "accept_clients env t (listener b) re listeners (int nready) (net_of b) = (left, n)"
    by fastforce
  define c where "c = on_world (\<lambda>w. w\<lparr>w_net := n\<rparr>) b"
  have ab: "daemon_keeps d b"
    unfolding b_def a_def by (rule daemon_keeps_trans [OF daemon_keeps_stalled daemon_keeps_events])
  have bc: "daemon_keeps b c"
    unfolding c_def by (rule daemon_keeps_net) (rule accept_clients_ok [OF assms acc])
  have "after_poll env t recs npollfds nready re d =
      (if nready = 0 then on_usb (poll_timed_out (e_submit env)) b
       else case left of None \<Rightarrow> c
            | Some k \<Rightarrow> on_world (client_loop env t re recs [3 + length (UsbPollfds (d_usb c))..<npollfds] k) c)"
    by (simp only: after_poll_def Let_def split_beta a_def [symmetric] b_def [symmetric] acc fst_conv snd_conv c_def [symmetric])
  moreover have loop: "daemon_keeps c (on_world (client_loop env t re recs is k) c)" for "is" k
    by (rule daemon_keeps_world) (rule world_keeps_clients)
  ultimately show ?thesis
    using daemon_keeps_trans [OF ab daemon_keeps_timeout] daemon_keeps_trans [OF ab bc]
      loop
    by (auto intro: daemon_keeps_trans split: option.split)
qed

lemma daemon_keeps_turn:
  assumes "accept_fresh t"
  shows "daemon_keeps d (loop_turn env t d)"
proof (cases "UsbPollfdError (d_usb d) < 0")
  case False
  define needed where "needed = 3 + length (UsbPollfds (d_usb d)) + client_count (net_of d)"
  obtain r e where cap: "ensure_main_poll_capacity (t_alloc t) needed d = (r, e)" by fastforce
  then have de: "daemon_keeps d e"
    by (auto simp: ensure_main_poll_capacity_def split_beta daemon_keeps_def daemon_ok_def)
  have sigs: "daemon_keeps e (fold sighandler ss e)" for ss
    by (induction ss arbitrary: e) (auto intro: daemon_keeps_trans daemon_keeps_sig)
  have "loop_turn env t d = (if r < 0 then exit_loop e
      else case t_poll t (take (poll_count e) (poll_records e))
             (combined_poll_timeout_ms (t_usb_timeout t) (PollTimeOut (usb_of e))) of
        Poll_eintr signums \<Rightarrow> fold sighandler signums e
      | Poll_failed \<Rightarrow> exit_loop e
      | Poll_ready nready re \<Rightarrow> after_poll env t (poll_records e) (poll_count e) nready re e)"
    using False by (simp only: loop_turn_def if_False needed_def [symmetric] cap prod.case Let_def)
  then show ?thesis
    using daemon_keeps_exit [of e] sigs daemon_keeps_after_poll [OF assms] de
    by (auto intro: daemon_keeps_trans split: poll_result.split)
qed (simp add: loop_turn_def daemon_keeps_exit)

lemma daemon_keeps_loop: "\<forall>t \<in> set ts. accept_fresh t \<Longrightarrow> daemon_keeps d (main_loop env ts d)"
  by (induction ts arbitrary: d) (auto intro: daemon_keeps_trans [OF daemon_keeps_turn])

end
