(* ===== verification/Loop_Turns.thy ===== *)
theory Loop_Turns
  imports Event_Loop_Safety
begin

text \<open>
  The properties of the event loop: what it keeps over any run, that the records for \<open>poll\<close> are
  inside their array, and what a turn does for a client that sends.
\<close>

section \<open>The records of the clients\<close>

lemma poll_count_bounds:
  assumes "sessions_ok (net_of d)"
  shows "length (poll_records d) = poll_count d"
    "poll_count d = 3 + length (UsbPollfds (d_usb d)) + client_count (net_of d)"
    "client_count (net_of d) \<le> 96"
proof -
  let ?l = "fst (copy_clients (net_of d))"
  have inv: "net_inv (net_of d)" using assms by (simp add: sessions_ok_def)
  have le: "length ?l \<le> 96" using length_copy_clients [of "net_of d"] by (simp add: MAXCLISOCKETS_def)
  have cnt: "unat (snd (copy_clients (net_of d))) = length ?l"
    unfolding copy_clients_count [OF inv] using le by (simp add: unat_of_nat take_bit_nat_eq_self)
  have same: "client_count (net_of d) = unat (snd (copy_clients (net_of d)))"
    by (simp add: client_count_def copy_clients_def)
  show "length (poll_records d) = poll_count d"
    by (simp add: poll_records_def poll_count_def listener_records_def cnt)
  show "poll_count d = 3 + length (UsbPollfds (d_usb d)) + client_count (net_of d)"
    by (simp add: poll_count_def same)
  show "client_count (net_of d) \<le> 96" using le by (simp add: same cnt)
qed

lemma poll_record_client:
  assumes "sessions_ok (net_of d)" "3 + length (UsbPollfds (d_usb d)) \<le> i" "i < poll_count d"
  shows "\<exists>p. find_slot (fst (poll_records d ! i)) (net_of d) = Some p \<and> p \<in> Slots \<and>
    c_fd (slot (net_of d) p) = fst (poll_records d ! i) \<and> 0 \<le> fst (poll_records d ! i) \<and>
    fd_port (net_of d) (fst (poll_records d ! i)) \<noteq> None"
proof -
  let ?n = "net_of d"
  let ?l = "map (\<lambda>(fd, out). (fd, POLLIN + (if out then POLLOUT else 0))) (fst (copy_clients ?n))"
  have inv: "net_inv ?n" using assms(1) by (simp add: sessions_ok_def)
  define j where "j = i - (3 + length (UsbPollfds (d_usb d)))"
  have j: "j < length ?l"
    using assms(2,3) poll_count_bounds(1) [OF assms(1)]
    by (simp add: j_def poll_records_def listener_records_def flip: poll_count_bounds(1))
  let ?front = "listener_records (listener d) @ UsbPollfds (d_usb d)"
  have "i = length ?front + j" using assms(2) by (simp add: j_def listener_records_def)
  then have rec: "poll_records d ! i = ?l ! j"
    using nth_append_length_plus [of ?front ?l j] by (simp add: poll_records_def)
  have "fst (?l ! j) = map fst (fst (copy_clients ?n)) ! j" using j by (simp add: split_beta)
  then have "fst (poll_records d ! i) \<in> set (map fst (fst (copy_clients ?n)))"
    unfolding rec using j by (metis length_map nth_mem)
  then obtain p where p: "p \<in> Slots" "c_fd (slot ?n p) \<noteq> -1" "c_fd (slot ?n p) = fst (poll_records d ! i)"
    unfolding copy_clients_fds by auto
  moreover have "0 \<le> c_fd (slot ?n p)" using net_inv_ok [OF inv p(1)] p(2) by (simp add: slot_ok_def)
  moreover have "fd_port ?n (c_fd (slot ?n p)) \<noteq> None" using assms(1) p by (auto simp: sessions_ok_def)
  ultimately show ?thesis using find_slot_inv [OF inv, of "fst (poll_records d ! i)" p] by auto
qed

section \<open>A turn for one client\<close>

lemma client_loop_skip:
  assumes "\<forall>j \<in> set is. \<not> r_in (re j) \<and> \<not> r_out (re j) \<and> \<not> r_err (re j)"
  shows "client_loop env t re recs (is @ js) nready w = client_loop env t re recs js nready w"
  using assms by (induction "is") (auto simp: Let_def)

text \<open>The state in which the events of a turn are handled: the stalled clients are gone.\<close>

definition unstalled :: "env \<Rightarrow> world \<Rightarrow> world" where
  "unstalled env w =
     w\<lparr>w_net := disconnect_stalled_clients (fst (read_time env (w_net w))) (snd (read_time env (w_net w)))\<rparr>"

lemma serves_client:
  assumes "i \<in> {m..<k}" "fst (recs ! i) \<ge> 0" "r_in (re i)" "\<not> r_out (re i)"
    "\<forall>j. j \<noteq> i \<longrightarrow> \<not> r_in (re j) \<and> \<not> r_out (re j) \<and> \<not> r_err (re j)"
  shows "client_loop env t re recs [m..<k] 1 w = read_client env (t_read t i) (fst (recs ! i)) w"
proof -
  have "[m..<k] = [m..<i] @ [i..<k]"
    using upt_add_eq_append [of m i "k - i"] assms(1) by simp
  also have "[i..<k] = i # [Suc i..<k]" using assms(1) by (simp add: upt_conv_Cons)
  finally have "[m..<k] = [m..<i] @ i # [Suc i..<k]" .
  then show ?thesis
    using client_loop_skip [of "[m..<i]" re env t recs "i # [Suc i..<k]" 1 w] assms(2-5)
    by (simp add: Let_def)
qed

text \<open>
  The turns in which \<open>poll\<close> reports only the record of one client, ready for reading, and libusb
  has no event.
\<close>

definition one_readable :: "turn \<Rightarrow> daemon \<Rightarrow> nat \<Rightarrow> bool" where
  "one_readable t d i \<longleftrightarrow>
     UsbPollfdError (d_usb d) = 0 \<and> t_events t = [] \<and>
     3 + length (UsbPollfds (d_usb d)) + client_count (net_of d) \<le> PollfdCapacity d \<and>
     i \<in> {3 + length (UsbPollfds (d_usb d))..<poll_count d} \<and>
     (\<exists>re. t_poll t (poll_records d) (combined_poll_timeout_ms (t_usb_timeout t) (PollTimeOut (usb_of d))) = Poll_ready 1 re \<and>
        r_in (re i) \<and> \<not> r_out (re i) \<and> (\<forall>j. j \<noteq> i \<longrightarrow> \<not> r_in (re j) \<and> \<not> r_out (re j) \<and> \<not> r_err (re j)))"

lemma turn_reads:
  assumes "daemon_ok d" "one_readable t d i"
  shows "d_world (loop_turn env t d) = read_client env (t_read t i) (fst (poll_records d ! i)) (unstalled env (d_world d))"
proof -
  let ?fd = "fst (poll_records d ! i)"
  from assms(2) obtain re where a: "UsbPollfdError (d_usb d) = 0" "t_events t = []"
    "3 + length (UsbPollfds (d_usb d)) + client_count (net_of d) \<le> PollfdCapacity d"
    "t_poll t (poll_records d) (combined_poll_timeout_ms (t_usb_timeout t) (PollTimeOut (usb_of d))) = Poll_ready 1 re"
    "i \<in> {3 + length (UsbPollfds (d_usb d))..<poll_count d}" "r_in (re i)" "\<not> r_out (re i)"
    "\<forall>j. j \<noteq> i \<longrightarrow> \<not> r_in (re j) \<and> \<not> r_out (re j) \<and> \<not> r_err (re j)"
    unfolding one_readable_def by blast
  have ok: "sessions_ok (net_of d)" using assms(1) by (simp add: daemon_ok_def world_ok_def)
  have cap: "ensure_main_poll_capacity (t_alloc t) (3 + length (UsbPollfds (d_usb d)) + client_count (net_of d)) d = (0, d)"
    using a(3) by (simp add: ensure_main_poll_capacity_def ensure_pollfd_capacity_def)
  have recs: "take (poll_count d) (poll_records d) = poll_records d"
    using poll_count_bounds(1) [OF ok] by simp
  have fd: "?fd \<ge> 0" using poll_record_client [OF ok, of i] a(5) by auto
  define e where "e = on_world (unstalled env) d"
  have accept: "accept_clients env t l re listeners 1 n = (Some 1, n)" for l n
    using a(5,8) by (auto simp: listeners_def)
  have "loop_turn env t d = after_poll env t (poll_records d) (poll_count d) 1 re d"
    using a(1,4) by (simp add: loop_turn_def cap recs)
  also have "\<dots> = on_world (client_loop env t re (poll_records d) [3 + length (UsbPollfds (d_usb d))..<poll_count d] 1) e"
    using a(2) by (simp add: after_poll_def split_beta handle_events_def accept e_def on_world_def unstalled_def)
  also have "d_world \<dots> = read_client env (t_read t i) ?fd (unstalled env (d_world d))"
    using serves_client [OF a(5) fd a(6-8)] by (simp add: on_world_def e_def)
  finally show ?thesis .
qed

text \<open>A client that is not stalled keeps its slot.\<close>

lemma disconnect_keeps:
  assumes "net_inv n" "p \<in> Slots" "\<not> stalled now (slot n p)"
  shows "slot (disconnect_stalled_clients now n) p = slot n p"
proof -
  have "slot (fold (\<lambda>p n. if stalled now (slot n p) then snd (del_client (c_fd (slot n p)) n) else n) ps n) p = slot n p"
    if "set ps \<subseteq> Slots" "net_inv n" "\<not> stalled now (slot n p)" for ps n
    using that
  proof (induction ps arbitrary: n)
    case (Cons q ps)
    show ?case
    proof (cases "stalled now (slot n q)")
      case True
      have q: "q \<in> Slots" "c_fd (slot n q) \<noteq> -1" using Cons.prems(1) True by (auto simp: stalled_def)
      have "slot (snd (del_client (c_fd (slot n q)) n)) p = slot n p"
        using slot_del [OF Cons.prems(2) q(1) refl q(2), of p] True Cons.prems(3) by auto
      with Cons net_inv_del [OF Cons.prems(2) q(2)] True show ?thesis by simp
    qed (use Cons in simp)
  qed simp
  from this [of slot_order n] assms show ?thesis by (simp add: disconnect_stalled_clients_def)
qed

text \<open>A line that arrives while its client is between lines.\<close>

lemma client_input_line:
  assumes "find_slot fd (w_net w) = Some p" "c_state (slot (w_net w) p) = cm15a_encode_state_init"
    "\<forall>c \<in> set line. \<not> is_eol c" "length line \<le> 78" "line \<noteq> []"
  shows "w_usb (client_input env fd (line @ [chr_nl]) w) = w_usb (snd (processcommandline env fd line w))"
    "w_x10 (client_input env fd (line @ [chr_nl]) w) = w_x10 (snd (processcommandline env fd line w))"
proof -
  have eol: "is_eol chr_nl" by (simp add: is_eol_def)
  have sp: "split_lines (line @ [chr_nl]) = [line, []]"
    using split_lines_line [OF assms(3) eol, of "[]"] by simp
  have "cm15a_encode_with_state env fd \<lparr>remainder = [], discarding = False\<rparr> (line @ [chr_nl]) w =
      (\<lparr>remainder = [], discarding = False\<rparr>, run_line env fd line w)"
    using cm15a_encode_lines [of "[]" "line @ [chr_nl]" env fd w] assms(4,5)
    by (simp add: sp lines_fit_def run_lines_def)
  then show "w_usb (client_input env fd (line @ [chr_nl]) w) = w_usb (snd (processcommandline env fd line w))"
    "w_x10 (client_input env fd (line @ [chr_nl]) w) = w_x10 (snd (processcommandline env fd line w))"
    using assms(1,2) by (simp_all add: client_input_def cm15a_encode_state_init_def run_line_def Let_def on_net_def)
qed

section \<open>Properties\<close>

text \<open>
  C35: At every turn the records for \<open>poll\<close> (three listeners, the descriptors of libusb, the
  clients) fit the array that was made sure of, their number is the count passed to \<open>poll\<close>, at
  most 96 of them are clients, and each of these is the open socket of the client whose slot the
  descriptor finds.
\<close>

theorem poll_records_fit:
  assumes "daemon_ok d" "\<forall>t \<in> set ts. accept_fresh t" "e = main_loop env ts d"
    "ensure_main_poll_capacity alloc (3 + length (UsbPollfds (d_usb e)) + client_count (net_of e)) e = (r, e')" "\<not> r < 0"
  shows "length (poll_records e') = poll_count e' \<and> poll_count e' \<le> PollfdCapacity e' \<and>
    poll_count e' \<le> 99 + length (UsbPollfds (d_usb e')) \<and>
    (\<forall>i \<in> {3 + length (UsbPollfds (d_usb e'))..<poll_count e'}.
       \<exists>p. find_slot (fst (poll_records e' ! i)) (net_of e') = Some p \<and>
         fd_port (net_of e') (fst (poll_records e' ! i)) \<noteq> None)"
proof -
  have "daemon_ok e" using daemon_keeps_loop [OF assms(2), of d env] assms(1,3) by (simp add: daemon_keeps_def)
  moreover have same: "d_world e' = d_world e" "d_usb e' = d_usb e"
    using assms(4) by (auto simp: ensure_main_poll_capacity_def split_beta)
  ultimately have ok: "sessions_ok (net_of e')" by (simp add: daemon_ok_def world_ok_def)
  obtain r' cap where en: "ensure_pollfd_capacity alloc (PollfdCapacity e)
      (3 + length (UsbPollfds (d_usb e)) + client_count (net_of e)) = (r', cap)" by fastforce
  with assms(4) have "r' = r" "PollfdCapacity e' = cap" by (auto simp: ensure_main_poll_capacity_def)
  with ensure_capacity [OF en] assms(5)
  have "3 + length (UsbPollfds (d_usb e)) + client_count (net_of e) \<le> PollfdCapacity e'"
    by (auto simp: ENOMEM_def)
  then have "poll_count e' \<le> PollfdCapacity e'" by (simp add: poll_count_bounds(2) [OF ok] same)
  moreover have "poll_count e' \<le> 99 + length (UsbPollfds (d_usb e'))"
    using poll_count_bounds(2,3) [OF ok] by simp
  moreover have "\<exists>p. find_slot (fst (poll_records e' ! i)) (net_of e') = Some p \<and>
      fd_port (net_of e') (fst (poll_records e' ! i)) \<noteq> None"
    if "i \<in> {3 + length (UsbPollfds (d_usb e'))..<poll_count e'}" for i
    using poll_record_client [OF ok, of i] that unfolding atLeastLessThan_iff by blast
  ultimately show ?thesis using poll_count_bounds(1) [OF ok] by blast
qed

text \<open>
  C9: A turn in which \<open>poll\<close> reports only one client, ready for reading, with no libusb event,
  gives the bytes read to that client's line reader and does nothing else but disconnect stalled
  clients; a failed read or an end of file disconnects the client.
\<close>

theorem turn_serves_client:
  assumes "daemon_ok d" "one_readable t d i" "fd = fst (poll_records d ! i)"
  shows "d_world (loop_turn env t d) =
    (case t_read t i of
       Read_error \<Rightarrow> on_net (del_client fd) (unstalled env (d_world d))
     | Read_bytes buf \<Rightarrow>
         if buf = [] then on_net (del_client fd) (unstalled env (d_world d))
         else client_input env fd buf (unstalled env (d_world d)))"
  unfolding assms(3) turn_reads [OF assms(1,2)] by (simp add: read_client_def)

text \<open>
  C7: From the socket to the controller: when a client types \<open>PL <house><unit> ON\<close> (or OFF), in any
  case and spacing, and the line arrives in a turn, that turn switches the unit with the selection,
  leaves every other house as it is and appends exactly the address and the function packet to the
  packets for the controller.
\<close>

theorem typed_command_switches:
  assumes "daemon_ok d" "one_readable t d i" "fd = fst (poll_records d ! i)"
    and client: "find_slot fd (net_of d) = Some p" "c_state (slot (net_of d) p) = cm15a_encode_state_init"
      "\<not> stalled (e_time env (n_time (net_of d))) (slot (net_of d) p)"
    and line: "t_read t i = Read_bytes (line @ [chr_nl])" "\<forall>c \<in> set line. \<not> is_eol c" "length line \<le> 78"
      "words (strupper line) = [''PL'', unit_word h u, funccommands ! f]"
    and unit: "h < 16" "u < 16" "f = FUNC_ON \<or> f = FUNC_OFF"
    and room: "tx_room 2 (usb_of d)" "\<forall>k. 0 \<le> e_submit env k"
    and w': "w' = d_world (loop_turn env t d)"
  shows "house_abs h (w_x10 w') = spec_func (f = FUNC_ON) (spec_add u (house_abs h (w_x10 (d_world d)))) \<and>
    (\<forall>k. k \<noteq> h \<longrightarrow> house_abs k (w_x10 w') = house_abs k (w_x10 (d_world d))) \<and>
    tx_log (w_usb w') = tx_log (usb_of d) @ [pl_houseunit_tx h u, pl_housefunc_tx h f 0]"
proof -
  let ?w = "unstalled env (d_world d)"
  have ok: "sessions_ok (net_of d)" "x10_wf (w_x10 (d_world d))"
    using assms(1) by (simp_all add: daemon_ok_def world_ok_def world_inv_def)
  then have inv: "net_inv (net_of d)" by (simp add: sessions_ok_def)
  have p: "p \<in> Slots" "c_fd (slot (net_of d) p) = fd" using find_slot_Some [OF client(1)] by simp_all
  have fd: "fd \<ge> 0" using poll_record_client [OF ok(1), of i] assms(2,3) by (auto simp: one_readable_def)
  have sl: "slot (w_net ?w) p = slot (net_of d) p"
    using disconnect_keeps [of "snd (read_time env (net_of d))" p] inv p(1) client(3) by (simp add: unstalled_def)
  have "net_inv (w_net ?w)" using inv by (simp add: unstalled_def net_inv_disconnect)
  then have found: "find_slot fd (w_net ?w) = Some p" using find_slot_inv [of "w_net ?w" fd p] p fd by (simp add: sl)
  have ne: "line \<noteq> []" using line(4) by (auto simp: strupper_def words_def)
  have "w' = client_input env fd (line @ [chr_nl]) ?w"
    using turn_reads [OF assms(1,2), of env] by (simp add: w' line(1) read_client_def assms(3))
  then have eq: "w_usb w' = w_usb (snd (processcommandline env fd line ?w))"
    "w_x10 w' = w_x10 (snd (processcommandline env fd line ?w))"
    using client_input_line [OF found _ line(2,3) ne, of env] client(2) by (simp_all add: sl)
  have same: "w_usb ?w = usb_of d" "w_x10 ?w = w_x10 (d_world d)" by (simp_all add: unstalled_def)
  obtain r v where run: "processcommandline env fd line ?w = (r, v)" by fastforce
  from pl_command_effect [OF unit _ _ room(2) line(4) run] ok(2) room(1) show ?thesis
    by (simp add: eq run same)
qed

text \<open>
  A daemon with an attached CM15A, one descriptor of libusb and one main client, connected on
  descriptor 5, and a turn in which that client's line arrives.
\<close>

definition net_open :: net where
  "net_open = snd (add_client env_zero Main_client 5 (net_zero\<lparr>fd_port := (\<lambda>_. None)(5 := Some 1099)\<rparr>))"

definition daemon_one :: daemon where
  "daemon_one = \<lparr>d_world = world_one\<lparr>w_net := net_open\<rparr>,
     d_usb = \<lparr>UsbPollfds = [(7, POLLIN)], UsbPollfdCapacity = 8, UsbPollfdError = 0\<rparr>, PollfdCapacity = 128,
     IntrInBuf = replicate 8 0, Exit_signal = 0, listener = (\<lambda>k. if k = Main_client then 3 else -1)\<rparr>"

definition turn_line :: "string \<Rightarrow> turn" where
  "turn_line line = \<lparr>t_alloc = (\<lambda>_. True), t_usb_timeout = None,
     t_poll = (\<lambda>_ _. Poll_ready 1 (\<lambda>j. \<lparr>r_in = (j = 4), r_out = False, r_err = False\<rparr>)), t_events = [],
     t_accept = (\<lambda>_ _. -1), t_sends = (\<lambda>_. []), t_read = (\<lambda>_. Read_bytes line), t_junk = []\<rparr>"

lemma sessions_zero: "sessions_ok net_zero" "fd_port net_zero x = None"
proof -
  have "reader_ok (c_state (slot net_zero p))" if "p \<in> Slots" for p
    using that by (simp add: net_zero_def init_client_def fold_init_slots distinct_slot_order)
  then show "sessions_ok net_zero"
    using net_zero_props(1,3) by (auto simp: sessions_ok_def MAXCLISOCKETS_def)
  have "fd_port (fold (\<lambda>p n. set_slot p (init_slot (slot n p)) n) ps n) x = fd_port n x" for ps n
    by (induction ps arbitrary: n) auto
  then show "fd_port net_zero x = None" by (simp add: net_zero_def init_client_def)
qed

lemma net_open_slots:
  "sessions_ok net_open" "fd_port net_open (-1) = None"
  "p \<in> Slots \<Longrightarrow> c_fd (slot net_open p) = (if p = (Main_client, 0) then 5 else -1)"
proof -
  have ports: "fd_port net_zero = (\<lambda>_. None)" using sessions_zero(2) by auto
  show "sessions_ok net_open"
    using sessions_add(1) [OF sessions_zero(1), of 5 env_zero Main_client 1099] by (simp add: net_open_def ports)
  have "List.find (\<lambda>i. c_fd (Clients net_zero Main_client i) = -1) [0..<MAXCLISOCKETS] = Some 0"
    using net_zero_props(3) [of Main_client 0] by (simp add: MAXCLISOCKETS_def upt_rec slot_def)
  then show "fd_port net_open (-1) = None"
    "p \<in> Slots \<Longrightarrow> c_fd (slot net_open p) = (if p = (Main_client, 0) then 5 else -1)"
    using net_zero_props(3) [of "fst p" "snd p"]
    by (auto simp: net_open_def add_client_def next_client_id_def Let_def env_zero_def Slots_def MAXCLISOCKETS_def)
qed

lemma net_open_first:
  "c_state (slot net_open (Main_client, 0)) = cm15a_encode_state_init"
  "q_len (c_out (slot net_open (Main_client, 0))) = 0"
proof -
  have "List.find (\<lambda>i. c_fd (Clients net_zero Main_client i) = -1) [0..<MAXCLISOCKETS] = Some 0"
    using net_zero_props(3) [of Main_client 0] by (simp add: MAXCLISOCKETS_def upt_rec slot_def)
  then show "c_state (slot net_open (Main_client, 0)) = cm15a_encode_state_init"
    "q_len (c_out (slot net_open (Main_client, 0))) = 0"
    by (simp_all add: net_open_def add_client_def next_client_id_def Let_def env_zero_def client_output_init_def)
qed

lemma daemon_one_ok: "daemon_ok daemon_one"
  using world_inv_one net_open_slots(1,2)
  by (simp add: daemon_one_def daemon_ok_def world_ok_def pollfds_ok_def world_inv_def sessions_ok_def)

lemma turn_line_fresh [simp]: "accept_fresh (turn_line line)"
  by (simp add: accept_fresh_def turn_line_def)

lemma copy_clients_open: "map fst (fst (copy_clients net_open)) = [5]"
proof -
  obtain ps where ps: "slot_order = (Main_client, 0) # ps"
    by (simp add: slot_order_def MAXCLISOCKETS_def upt_conv_Cons)
  have "(Main_client, 0) \<notin> set ps" "set ps \<subseteq> Slots"
    using distinct_slot_order set_slot_order unfolding ps by auto
  then have "c_fd (slot net_open p) = -1" if "p \<in> set ps" for p
    using that net_open_slots(3) [of p] by (metis subsetD)
  then have "filter (\<lambda>p. c_fd (slot net_open p) \<noteq> -1) ps = []" by simp
  then have "filter (\<lambda>p. c_fd (slot net_open p) \<noteq> -1) slot_order = [(Main_client, 0)]"
    unfolding ps by (simp add: net_open_slots(3))
  then show ?thesis by (simp add: copy_clients_fds net_open_slots(3))
qed

lemma daemon_one_records:
  "poll_count daemon_one = 5" "fst (poll_records daemon_one ! 4) = 5" "client_count (net_of daemon_one) \<le> 96"
proof -
  have ok: "sessions_ok (net_of daemon_one)" using daemon_one_ok by (simp add: daemon_ok_def world_ok_def)
  obtain c where c: "fst (copy_clients net_open) = [c]" "fst c = 5" using copy_clients_open by auto
  then have "length (poll_records daemon_one) = 5" "fst (poll_records daemon_one ! 4) = 5"
    by (simp_all add: poll_records_def listener_records_def daemon_one_def split_beta)
  then show "poll_count daemon_one = 5" "fst (poll_records daemon_one ! 4) = 5" "client_count (net_of daemon_one) \<le> 96"
    using poll_count_bounds [OF ok] by simp_all
qed

theorem poll_records_fit_witness:
  "\<exists>e'. ensure_main_poll_capacity (\<lambda>_. True)
       (3 + length (UsbPollfds (d_usb daemon_one)) + client_count (net_of daemon_one)) daemon_one = (0, e') \<and>
     length (poll_records e') = 5 \<and> 5 \<le> PollfdCapacity e'"
proof -
  have "ensure_main_poll_capacity (\<lambda>_. True)
      (3 + length (UsbPollfds (d_usb daemon_one)) + client_count (net_of daemon_one)) daemon_one = (0, daemon_one)"
    using daemon_one_records(3)
    by (simp add: ensure_main_poll_capacity_def ensure_pollfd_capacity_def daemon_one_def)
  with poll_records_fit [OF daemon_one_ok, of "[]" daemon_one env_zero _ 0 daemon_one] show ?thesis
    by (simp add: daemon_one_records)
qed

lemma one_readable_line: "one_readable (turn_line line) daemon_one 4"
  unfolding one_readable_def daemon_one_records
  using daemon_one_records(3) by (auto simp: turn_line_def daemon_one_def)

theorem turn_serves_client_witness:
  "d_world (loop_turn env_zero (turn_line ''PL A1 ON'') daemon_one) =
     client_input env_zero 5 ''PL A1 ON'' (unstalled env_zero (d_world daemon_one))"
  using turn_serves_client [OF daemon_one_ok one_readable_line daemon_one_records(2) [symmetric], of env_zero "''PL A1 ON''"]
  by (simp add: turn_line_def)

theorem typed_command_switches_witness:
  "tx_log (w_usb (d_world (loop_turn env_zero (turn_line (''pl a1 on'' @ [chr_nl])) daemon_one))) =
     [pl_houseunit_tx 0 0, pl_housefunc_tx 0 FUNC_ON 0]"
proof -
  have net: "net_of daemon_one = net_open" "usb_of daemon_one = w_usb world_one" by (simp_all add: daemon_one_def)
  have inv: "net_inv net_open" using net_open_slots(1) by (simp add: sessions_ok_def)
  have f: "find_slot 5 (net_of daemon_one) = Some (Main_client, 0)"
    using find_slot_inv [OF inv, of 5 "(Main_client, 0)"] net_open_slots(3) [of "(Main_client, 0)"] by (simp add: net)
  have q: "c_state (slot (net_of daemon_one) (Main_client, 0)) = cm15a_encode_state_init"
    "\<not> stalled now (slot (net_of daemon_one) (Main_client, 0))" for now
    using net_open_first by (simp_all add: net stalled_def)
  have r: "t_read (turn_line (''pl a1 on'' @ [chr_nl])) 4 = Read_bytes (''pl a1 on'' @ [chr_nl])"
    by (simp add: turn_line_def)
  have l: "\<forall>c \<in> set ''pl a1 on''. \<not> is_eol c" "length ''pl a1 on'' \<le> 78" by (simp_all add: is_eol_def)
  have ws: "words (strupper ''pl a1 on'') = [''PL'', unit_word 0 0, funccommands ! FUNC_ON]"
    by (simp add: eval_words)
  from typed_command_switches [OF daemon_one_ok one_readable_line daemon_one_records(2) [symmetric] f q r l ws
      _ _ _ _ world_one_frame(3) refl]
  show ?thesis by (simp add: net tx_room_one)
qed

end
