(* ===== verification/Endpoint_Selection.thy ===== *)
theory Endpoint_Selection
  imports Usb_Transmit
begin

text \<open>
  \<open>src/usb/usb_endpoint_selection.c\<close>: choosing the interrupt endpoints of the controller from
  a configuration descriptor. The descriptors are records of the fields the function reads; the
  counts \<open>bNumInterfaces\<close>, \<open>num_altsetting\<close> and \<open>bNumEndpoints\<close> are the lengths of the lists. The
  null-pointer checks of the output parameters have no counterpart.
\<close>

section \<open>Descriptors\<close>

record endpoint_descriptor =
  bEndpointAddress :: byte
  bmAttributes :: byte
  wMaxPacketSize :: "16 word"

record interface_descriptor =
  bInterfaceNumber :: byte
  bAlternateSetting :: byte
  endpoints :: "endpoint_descriptor list"

type_synonym config_descriptor = "interface_descriptor list list"

definition LIBUSB_TRANSFER_TYPE_MASK :: byte where "LIBUSB_TRANSFER_TYPE_MASK = 3"
definition LIBUSB_TRANSFER_TYPE_INTERRUPT :: byte where "LIBUSB_TRANSFER_TYPE_INTERRUPT = 3"
definition LIBUSB_ENDPOINT_IN :: byte where "LIBUSB_ENDPOINT_IN = 0x80"

section \<open>Selection\<close>

text \<open>The local variables of the search.\<close>

record selection =
  found_interface :: bool
  found_altsetting :: bool
  in_count :: nat
  out_count :: nat
  sel_in :: "byte \<times> nat"
  sel_out :: "byte \<times> nat"

definition packet_size :: "endpoint_descriptor \<Rightarrow> nat" where
  "packet_size e = unat (wMaxPacketSize e AND 0x07ff)"

definition is_interrupt :: "endpoint_descriptor \<Rightarrow> bool" where
  "is_interrupt e \<longleftrightarrow> bmAttributes e AND LIBUSB_TRANSFER_TYPE_MASK = LIBUSB_TRANSFER_TYPE_INTERRUPT"

definition select_endpoint :: "nat \<Rightarrow> nat \<Rightarrow> endpoint_descriptor \<Rightarrow> selection \<Rightarrow> selection" where
  "select_endpoint min_in min_out e s =
     (if \<not> is_interrupt e then s
      else if bEndpointAddress e AND LIBUSB_ENDPOINT_IN \<noteq> 0 then
        (if packet_size e < min_in then s
         else s\<lparr>sel_in := (bEndpointAddress e, packet_size e), in_count := in_count s + 1\<rparr>)
      else if packet_size e < min_out then s
      else s\<lparr>sel_out := (bEndpointAddress e, packet_size e), out_count := out_count s + 1\<rparr>)"

definition select_altsetting :: "int \<Rightarrow> int \<Rightarrow> nat \<Rightarrow> nat \<Rightarrow> interface_descriptor \<Rightarrow> selection \<Rightarrow> selection" where
  "select_altsetting interface_number alternate_setting min_in min_out alt s =
     (if uint (bInterfaceNumber alt) \<noteq> interface_number then s
      else let s = s\<lparr>found_interface := True\<rparr>
           in if uint (bAlternateSetting alt) \<noteq> alternate_setting then s
              else fold (select_endpoint min_in min_out) (endpoints alt) (s\<lparr>found_altsetting := True\<rparr>))"

text \<open>The result, and the addresses and packet sizes left in the output parameters.\<close>

definition mochad_select_interrupt_endpoints ::
  "config_descriptor option \<Rightarrow> int \<Rightarrow> int \<Rightarrow> nat \<Rightarrow> nat \<Rightarrow> int \<times> (byte \<times> nat) \<times> (byte \<times> nat)" where
  "mochad_select_interrupt_endpoints config interface_number alternate_setting min_in min_out =
     (case config of
        None \<Rightarrow> (- EINVAL, (0, 0), (0, 0))
      | Some ifaces \<Rightarrow>
          if interface_number < 0 \<or> alternate_setting < 0 then (- EINVAL, (0, 0), (0, 0))
          else
            let s = fold (\<lambda>iface s. fold (select_altsetting interface_number alternate_setting min_in min_out) iface s)
                      ifaces
                      \<lparr>found_interface = False, found_altsetting = False, in_count = 0, out_count = 0,
                       sel_in = (0, 0), sel_out = (0, 0)\<rparr>
            in (if \<not> found_interface s \<or> \<not> found_altsetting s then - ENODEV
                else if in_count s \<noteq> 1 \<or> out_count s \<noteq> 1 then - ENODEV else 0,
                sel_in s, sel_out s))"

text \<open>
  \<open>get_endpoint_address\<close> of mochad.c, from the results of libusb: the device, the two descriptor
  calls. The output parameters keep 0 until the selection.
\<close>

definition get_endpoint_address ::
  "bool \<Rightarrow> int \<Rightarrow> int \<Rightarrow> config_descriptor option \<Rightarrow> int \<times> byte \<times> byte" where
  "get_endpoint_address has_device r_desc r_config config =
     (if \<not> has_device then (- ENODEV, 0, 0)
      else if r_desc < 0 then (r_desc, 0, 0)
      else if r_config < 0 then (r_config, 0, 0)
      else if config = None then (- ENODEV, 0, 0)
      else let (r, i, out) = mochad_select_interrupt_endpoints config 0 0 8 8
           in (if r < 0 then r else 0, fst i, fst out))"

section \<open>Specification\<close>

text \<open>The usable endpoints of the settings that match, in the order of the descriptor.\<close>

definition matching :: "int \<Rightarrow> int \<Rightarrow> config_descriptor \<Rightarrow> interface_descriptor list" where
  "matching n a ifaces =
     filter (\<lambda>alt. uint (bInterfaceNumber alt) = n \<and> uint (bAlternateSetting alt) = a) (concat ifaces)"

definition is_in :: "endpoint_descriptor \<Rightarrow> bool" where
  "is_in e \<longleftrightarrow> bEndpointAddress e AND LIBUSB_ENDPOINT_IN \<noteq> 0"

definition usable :: "bool \<Rightarrow> nat \<Rightarrow> int \<Rightarrow> int \<Rightarrow> config_descriptor \<Rightarrow> endpoint_descriptor list" where
  "usable dir least n a ifaces =
     filter (\<lambda>e. is_interrupt e \<and> is_in e = dir \<and> least \<le> packet_size e) (concat (map endpoints (matching n a ifaces)))"

definition last_choice :: "endpoint_descriptor list \<Rightarrow> byte \<times> nat" where
  "last_choice es = (if es = [] then (0, 0) else (bEndpointAddress (last es), packet_size (last es)))"

text \<open>The search has seen the endpoints \<open>ins\<close> and \<open>outs\<close>.\<close>

definition seen :: "endpoint_descriptor list \<Rightarrow> endpoint_descriptor list \<Rightarrow> selection \<Rightarrow> bool" where
  "seen ins outs s \<longleftrightarrow> in_count s = length ins \<and> out_count s = length outs \<and>
     sel_in s = last_choice ins \<and> sel_out s = last_choice outs"

definition keep :: "bool \<Rightarrow> nat \<Rightarrow> endpoint_descriptor list \<Rightarrow> endpoint_descriptor list" where
  "keep dir least es = filter (\<lambda>e. is_interrupt e \<and> is_in e = dir \<and> least \<le> packet_size e) es"

lemma select_endpoint_found [simp]:
  "found_interface (select_endpoint mi mo e s) = found_interface s"
  "found_altsetting (select_endpoint mi mo e s) = found_altsetting s"
  by (simp_all add: select_endpoint_def)

lemma keep_append: "keep d l (xs @ ys) = keep d l xs @ keep d l ys"
  by (simp add: keep_def)

lemma select_endpoints_seen:
  assumes "seen ins outs s"
  shows "seen (ins @ keep True mi es) (outs @ keep False mo es) (fold (select_endpoint mi mo) es s) \<and>
    found_interface (fold (select_endpoint mi mo) es s) = found_interface s \<and>
    found_altsetting (fold (select_endpoint mi mo) es s) = found_altsetting s"
  using assms
proof (induction es arbitrary: ins outs s)
  case (Cons e es)
  have "seen (ins @ keep True mi [e]) (outs @ keep False mo [e]) (select_endpoint mi mo e s)"
    using Cons.prems by (auto simp: seen_def keep_def select_endpoint_def is_in_def last_choice_def)
  from Cons.IH [OF this] show ?case
    using keep_append [of True mi "[e]" es] keep_append [of False mo "[e]" es] by simp
qed (simp add: keep_def)

lemma select_altsettings_seen:
  assumes "seen ins outs s"
  shows "seen (ins @ keep True mi (concat (map endpoints (matching n a [alts]))))
      (outs @ keep False mo (concat (map endpoints (matching n a [alts])))) (fold (select_altsetting n a mi mo) alts s) \<and>
    found_interface (fold (select_altsetting n a mi mo) alts s) =
      (found_interface s \<or> (\<exists>alt \<in> set alts. uint (bInterfaceNumber alt) = n)) \<and>
    found_altsetting (fold (select_altsetting n a mi mo) alts s) = (found_altsetting s \<or> matching n a [alts] \<noteq> [])"
  using assms
proof (induction alts arbitrary: ins outs s)
  case (Cons alt alts)
  let ?m = "uint (bInterfaceNumber alt) = n \<and> uint (bAlternateSetting alt) = a"
  let ?es = "if ?m then endpoints alt else []"
  have eq: "concat (map endpoints (matching n a [alt # alts])) = ?es @ concat (map endpoints (matching n a [alts]))"
    by (simp add: matching_def)
  have seen': "seen ins outs (s\<lparr>found_interface := b, found_altsetting := c\<rparr>)" for b c
    using Cons.prems by (simp add: seen_def)
  have "seen (ins @ keep True mi ?es) (outs @ keep False mo ?es) (select_altsetting n a mi mo alt s) \<and>
      found_interface (select_altsetting n a mi mo alt s) = (found_interface s \<or> uint (bInterfaceNumber alt) = n) \<and>
      found_altsetting (select_altsetting n a mi mo alt s) = (found_altsetting s \<or> ?m)"
    using select_endpoints_seen [OF seen' [of True True], of mi "endpoints alt" mo] Cons.prems
    by (auto simp: select_altsetting_def Let_def keep_def seen_def)
  with Cons.IH [of "ins @ keep True mi ?es" "outs @ keep False mo ?es" "select_altsetting n a mi mo alt s"]
  show ?case unfolding eq by (auto simp: keep_def matching_def)
qed (simp add: keep_def matching_def)

lemma select_interfaces_seen:
  assumes "seen ins outs s"
  shows "seen (ins @ usable True mi n a ifaces) (outs @ usable False mo n a ifaces)
      (fold (\<lambda>iface s. fold (select_altsetting n a mi mo) iface s) ifaces s) \<and>
    found_interface (fold (\<lambda>iface s. fold (select_altsetting n a mi mo) iface s) ifaces s) =
      (found_interface s \<or> (\<exists>alt \<in> set (concat ifaces). uint (bInterfaceNumber alt) = n)) \<and>
    found_altsetting (fold (\<lambda>iface s. fold (select_altsetting n a mi mo) iface s) ifaces s) =
      (found_altsetting s \<or> matching n a ifaces \<noteq> [])"
  using assms
proof (induction ifaces arbitrary: ins outs s)
  case (Cons alts ifaces)
  have m: "matching n a (alts # ifaces) = matching n a [alts] @ matching n a ifaces" by (simp add: matching_def)
  have u: "usable d l n a (alts # ifaces) = keep d l (concat (map endpoints (matching n a [alts]))) @ usable d l n a ifaces" for d l
    by (simp add: usable_def keep_def m)
  note alts = select_altsettings_seen [OF Cons.prems, of mi n a alts mo]
  from Cons.IH [OF alts [THEN conjunct1]] alts show ?case by (simp add: u m bex_Un disj_assoc)
qed (simp add: usable_def matching_def)

text \<open>
  C24: The selection of endpoints succeeds exactly when the wanted setting exists and offers
  exactly one usable interrupt endpoint in each direction (of the wanted packet size), and then
  returns these two; otherwise it fails with no device, and with invalid argument when there is no
  descriptor or a number is negative.
\<close>

theorem endpoint_selection:
  assumes "mochad_select_interrupt_endpoints config n a mi mo = (r, i, out)"
  shows "r \<in> {0, - ENODEV, - EINVAL} \<and> (r = - EINVAL \<longleftrightarrow> config = None \<or> n < 0 \<or> a < 0) \<and>
    (\<forall>ifaces. config = Some ifaces \<longrightarrow> n \<ge> 0 \<longrightarrow> a \<ge> 0 \<longrightarrow>
      (r = 0 \<longleftrightarrow> length (usable True mi n a ifaces) = 1 \<and> length (usable False mo n a ifaces) = 1) \<and>
      (r = 0 \<longrightarrow> (\<exists>e f. usable True mi n a ifaces = [e] \<and> usable False mo n a ifaces = [f] \<and>
         i = (bEndpointAddress e, packet_size e) \<and> out = (bEndpointAddress f, packet_size f))))"
proof (cases "config = None \<or> n < 0 \<or> a < 0")
  case True
  with assms have "r = - EINVAL"
    by (auto simp: mochad_select_interrupt_endpoints_def split: option.splits)
  with True show ?thesis by auto
next
  case False
  then obtain ifaces where c: "config = Some ifaces" by auto
  let ?s = "\<lparr>found_interface = False, found_altsetting = False, in_count = 0, out_count = 0,
    sel_in = (0, 0), sel_out = (0, 0)\<rparr>"
  let ?t = "fold (\<lambda>iface s. fold (select_altsetting n a mi mo) iface s) ifaces ?s"
  have "seen [] [] ?s" by (simp add: seen_def last_choice_def)
  from select_interfaces_seen [OF this, of mi n a ifaces mo]
  have t: "seen (usable True mi n a ifaces) (usable False mo n a ifaces) ?t"
    "found_interface ?t = (\<exists>alt \<in> set (concat ifaces). uint (bInterfaceNumber alt) = n)"
    "found_altsetting ?t = (matching n a ifaces \<noteq> [])" by simp_all
  have fi: "matching n a ifaces \<noteq> [] \<Longrightarrow> \<exists>alt \<in> set (concat ifaces). uint (bInterfaceNumber alt) = n"
    by (auto simp: matching_def filter_empty_conv)
  have um: "usable d l n a ifaces \<noteq> [] \<Longrightarrow> matching n a ifaces \<noteq> []" for d l by (auto simp: usable_def)
  have r: "r = (if \<not> found_interface ?t \<or> \<not> found_altsetting ?t then - ENODEV
      else if in_count ?t \<noteq> 1 \<or> out_count ?t \<noteq> 1 then - ENODEV else 0)" "i = sel_in ?t" "out = sel_out ?t"
    using assms False c by (simp_all add: mochad_select_interrupt_endpoints_def Let_def)
  have zero: "r = 0 \<longleftrightarrow> length (usable True mi n a ifaces) = 1 \<and> length (usable False mo n a ifaces) = 1"
  proof (cases "length (usable True mi n a ifaces) = 1 \<and> length (usable False mo n a ifaces) = 1")
    case True
    then have "usable True mi n a ifaces \<noteq> []" by (metis length_0_conv zero_neq_one)
    then have "matching n a ifaces \<noteq> []" by (rule um)
    with t fi True show ?thesis unfolding r(1) by (simp add: seen_def)
  next
    case False
    with t(1) show ?thesis unfolding r(1) by (auto simp: seen_def ENODEV_def)
  qed
  have "\<exists>e f. usable True mi n a ifaces = [e] \<and> usable False mo n a ifaces = [f] \<and>
      i = (bEndpointAddress e, packet_size e) \<and> out = (bEndpointAddress f, packet_size f)" if "r = 0"
    using zero that t(1) r(2,3) by (auto simp: seen_def last_choice_def length_Suc_conv)
  with zero r(1) False c show ?thesis by (auto simp: ENODEV_def EINVAL_def)
qed

text \<open>The descriptor of a CM15A: one interrupt endpoint in each direction, 8-byte packets.\<close>

definition cm15a_descriptor :: config_descriptor where
  "cm15a_descriptor =
     [[\<lparr>bInterfaceNumber = 0, bAlternateSetting = 0, endpoints =
        [\<lparr>bEndpointAddress = 0x81, bmAttributes = 3, wMaxPacketSize = 8\<rparr>,
         \<lparr>bEndpointAddress = 0x02, bmAttributes = 3, wMaxPacketSize = 8\<rparr>]\<rparr>]]"

theorem endpoint_selection_witness:
  "mochad_select_interrupt_endpoints (Some cm15a_descriptor) 0 0 8 8 = (0, (0x81, 8), (0x02, 8))"
proof -
  obtain r i out where sel: "mochad_select_interrupt_endpoints (Some cm15a_descriptor) 0 0 8 8 = (r, i, out)"
    by (metis surj_pair)
  have ps: "usable True 8 0 0 cm15a_descriptor = [\<lparr>bEndpointAddress = 0x81, bmAttributes = 3, wMaxPacketSize = 8\<rparr>]"
    "usable False 8 0 0 cm15a_descriptor = [\<lparr>bEndpointAddress = 0x02, bmAttributes = 3, wMaxPacketSize = 8\<rparr>]"
    by (simp_all add: usable_def matching_def cm15a_descriptor_def is_interrupt_def is_in_def packet_size_def
        LIBUSB_ENDPOINT_IN_def LIBUSB_TRANSFER_TYPE_MASK_def LIBUSB_TRANSFER_TYPE_INTERRUPT_def)
  from endpoint_selection [OF sel] sel show ?thesis by (auto simp: ps packet_size_def)
qed

end
