(* ===== verification/Daemon_Process.thy ===== *)
theory Daemon_Process
  imports Loop_Turns Endpoint_Selection
begin

text \<open>
  The life of the process in \<open>src/core/mochad.c\<close>: opening the controller, the listeners, the
  start of \<open>mydaemon\<close>, cancelling and draining the transfers, the end of \<open>mydaemon\<close> and \<open>main\<close>.
  What libusb and the operating system answer are records of parameters; logging, signal
  registration and hotplug monitoring (which only logs) are left out.
\<close>

section \<open>Opening the controller\<close>

definition EIO :: int where "EIO = 5"

record open_answers =
  opens_cm15a :: bool
  opens_cm19a :: bool
  a_claim :: int
  a_kernel_driver :: int
  a_detach :: int
  a_claim_again :: int

text \<open>The result, \<open>Reattach\<close> and the state with the device handle and the model.\<close>

definition find_cm15a :: "open_answers \<Rightarrow> usb_state \<Rightarrow> int \<times> bool \<times> usb_state" where
  "find_cm15a a s =
     (let s = s\<lparr>Cm19a := False, Devh := opens_cm15a a\<rparr>;
          s = (if Devh s then s else s\<lparr>Devh := opens_cm19a a\<rparr>)
      in if \<not> Devh s then (- EIO, False, s)
         else
           let s = (if opens_cm15a a then s else s\<lparr>Cm19a := True\<rparr>)
           in if a_claim a = 0 then (0, False, s)
              else if a_kernel_driver a < 0 then (- EIO, False, s)
              else if a_detach a < 0 then (- EIO, False, s)
              else if a_claim_again a < 0 then (- EIO, True, s)
              else (0, True, s))"

section \<open>Listeners\<close>

datatype address_family = AF_INET | AF_INET6

text \<open>A candidate address of \<open>getaddrinfo\<close> with the results of the calls on its socket.\<close>

record candidate =
  ca_family :: address_family
  ca_socket :: int
  ca_reuseaddr :: int
  ca_v6only :: int
  ca_bind :: int
  ca_listen :: int

text \<open>The loop over the candidates: the descriptor it ends with and the descriptors it closed.\<close>

fun try_candidates :: "dual_stack_policy \<Rightarrow> candidate list \<Rightarrow> int \<Rightarrow> int list \<Rightarrow> int \<times> int list" where
  "try_candidates policy [] fd closed = (fd, closed)"
| "try_candidates policy (c # cs) fd closed =
     (let fd = ca_socket c
      in if fd < 0 then try_candidates policy cs fd closed
         else if ca_reuseaddr c < 0 then try_candidates policy cs (-1) (closed @ [fd])
         else if ca_family c = AF_INET6 \<and> policy \<noteq> MOCHAD_DUAL_STACK_DISABLE \<and> ca_v6only c < 0 \<and>
                 policy = MOCHAD_DUAL_STACK_ENABLE then try_candidates policy cs (-1) (closed @ [fd])
         else if ca_bind c < 0 then try_candidates policy cs (-1) (closed @ [fd])
         else if ca_listen c < 0 then try_candidates policy cs (-1) (closed @ [fd])
         else (fd, closed))"

definition create_listener :: "dual_stack_policy \<Rightarrow> candidate list option \<Rightarrow> int \<times> int list" where
  "create_listener policy results =
     (case results of None \<Rightarrow> (-1, []) | Some cs \<Rightarrow> try_candidates policy cs (-1) [])"

definition close_listener :: "client_kind \<Rightarrow> daemon \<Rightarrow> daemon" where
  "close_listener k d = (if listener d k < 0 then d else d\<lparr>listener := (listener d)(k := -1)\<rparr>)"

section \<open>Starting\<close>

record start_answers =
  s_init :: int
  s_open :: open_answers
  s_has_device :: bool
  s_device_desc :: int
  s_config_desc :: int
  s_config :: "config_descriptor option"
  s_alloc_in :: bool
  s_alloc_out :: bool
  s_pollfds :: "(int \<times> int) list option"
  s_realloc :: "nat \<Rightarrow> bool"
  s_candidates :: "client_kind \<Rightarrow> candidate list option"

text \<open>How \<open>mydaemon\<close> gets to its loop or past it, with the value of \<open>r\<close> there.\<close>

datatype started = Returns int | Goto_out int | Goto_out_deinit int | Runs

definition do_init :: int where "do_init = 0"

definition start_listeners :: "env \<Rightarrow> start_answers \<Rightarrow> client_kind \<Rightarrow> int" where
  "start_listeners env a k =
     (let c = e_config env; fd = fst (create_listener (dual_stack c) (s_candidates a k))
      in case k of
           Main_client \<Rightarrow> fd
         | Xml_client \<Rightarrow> if xml_enabled c then fd else -1
         | Or20_client \<Rightarrow> if openremote_enabled c then fd else -1)"

definition listeners_failed :: "env \<Rightarrow> (client_kind \<Rightarrow> int) \<Rightarrow> bool" where
  "listeners_failed env fd \<longleftrightarrow>
     fd Main_client < 0 \<or> (xml_enabled (e_config env) \<and> fd Xml_client < 0) \<or>
     (openremote_enabled (e_config env) \<and> fd Or20_client < 0)"

text \<open>From the poll records of libusb on.\<close>

definition start_services :: "env \<Rightarrow> start_answers \<Rightarrow> daemon \<Rightarrow> started \<times> daemon" where
  "start_services env a d =
     (let (r, u) = initialize_usb_pollfds (s_realloc a) (s_pollfds a) (d_usb d); d = d\<lparr>d_usb := u\<rparr>
      in if r < 0 then (Goto_out_deinit r, d)
         else
           let d = on_usb (initcm1Xa (e_submit env) (if Cm19a (usb_of d) then initcm19abinary else initcm15abinary)) d;
               d = d\<lparr>listener := start_listeners env a\<rparr>
           in if listeners_failed env (listener d) then (Goto_out_deinit r, d)
              else (Runs, on_world (\<lambda>w. w\<lparr>w_net := init_client (w_net w)\<rparr>) d))"

text \<open>The part of \<open>mydaemon\<close> before its loop: the outcome, \<open>Reattach\<close> and the state.\<close>

definition start_daemon :: "env \<Rightarrow> start_answers \<Rightarrow> daemon \<Rightarrow> started \<times> bool \<times> daemon" where
  "start_daemon env a d =
     (let d = on_world (on_x10 hua_sec_init) d
      in if s_init a < 0 then (Returns 1, False, d)
         else
           let (r, reattach, s) = find_cm15a (s_open a) (usb_of d); d = on_usb (\<lambda>_. s) d
           in if r < 0 then (Goto_out r, reattach, d)
              else
                let (r, inendpt, outendpt) = get_endpoint_address (s_has_device a) (s_device_desc a) (s_config_desc a) (s_config a);
                    d = on_usb (\<lambda>s. s\<lparr>InEndpoint := inendpt, OutEndpoint := outendpt\<rparr>) d
                in if r < 0 then (Goto_out_deinit r, reattach, d)
                   else if do_init < 0 then (Goto_out_deinit do_init, reattach, d)
                   else
                     let (r, s) = alloc_transfers (s_alloc_in a) (s_alloc_out a) (usb_of d); d = on_usb (\<lambda>_. s) d
                     in if r < 0 then (Goto_out_deinit r, reattach, d)
                        else
                          let (r, s) = start_transfers (e_submit env) (usb_of d); d = on_usb (\<lambda>_. s) d
                          in if r < 0 then (Goto_out_deinit r, reattach, d)
                             else let (st, d) = start_services env a d in (st, reattach, d))"

section \<open>Stopping\<close>

text \<open>
  \<open>x_drain k\<close>: the result of the \<open>k\<close>-th \<open>libusb_handle_events\<close> of the drain and its events;
  \<open>x_turn\<close> has the other answers for these.
\<close>

record stop_answers =
  x_cancel_out :: int
  x_cancel_in :: int
  x_drain :: "nat \<Rightarrow> int \<times> usb_event list"
  x_turn :: turn
  x_release :: int
  x_attach :: int

text \<open>The loop of \<open>drain_cancelled_transfers\<close> with \<open>n\<close> calls left, before its \<open>k\<close>-th call.\<close>

fun drain_loop :: "env \<Rightarrow> stop_answers \<Rightarrow> nat \<Rightarrow> nat \<Rightarrow> daemon \<Rightarrow> int \<times> daemon" where
  "drain_loop env x k 0 d = (0, d)"
| "drain_loop env x k (Suc n) d =
     (if any_active (usb_of d) then
        (let (r, events) = x_drain x k; d = fold (handle_event env (x_turn x)) events d
         in if r = LIBUSB_ERROR_INTERRUPTED then drain_loop env x (Suc k) n d
            else if r < 0 then (r, d)
            else drain_loop env x (Suc k) n d)
      else (0, d))"

definition drain_cancelled_transfers :: "env \<Rightarrow> stop_answers \<Rightarrow> nat \<Rightarrow> daemon \<Rightarrow> int \<times> daemon" where
  "drain_cancelled_transfers env x max_events d =
     (let (r, d) = drain_loop env x 0 max_events d
      in if r < 0 then (r, d) else if any_active (usb_of d) then (- ETIMEDOUT, d) else (0, d))"

text \<open>From the label \<open>out\<close> on: the exit status.\<close>

definition exit_status :: "int \<Rightarrow> int" where
  "exit_status r = (if r \<ge> 0 then r else - r)"

text \<open>From the label \<open>out_deinit\<close> on.\<close>

definition out_deinit :: "stop_answers \<Rightarrow> bool \<Rightarrow> int \<Rightarrow> daemon \<Rightarrow> int \<times> daemon" where
  "out_deinit x reattach r d =
     (let d = close_listener Or20_client (close_listener Xml_client (close_listener Main_client d));
          d = d\<lparr>PollfdCapacity := 0, d_usb := cleanup_usb_pollfds (d_usb d)\<rparr>;
          d = on_usb free_transfers d;
          r = (if Devh (usb_of d) then (if reattach then x_attach x else x_release x) else r)
      in (exit_status r, d))"

text \<open>What follows the loop.\<close>

definition shutdown_daemon :: "env \<Rightarrow> stop_answers \<Rightarrow> bool \<Rightarrow> daemon \<Rightarrow> int \<times> daemon" where
  "shutdown_daemon env x reattach d =
     (let d = on_usb (cancel_transfers (x_cancel_out x) (x_cancel_in x)) d;
          (_, d) = drain_cancelled_transfers env x 100 d;
          r = (if Do_exit (usb_of d) = 1 then 0 else 1)
      in out_deinit x reattach r d)"

text \<open>
  \<open>mydaemon\<close>, over the answers of its start, of the turns of the loop and of its end: the exit
  status and the final state, or \<open>None\<close> when the loop goes on after the turns given.
\<close>

definition mydaemon :: "env \<Rightarrow> start_answers \<Rightarrow> turn list \<Rightarrow> stop_answers \<Rightarrow> daemon \<Rightarrow> (int \<times> daemon) option" where
  "mydaemon env a ts x d =
     (case start_daemon env a d of
        (Returns r, _, d) \<Rightarrow> Some (r, d)
      | (Goto_out r, _, d) \<Rightarrow> Some (exit_status r, d)
      | (Goto_out_deinit r, reattach, d) \<Rightarrow> Some (out_deinit x reattach r d)
      | (Runs, reattach, d) \<Rightarrow>
          let d = main_loop env ts d
          in if Do_exit (usb_of d) = 0 then None else Some (shutdown_daemon env x reattach d))"

section \<open>main\<close>

text \<open>What \<open>main\<close> does before it starts the daemon, on the arguments after the program name.\<close>

datatype main_action =
    Show_version
  | Show_help
  | Configuration_error string
  | Print_config string
  | Configuration_ok
  | Run_daemon mochad_config

fun early_option :: "string list \<Rightarrow> main_action option" where
  "early_option [] = None"
| "early_option (a # as) =
     (if a = ''--version'' then Some Show_version
      else if a = ''-h'' \<or> a = ''--help'' then Some Show_help
      else early_option as)"

definition main_action ::
  "(string \<Rightarrow> string \<Rightarrow> bool) \<Rightarrow> (string \<Rightarrow> string + string \<times> bool) \<Rightarrow> (string \<Rightarrow> string option) \<Rightarrow> string list \<Rightarrow> main_action"
  where
  "main_action numeric_host files getenv args =
     (case early_option args of
        Some act \<Rightarrow> act
      | None \<Rightarrow>
          (case mochad_config_load 256 numeric_host files getenv args of
             Inl e \<Rightarrow> Configuration_error e
           | Inr c \<Rightarrow>
               if show_version c then Show_version
               else if show_help c then Show_help
               else if print_config c then Print_config (mochad_config_print c)
               else if check_config c then Configuration_ok
               else Run_daemon c))"

text \<open>The exit status; the configuration becomes that of the daemon's environment.\<close>

definition main_exit ::
  "env \<Rightarrow> start_answers \<Rightarrow> turn list \<Rightarrow> stop_answers \<Rightarrow> daemon \<Rightarrow> main_action \<Rightarrow> int option" where
  "main_exit env a ts x d act =
     (case act of
        Configuration_error _ \<Rightarrow> Some 1
      | Run_daemon c \<Rightarrow> map_option fst (mydaemon (env\<lparr>e_config := c\<rparr>) a ts x d)
      | _ \<Rightarrow> Some 0)"

section \<open>The start establishes the invariant\<close>

text \<open>The static variables of the program.\<close>

definition daemon_static :: daemon where
  "daemon_static = \<lparr>d_world =
      \<lparr>w_net = \<lparr>Clients = (\<lambda>_ _. \<lparr>c_fd = 0, c_id = 0, c_state = cm15a_encode_state_init, c_out = empty_output\<rparr>),
          NClients = (\<lambda>_. 0), NextClientId = 1, fd_port = (\<lambda>_. None), sent = (\<lambda>_. []), n_time = 0, n_send = 0\<rparr>,
        w_usb = usb_init, w_x10 = x10_zero, w_dups = replicate 16 \<lparr>timems = 0, rf_command = []\<rparr>,
        RfToPl16 = 0, RfToRf16 = 0, n_mono = 0\<rparr>,
     d_usb = \<lparr>UsbPollfds = [], UsbPollfdCapacity = 0, UsbPollfdError = 0\<rparr>, PollfdCapacity = 0,
     IntrInBuf = replicate 8 0, Exit_signal = 0, listener = (\<lambda>_. -1)\<rparr>"

text \<open>What holds before the client tables are initialised.\<close>

definition boot_ok :: "daemon \<Rightarrow> bool" where
  "boot_ok d \<longleftrightarrow> tx_inv (usb_of d) \<and> x10_wf (w_x10 (d_world d)) \<and> dups_ok (w_dups (d_world d)) \<and>
     fd_port (net_of d) = (\<lambda>_. None) \<and> pollfds_ok (d_usb d) \<and> length (IntrInBuf d) = 8"

lemma boot_static: "boot_ok daemon_static"
  by (simp add: boot_ok_def daemon_static_def tx_inv_init dups_ok_def pollfds_ok_def)

lemma tx_inv_setup [simp]:
  "tx_inv (s\<lparr>Devh := b\<rparr>) = tx_inv s" "tx_inv (s\<lparr>Cm19a := b\<rparr>) = tx_inv s"
  "tx_inv (s\<lparr>InEndpoint := e\<rparr>) = tx_inv s" "tx_inv (s\<lparr>OutEndpoint := e\<rparr>) = tx_inv s"
  "tx_inv (s\<lparr>IntrIn_transfer := b\<rparr>) = tx_inv s" "tx_inv (s\<lparr>IntrOut_transfer := b\<rparr>) = tx_inv s"
  by (simp_all add: tx_inv_def pending_def pending_count_def fifo_inv_def)

lemma boot_usb: "boot_ok d \<Longrightarrow> tx_inv (f (usb_of d)) \<Longrightarrow> boot_ok (on_usb f d)"
  by (simp add: boot_ok_def on_usb_def)

lemma tx_inv_find: "tx_inv s \<Longrightarrow> find_cm15a a s = (r, b, t) \<Longrightarrow> tx_inv t"
  by (auto simp: find_cm15a_def Let_def split: if_splits)

lemma tx_inv_alloc: "tx_inv s \<Longrightarrow> alloc_transfers i out s = (r, t) \<Longrightarrow> tx_inv t"
  by (auto simp: alloc_transfers_def Let_def split: if_splits)

lemma tx_inv_start: "tx_inv s \<Longrightarrow> start_transfers sub s = (r, t) \<Longrightarrow> tx_inv t"
  by (auto simp: start_transfers_def Let_def split: if_splits)

lemma tx_inv_initcm1Xa: "tx_inv s \<Longrightarrow> tx_inv (initcm1Xa sub ps s)"
  unfolding initcm1Xa_def by (induction ps arbitrary: s) (simp_all add: x10_write_tx_inv)

lemma pollfds_ok_all: "pollfds_ok u \<Longrightarrow> add_all_pollfds alloc ps u = (r, v) \<Longrightarrow> pollfds_ok v"
proof (induction ps arbitrary: u)
  case (Cons q ps)
  then show ?case
    using pollfds_ok_add [OF Cons.prems(1), of alloc "fst q" "snd q"] by (auto simp: split_beta split: if_splits)
qed simp

lemma boot_services:
  assumes "boot_ok d" "start_services env a d = (Runs, e)"
  shows "daemon_ok e"
proof -
  obtain r u where p: "initialize_usb_pollfds (s_realloc a) (s_pollfds a) (d_usb d) = (r, u)" by fastforce
  then have u: "pollfds_ok u"
    using pollfds_ok_all [of "d_usb d" "s_realloc a"] assms(1)
    by (auto simp: boot_ok_def initialize_usb_pollfds_def split: option.splits)
  have e: "d_usb e = u" "IntrInBuf e = IntrInBuf d" "net_of e = init_client (net_of d)"
    "usb_of e = initcm1Xa (e_submit env) (if Cm19a (usb_of d) then initcm19abinary else initcm15abinary) (usb_of d)"
    "w_x10 (d_world e) = w_x10 (d_world d)" "w_dups (d_world e) = w_dups (d_world d)"
    using assms(2) by (auto simp: start_services_def p Let_def on_usb_def on_world_def split: if_splits)
  have ports: "fd_port (init_client n) = fd_port n" for n
  proof -
    have "fd_port (fold (\<lambda>p n. set_slot p (init_slot (slot n p)) n) ps n) = fd_port n" for ps n
      by (induction ps arbitrary: n) auto
    then show ?thesis by (simp add: init_client_def)
  qed
  have sl: "slot (init_client n) p = init_slot (slot n p)" if "p \<in> Slots" for n p
    using that by (simp add: init_client_def fold_init_slots distinct_slot_order)
  have "sessions_ok (init_client (net_of d))"
    by (simp add: sessions_ok_def net_inv_init sl)
  with assms(1) u tx_inv_initcm1Xa show ?thesis
    by (simp add: daemon_ok_def world_ok_def world_inv_def e boot_ok_def ports net_inv_init)
qed

lemma start_daemon_ok:
  assumes "boot_ok d" "start_daemon env a d = (Runs, reattach, e)"
  shows "daemon_ok e"
proof -
  define d1 where "d1 = on_world (on_x10 hua_sec_init) d"
  have b1: "boot_ok d1" using assms(1) by (simp add: d1_def boot_ok_def on_world_def on_x10_def x10_wf_sec_init)
  obtain r2 re s2 where f: "find_cm15a (s_open a) (usb_of d1) = (r2, re, s2)" by (metis prod_cases3)
  define d2 where "d2 = on_usb (\<lambda>_. s2) d1"
  have b2: "boot_ok d2"
    unfolding d2_def by (rule boot_usb [OF b1]) (use tx_inv_find [OF _ f] b1 in \<open>simp add: boot_ok_def\<close>)
  obtain r3 ie oe where g: "get_endpoint_address (s_has_device a) (s_device_desc a) (s_config_desc a) (s_config a) = (r3, ie, oe)"
    by (metis prod_cases3)
  define d3 where "d3 = on_usb (\<lambda>s. s\<lparr>InEndpoint := ie, OutEndpoint := oe\<rparr>) d2"
  have b3: "boot_ok d3" unfolding d3_def by (rule boot_usb [OF b2]) (use b2 in \<open>simp add: boot_ok_def\<close>)
  obtain r4 s4 where al: "alloc_transfers (s_alloc_in a) (s_alloc_out a) (usb_of d3) = (r4, s4)" by fastforce
  define d4 where "d4 = on_usb (\<lambda>_. s4) d3"
  have b4: "boot_ok d4"
    unfolding d4_def by (rule boot_usb [OF b3]) (use tx_inv_alloc [OF _ al] b3 in \<open>simp add: boot_ok_def\<close>)
  obtain r5 s5 where st: "start_transfers (e_submit env) (usb_of d4) = (r5, s5)" by fastforce
  define d5 where "d5 = on_usb (\<lambda>_. s5) d4"
  have b5: "boot_ok d5"
    unfolding d5_def by (rule boot_usb [OF b4]) (use tx_inv_start [OF _ st] b4 in \<open>simp add: boot_ok_def\<close>)
  have "start_services env a d5 = (Runs, e)"
    using assms(2)
    by (simp add: start_daemon_def Let_def d1_def [symmetric] f d2_def [symmetric] g d3_def [symmetric] al
        d4_def [symmetric] st d5_def [symmetric] split: if_splits prod.splits)
  then show ?thesis by (rule boot_services [OF b5])
qed

section \<open>The end\<close>

lemma keeps_frame: "daemon_keeps d e \<Longrightarrow> usb_frame (usb_of d) (usb_of e)"
  by (simp add: daemon_keeps_def world_keeps_def)

lemma drain_frame: "usb_frame (usb_of d) (usb_of (snd (drain_loop env x k n d)))"
proof (induction n arbitrary: k d)
  case (Suc n)
  obtain r events where c: "x_drain x k = (r, events)" by fastforce
  define e where "e = fold (handle_event env (x_turn x)) events d"
  have "daemon_keeps d (fold (handle_event env (x_turn x)) events d)"
    by (induction events arbitrary: d) (auto intro: daemon_keeps_trans daemon_keeps_event)
  then have "usb_frame (usb_of d) (usb_of e)" unfolding e_def by (rule keeps_frame)
  with usb_frame_trans [OF this Suc [of e "Suc k"]] c show ?case by (auto simp: Let_def e_def [symmetric])
qed simp

lemma out_deinit_status:
  "Devh (usb_of d) \<Longrightarrow> fst (out_deinit x reattach r d) = exit_status (if reattach then x_attach x else x_release x)"
  by (simp add: out_deinit_def Let_def on_usb_def free_transfers_def close_listener_def)

lemma shutdown_status:
  assumes "Devh (usb_of d)"
  shows "fst (shutdown_daemon env x reattach d) = exit_status (if reattach then x_attach x else x_release x)"
proof -
  define c where "c = on_usb (cancel_transfers (x_cancel_out x) (x_cancel_in x)) d"
  define e where "e = snd (drain_cancelled_transfers env x 100 c)"
  have "Devh (usb_of c) = Devh (usb_of d)" by (simp add: c_def on_usb_def cancel_transfers_def split_beta Let_def)
  moreover have "Devh (usb_of e) = Devh (usb_of c)"
    using drain_frame [of c env x 0 100]
    by (simp add: e_def drain_cancelled_transfers_def split_beta Let_def usb_frame_def)
  ultimately have "Devh (usb_of e)" using assms by simp
  moreover have "fst (shutdown_daemon env x reattach d) =
      fst (out_deinit x reattach (if Do_exit (usb_of e) = 1 then 0 else 1) e)"
    by (simp add: shutdown_daemon_def c_def [symmetric] e_def split_beta Let_def)
  ultimately show ?thesis by (simp add: out_deinit_status)
qed

lemma initcm1Xa_frame: "usb_frame s (initcm1Xa sub ps s)"
  unfolding initcm1Xa_def by (induction ps arbitrary: s) (auto intro: usb_frame_trans usb_frame_write)

lemma services_frame:
  assumes "start_services env a d = (st, e)"
  shows "Devh (usb_of e) = Devh (usb_of d)" "\<exists>r. st = Goto_out_deinit r \<or> st = Runs"
proof -
  have "Devh (initcm1Xa sub ps s) = Devh s" for sub ps s
    using initcm1Xa_frame [of s sub ps] by (simp add: usb_frame_def)
  with assms show "Devh (usb_of e) = Devh (usb_of d)" "\<exists>r. st = Goto_out_deinit r \<or> st = Runs"
    by (auto simp: start_services_def split_beta Let_def on_usb_def on_world_def split: if_splits)
qed

lemma start_opened:
  assumes "start_daemon env a d = (st, re, e)" "\<not> s_init a < 0" "find_cm15a (s_open a) (usb_of d) = (0, reattach, s)"
  shows "re = reattach \<and> Devh (usb_of e) \<and> (\<exists>r. st = Goto_out_deinit r \<or> st = Runs)"
proof -
  have s: "Devh s" using assms(3) by (auto simp: find_cm15a_def EIO_def Let_def split: if_splits)
  define d1 where "d1 = on_world (on_x10 hua_sec_init) d"
  have f: "find_cm15a (s_open a) (usb_of d1) = (0, reattach, s)"
    using assms(3) by (simp add: d1_def on_world_def on_x10_def)
  have alloc: "Devh (snd (alloc_transfers i j v)) = Devh v" for i j v by (simp add: alloc_transfers_def Let_def)
  have strt: "Devh (snd (start_transfers sub v)) = Devh v" for sub v by (simp add: start_transfers_def Let_def)
  show ?thesis
    using assms(1,2) s services_frame [of env a _ st e]
    by (auto simp: start_daemon_def d1_def [symmetric] f Let_def split_beta on_usb_def alloc strt split: if_splits)
qed

text \<open>
  When a listener fails, the input transfer has been submitted and is neither cancelled nor freed:
  the jump to \<open>out_deinit\<close> passes over the cancellation.
\<close>

lemma initcm1Xa_input:
  "IntrIn_submitted (initcm1Xa sub ps s) = IntrIn_submitted s \<and> IntrIn_transfer (initcm1Xa sub ps s) = IntrIn_transfer s"
proof -
  have w: "IntrIn_submitted (snd (x10_write sub p s)) = IntrIn_submitted s \<and>
      IntrIn_transfer (snd (x10_write sub p s)) = IntrIn_transfer s" for p s
    by (auto simp: x10_write_def add_x10out_def write_usb_def libusb_submit_out_def Let_def)
  show ?thesis unfolding initcm1Xa_def by (induction ps arbitrary: s) (simp_all add: w)
qed

lemma failed_listener_leaves_transfer:
  assumes "start_services env a d = (Goto_out_deinit r, e)" "IntrIn_submitted (usb_of d)" "IntrIn_transfer (usb_of d)"
  shows "IntrIn_submitted (usb_of (snd (out_deinit x reattach r e))) \<and> IntrIn_transfer (usb_of (snd (out_deinit x reattach r e)))"
proof -
  have "IntrIn_submitted (usb_of e) \<and> IntrIn_transfer (usb_of e)"
    using assms by (auto simp: start_services_def split_beta Let_def on_usb_def initcm1Xa_input split: if_splits)
  then show ?thesis
    by (simp add: out_deinit_def Let_def on_usb_def close_listener_def free_transfers_def
        free_transfer_if_inactive_def transfer_is_active_def)
qed

section \<open>Draining\<close>

text \<open>The two transfers.\<close>

definition in_active :: "usb_state \<Rightarrow> bool" where
  "in_active s \<longleftrightarrow> transfer_is_active (IntrIn_submitted s) (IntrIn_canceling s)"

definition out_active :: "usb_state \<Rightarrow> bool" where
  "out_active s \<longleftrightarrow> transfer_is_active (IntrOut_submitted s) (IntrOut_canceling s)"

lemma any_active_iff: "any_active s \<longleftrightarrow> in_active s \<or> out_active s"
  by (simp add: any_active_def in_active_def out_active_def)

fun is_in_done :: "usb_event \<Rightarrow> bool" where
  "is_in_done (IntrIn_done st bytes) = True"
| "is_in_done e = False"

fun is_out_done :: "usb_event \<Rightarrow> bool" where
  "is_out_done (IntrOut_done st) = True"
| "is_out_done e = False"

text \<open>An event that is not the completion of a transfer; such an event submits nothing.\<close>

fun not_completion :: "usb_event \<Rightarrow> bool" where
  "not_completion (IntrIn_done st bytes) = (st \<noteq> LIBUSB_TRANSFER_COMPLETED)"
| "not_completion (IntrOut_done st) = (st \<noteq> LIBUSB_TRANSFER_COMPLETED)"
| "not_completion e = True"

lemma event_activity:
  assumes "not_completion e"
  shows "in_active (usb_of (handle_event env t e d)) \<longleftrightarrow> in_active (usb_of d) \<and> \<not> is_in_done e"
    "out_active (usb_of (handle_event env t e d)) \<longleftrightarrow> out_active (usb_of d) \<and> \<not> is_out_done e"
    "n_submit (usb_of (handle_event env t e d)) = n_submit (usb_of d)"
    "wire (usb_of (handle_event env t e d)) = wire (usb_of d)"
  using assms
  by (cases e; simp add: in_active_def out_active_def transfer_is_active_def IntrIn_cb_def IntrOut_cb_def
      sighandler_def on_usb_def Let_def)+

lemma events_activity:
  assumes "list_all not_completion es"
  shows "in_active (usb_of (fold (handle_event env t) es d)) \<longleftrightarrow> in_active (usb_of d) \<and> \<not> list_ex is_in_done es"
    "out_active (usb_of (fold (handle_event env t) es d)) \<longleftrightarrow> out_active (usb_of d) \<and> \<not> list_ex is_out_done es"
    "n_submit (usb_of (fold (handle_event env t) es d)) = n_submit (usb_of d)"
    "wire (usb_of (fold (handle_event env t) es d)) = wire (usb_of d)"
  using assms by (induction es arbitrary: d) (auto simp: event_activity)

text \<open>The events of the calls \<open>k\<close> to \<open>m - 1\<close> of the drain, none of which fails.\<close>

definition drain_events :: "stop_answers \<Rightarrow> nat \<Rightarrow> nat \<Rightarrow> usb_event list" where
  "drain_events x k m = concat (map (\<lambda>j. snd (x_drain x j)) [k..<m])"

definition drain_call_ok :: "int \<Rightarrow> bool" where
  "drain_call_ok r \<longleftrightarrow> 0 \<le> r \<or> r = LIBUSB_ERROR_INTERRUPTED"

lemma drain_events_step: "k < m \<Longrightarrow> drain_events x k m = snd (x_drain x k) @ drain_events x (Suc k) m"
  by (simp add: drain_events_def upt_conv_Cons)

lemma drain_ends:
  assumes "list_all not_completion (drain_events x k m)" "\<forall>j \<in> {k..<m}. drain_call_ok (fst (x_drain x j))"
    "in_active (usb_of d) \<Longrightarrow> list_ex is_in_done (drain_events x k m)"
    "out_active (usb_of d) \<Longrightarrow> list_ex is_out_done (drain_events x k m)" "m \<le> k + n"
  shows "\<exists>e. drain_loop env x k n d = (0, e) \<and> \<not> any_active (usb_of e) \<and>
    n_submit (usb_of e) = n_submit (usb_of d) \<and> wire (usb_of e) = wire (usb_of d)"
  using assms
proof (induction n arbitrary: k d)
  case 0
  then show ?case by (auto simp: any_active_iff drain_events_def)
next
  case (Suc n)
  show ?case
  proof (cases "any_active (usb_of d)")
    case True
    then have "k < m" using Suc.prems(3,4) by (cases "k < m") (auto simp: any_active_iff drain_events_def)
    note es = drain_events_step [OF this, of x]
    obtain r evs where c: "x_drain x k = (r, evs)" by fastforce
    define e where "e = fold (handle_event env (x_turn x)) evs d"
    have "list_all not_completion evs" using Suc.prems(1) es c by simp
    note act = events_activity [OF this, of env "x_turn x" d, folded e_def]
    have "\<exists>e'. drain_loop env x (Suc k) n e = (0, e') \<and> \<not> any_active (usb_of e') \<and>
        n_submit (usb_of e') = n_submit (usb_of e) \<and> wire (usb_of e') = wire (usb_of e)"
      by (rule Suc.IH) (use Suc.prems es act c in auto)
    moreover have "drain_call_ok r" using Suc.prems(2) c \<open>k < m\<close> by force
    ultimately show ?thesis using True c act(3,4) by (auto simp: e_def [symmetric] drain_call_ok_def)
  qed simp
qed

lemma cancel_submits_nothing:
  "n_submit (cancel_transfers r r' s) = n_submit s" "wire (cancel_transfers r r' s) = wire s"
  by (simp_all add: cancel_transfers_def split_beta Let_def)

section \<open>Properties\<close>

text \<open>
  C1: From the start of the program on: whatever libusb and the operating system answer at the
  start, if the daemon gets to its loop it is well-formed there, and it stays so over any run of
  the loop, whatever the controller reports, the clients send, the kernel and libusb answer and
  whenever transfers fail or signals arrive (tables, sessions, transmitter, descriptor arrays);
  no cell outside the device tables is written, and the packets for the controller are only
  appended to: none is lost, repeated or reordered between acceptance and libusb. The one
  assumption is that \<open>accept\<close> returns descriptors that are not open.
\<close>

theorem event_loop_safe:
  assumes "start_daemon env a daemon_static = (Runs, reattach, d)" "\<forall>t \<in> set ts. accept_fresh t"
    "d' = main_loop env ts d"
  shows "daemon_ok d' \<and> same_outside (w_x10 (d_world d)) (w_x10 (d_world d')) \<and>
    (\<exists>acc. wire (usb_of d') @ pending (usb_of d') = wire (usb_of d) @ pending (usb_of d) @ acc \<and>
      (\<forall>p \<in> set acc. length p \<le> 8))"
proof -
  have ok: "daemon_ok d" by (rule start_daemon_ok [OF boot_static assms(1)])
  with daemon_keeps_loop [OF assms(2), of d env] show ?thesis
    unfolding assms(3) daemon_keeps_def world_keeps_def tx_keeps_def daemon_ok_def by blast
qed

text \<open>
  C20: The shutdown ends and frees what it holds. Let \<open>c\<close> be the state after the cancellation: if
  libusb calls back, in some of the first 100 calls of the drain, together or apart and with any
  status but completed, the input transfer if it is active in \<open>c\<close> and the output transfer if it is
  active there (on an idle shutdown only the input), and no call fails but by interruption, then no
  transfer is active afterwards and both are freed, nothing more has been submitted to libusb, the
  listeners are closed and the descriptor records released, whatever state the loop ended in. (A
  transfer reported as completed may submit the next packet, even during the drain.)
\<close>

theorem shutdown_frees:
  assumes "c = usb_of (on_usb (cancel_transfers (x_cancel_out x) (x_cancel_in x)) d)"
    "in_active c \<Longrightarrow> list_ex is_in_done (drain_events x 0 m)"
    "out_active c \<Longrightarrow> list_ex is_out_done (drain_events x 0 m)"
    "list_all not_completion (drain_events x 0 m)" "\<forall>j \<in> {0..<m}. drain_call_ok (fst (x_drain x j))" "m \<le> 100"
    "shutdown_daemon env x reattach d = (r, d')"
  shows "\<not> any_active (usb_of d') \<and> \<not> IntrIn_transfer (usb_of d') \<and> \<not> IntrOut_transfer (usb_of d') \<and>
    n_submit (usb_of d') = n_submit (usb_of d) \<and> wire (usb_of d') = wire (usb_of d) \<and>
    (\<forall>k. listener d' k < 0) \<and> UsbPollfds (d_usb d') = [] \<and> PollfdCapacity d' = 0"
proof -
  define d1 where "d1 = on_usb (cancel_transfers (x_cancel_out x) (x_cancel_in x)) d"
  obtain e where e: "drain_loop env x 0 100 d1 = (0, e)" "\<not> any_active (usb_of e)"
    "n_submit (usb_of e) = n_submit (usb_of d1)" "wire (usb_of e) = wire (usb_of d1)"
    using drain_ends [of x 0 m d1 100 env] assms(1-6) by (auto simp: d1_def [symmetric])
  then have "drain_cancelled_transfers env x 100 d1 = (0, e)" by (simp add: drain_cancelled_transfers_def)
  with assms(7) have d': "d' = snd (out_deinit x reattach (if Do_exit (usb_of e) = 1 then 0 else 1) e)"
    by (simp add: shutdown_daemon_def d1_def [symmetric] Let_def)
  have "n_submit (usb_of d1) = n_submit (usb_of d)" "wire (usb_of d1) = wire (usb_of d)"
    by (simp_all add: d1_def on_usb_def cancel_submits_nothing)
  moreover have "listener d' k < 0" for k
    by (cases k) (auto simp: d' out_deinit_def Let_def on_usb_def close_listener_def)
  ultimately show ?thesis using e(2-4)
    by (auto simp: d' out_deinit_def Let_def on_usb_def close_listener_def cleanup_usb_pollfds_def
        free_transfers_def free_transfer_if_inactive_def any_active_def)
qed

text \<open>
  C21: Once the controller has been opened and claimed, the exit status of the daemon is the
  status of releasing the interface (or of giving it back to the kernel driver), whatever it ended for:
  after a failed start, a failed transfer or a failed \<open>poll\<close> the process still exits with 0 when
  the release succeeds.
\<close>

theorem exit_status_of_release:
  assumes "mydaemon env a ts x d = Some (r, d')" "\<not> s_init a < 0"
    "find_cm15a (s_open a) (usb_of d) = (0, reattach, s)" "\<forall>t \<in> set ts. accept_fresh t"
  shows "r = exit_status (if reattach then x_attach x else x_release x)"
proof -
  obtain st re e where st: "start_daemon env a d = (st, re, e)" by (metis prod_cases3)
  note o = start_opened [OF st assms(2,3)]
  show ?thesis
  proof (cases "st = Runs")
    case True
    have "Devh (usb_of (main_loop env ts e))"
      using keeps_frame [OF daemon_keeps_loop [OF assms(4), of e env]] o by (simp add: usb_frame_def)
    then have "fst (shutdown_daemon env x re (main_loop env ts e)) =
        exit_status (if reattach then x_attach x else x_release x)"
      using shutdown_status [of "main_loop env ts e" env x re] o by simp
    with assms(1) st True show ?thesis by (auto simp: mydaemon_def Let_def split: if_splits)
  next
    case False
    with o obtain q where "st = Goto_out_deinit q" by blast
    with assms(1) st o out_deinit_status [of e x re q] show ?thesis by (auto simp: mydaemon_def)
  qed
qed

text \<open>
  A start on a CM15A with one address to listen on, a turn in which \<open>poll\<close> fails, and an end in
  which the first call of the drain is interrupted and the next two bring the cancellations.
\<close>

definition start_one :: start_answers where
  "start_one = \<lparr>s_init = 0,
     s_open = \<lparr>opens_cm15a = True, opens_cm19a = False, a_claim = 0, a_kernel_driver = 0, a_detach = 0, a_claim_again = 0\<rparr>,
     s_has_device = True, s_device_desc = 0, s_config_desc = 0, s_config = Some cm15a_descriptor,
     s_alloc_in = True, s_alloc_out = True, s_pollfds = Some [], s_realloc = (\<lambda>_. True),
     s_candidates = (\<lambda>_. Some [\<lparr>ca_family = AF_INET, ca_socket = 3, ca_reuseaddr = 0, ca_v6only = 0, ca_bind = 0, ca_listen = 0\<rparr>])\<rparr>"

definition turn_failed :: turn where
  "turn_failed = (turn_line [])\<lparr>t_poll := (\<lambda>_ _. Poll_failed)\<rparr>"

definition stop_one :: stop_answers where
  "stop_one = \<lparr>x_cancel_out = 0, x_cancel_in = 0,
     x_drain = (\<lambda>k. if k = 0 then (LIBUSB_ERROR_INTERRUPTED, [])
                    else if k = 1 then (0, [IntrIn_done LIBUSB_TRANSFER_CANCELLED []])
                    else (0, [IntrOut_done LIBUSB_TRANSFER_CANCELLED])),
     x_turn = turn_failed, x_release = 0, x_attach = 0\<rparr>"

lemma start_one_runs:
  "\<exists>d. start_daemon env_zero start_one daemon_static = (Runs, False, d) \<and> Do_exit (usb_of d) = 0 \<and>
     UsbPollfdError (d_usb d) = 0"
proof -
  have g: "get_endpoint_address True 0 0 (Some cm15a_descriptor) = (0, 0x81, 0x02)"
    by (simp add: get_endpoint_address_def cm15a_descriptor_def mochad_select_interrupt_endpoints_def
        select_altsetting_def select_endpoint_def is_interrupt_def packet_size_def LIBUSB_TRANSFER_TYPE_MASK_def
        LIBUSB_TRANSFER_TYPE_INTERRUPT_def LIBUSB_ENDPOINT_IN_def)
  show ?thesis
    by (simp add: start_daemon_def start_one_def find_cm15a_def g do_init_def alloc_transfers_def start_transfers_def
        start_services_def initialize_usb_pollfds_def initcm1Xa_def initcm15abinary_def start_listeners_def
        create_listener_def listeners_failed_def daemon_static_def usb_init_def env_zero_def on_usb_def on_world_def
        on_x10_def Let_def)
qed

theorem event_loop_safe_witness:
  "\<exists>d. start_daemon env_zero start_one daemon_static = (Runs, False, d) \<and>
     daemon_ok (main_loop env_zero [turn_line ''PL A1 ON''] d)"
proof -
  obtain d where d: "start_daemon env_zero start_one daemon_static = (Runs, False, d)" using start_one_runs by blast
  with event_loop_safe [OF d, of "[turn_line ''PL A1 ON'']"] show ?thesis by simp
qed

text \<open>A daemon with both transfers in flight, and one with the input transfer only.\<close>

definition daemon_in_flight :: "bool \<Rightarrow> daemon" where
  "daemon_in_flight out = on_usb (\<lambda>s. s\<lparr>IntrIn_submitted := True, IntrOut_submitted := out\<rparr>) daemon_one"

lemma stop_one_cancels:
  "in_active (usb_of (on_usb (cancel_transfers 0 0) (daemon_in_flight out)))"
  "out_active (usb_of (on_usb (cancel_transfers 0 0) (daemon_in_flight out))) = out"
  "x_cancel_out stop_one = 0" "x_cancel_in stop_one = 0"
  by (simp_all add: daemon_in_flight_def daemon_one_def world_one_def usb_ready_def usb_init_def on_usb_def
      cancel_transfers_def cancel_transfer_if_active_def in_active_def out_active_def transfer_is_active_def
      LIBUSB_ERROR_NOT_FOUND_def stop_one_def)

lemma stop_one_drain:
  "drain_events stop_one 0 (Suc (Suc 0)) = [IntrIn_done LIBUSB_TRANSFER_CANCELLED []]"
  "drain_events stop_one 0 (Suc (Suc (Suc 0))) =
     [IntrIn_done LIBUSB_TRANSFER_CANCELLED [], IntrOut_done LIBUSB_TRANSFER_CANCELLED]"
  "drain_call_ok (fst (x_drain stop_one j))"
  by (simp_all add: drain_events_def stop_one_def drain_call_ok_def)

theorem shutdown_frees_witness:
  "any_active (usb_of (daemon_in_flight False)) \<and> any_active (usb_of (daemon_in_flight True)) \<and>
   \<not> IntrIn_transfer (usb_of (snd (shutdown_daemon env_zero stop_one False (daemon_in_flight False)))) \<and>
   \<not> IntrOut_transfer (usb_of (snd (shutdown_daemon env_zero stop_one False (daemon_in_flight True))))"
proof -
  obtain r d' where idle: "shutdown_daemon env_zero stop_one False (daemon_in_flight False) = (r, d')" by fastforce
  have "\<not> IntrIn_transfer (usb_of d')"
    using shutdown_frees [OF refl _ _ _ _ _ idle, of "Suc (Suc 0)"] by (simp add: stop_one_cancels stop_one_drain)
  moreover obtain q e' where busy: "shutdown_daemon env_zero stop_one False (daemon_in_flight True) = (q, e')" by fastforce
  have "\<not> IntrOut_transfer (usb_of e')"
    using shutdown_frees [OF refl _ _ _ _ _ busy, of "Suc (Suc (Suc 0))"] by (simp add: stop_one_cancels stop_one_drain)
  moreover have "any_active (usb_of (daemon_in_flight out))" for out
    by (simp add: daemon_in_flight_def on_usb_def any_active_def transfer_is_active_def)
  ultimately show ?thesis by (simp add: idle busy)
qed

theorem exit_status_of_release_witness:
  "\<exists>d d'. start_daemon env_zero start_one daemon_static = (Runs, False, d) \<and>
     Do_exit (usb_of (main_loop env_zero [turn_failed] d)) = 2 \<and>
     mydaemon env_zero start_one [turn_failed] stop_one daemon_static = Some (0, d')"
proof -
  obtain d where d: "start_daemon env_zero start_one daemon_static = (Runs, False, d)" "Do_exit (usb_of d) = 0"
    "UsbPollfdError (d_usb d) = 0" using start_one_runs by blast
  have "fst (ensure_main_poll_capacity (t_alloc turn_failed) n d) = 0" for n
    by (simp add: ensure_main_poll_capacity_def ensure_pollfd_capacity_def turn_failed_def turn_line_def Let_def)
  then have e: "Do_exit (usb_of (main_loop env_zero [turn_failed] d)) = 2"
    using d by (simp add: loop_turn_def split_beta turn_failed_def exit_loop_def on_usb_def)
  with d obtain r d' where r: "mydaemon env_zero start_one [turn_failed] stop_one daemon_static = Some (r, d')"
    by (cases "shutdown_daemon env_zero stop_one False (main_loop env_zero [turn_failed] d)") (simp add: mydaemon_def)
  have "find_cm15a (s_open start_one) (usb_of daemon_static) =
      (0, False, (usb_of daemon_static)\<lparr>Cm19a := False, Devh := True\<rparr>)"
    by (simp add: find_cm15a_def start_one_def)
  from exit_status_of_release [OF r _ this] have "r = 0"
    by (simp add: start_one_def stop_one_def exit_status_def turn_failed_def accept_fresh_def turn_line_def)
  with d e r show ?thesis by blast
qed

end
