(* ===== verification/Rf_Reports.thy ===== *)
theory Rf_Reports
  imports End_To_End
begin

text \<open>
  From a report of a radio frame to the devices and the packets: the repetition of frames and the
  relay of commands to the power line, whose text the command processor reads back as the command.
\<close>

section \<open>Reports of RF frames\<close>

lemma words_two:
  assumes "plain_word a" "plain_word b"
  shows "words (a @ '' '' @ b) = [a, b]"
proof -
  have sp: "isspace (CHR '' '')" by (simp add: isspace_def)
  have "words b = [b]" using words_word [of b "[]"] assms(2) by (simp add: plain_word_def words_def [of "[]"])
  moreover have "words ('' '' @ b) = words b"
    using sp by (simp add: words_def pieces_space del: pieces.simps(2))
  moreover have "words (a @ '' '' @ b) = a # words ('' '' @ b)" using assms(1) sp
    by (intro words_word) (simp_all add: plain_word_def)
  ultimately show ?thesis by simp
qed

lemma unit_word_plain:
  assumes "h < 16"
  shows "plain_word (unit_word h u)" "strupper (unit_word h u) = unit_word h u"
proof -
  have "\<not> isspace (chr (65 + h))"
  proof
    assume "isspace (chr (65 + h))"
    then have "ord (chr (65 + h)) \<in> {32, 9, 10, 11, 12, 13}" by (auto simp: isspace_def ord_def)
    with assms show False by simp
  qed
  then show "plain_word (unit_word h u)"
    using num_str_props(2) [of 10 "u + 1"] isxdigit_plain by (auto simp: plain_word_def unit_word_def)
  have "\<not> islower (chr (65 + h))" using assms by (simp add: islower_def)
  then show "strupper (unit_word h u) = unit_word h u"
    using num_str_props(2) [of 10 "u + 1"] by (intro strupper_plain) (auto simp: unit_word_def)
qed

lemma length_unit_word: "u < 16 \<Longrightarrow> length (unit_word h u) \<le> 3"
  using length_num_str_le [of "u + 1" 10 1] by (simp add: unit_word_def)

text \<open>The text of a relayed command is the command.\<close>

lemma relay_switch:
  assumes "h < 16" "u < 16" "f = FUNC_ON \<or> f = FUNC_OFF"
  shows "relay_command env fd (''PL '' @ [chr (65 + h)] @ fmt_d (int (u + 1)) @ '' '' @ Funcname ! f) w =
     pl_switch env h u f (or20_ok env fd w)"
proof -
  have fn: "strupper (Funcname ! f) = funccommands ! f" "plain_word (funccommands ! f)"
    using assms(3) by (auto simp: func_defs Funcname_def funccommands_def strupper_def islower_def toupper_def
        ord_def chr_def char_of_def bit_0 plain_word_def isspace_def)
  let ?r = "unit_word h u @ '' '' @ Funcname ! f"
  have command: "''PL '' @ [chr (65 + h)] @ fmt_d (int (u + 1)) @ '' '' @ Funcname ! f = ''PL '' @ ?r"
    unfolding fmt_d_nat unit_word_def by simp
  have sp: "strupper '' '' = '' ''" by (simp add: strupper_def islower_def ord_def)
  have up: "strupper ?r = unit_word h u @ '' '' @ funccommands ! f"
    by (simp only: strupper_append unit_word_plain(2) [OF assms(1)] fn(1) sp)
  have "words (unit_word h u @ '' '' @ funccommands ! f) = [unit_word h u, funccommands ! f]"
    by (rule words_two [OF unit_word_plain(1) [OF assms(1)] fn(2)])
  then have "tokenize_from 1 (strupper ?r) = Some [unit_word h u, funccommands ! f]"
    unfolding up by (simp add: tokenize_from_words MAX_COMMAND_TOKENS_def)
  then show ?thesis
    unfolding command relay_command_def processcommandline_PL
    using command_pl_switch [OF assms] by simp
qed

lemma dup_filter_on_net:
  "dup_filter env c (on_net f w) = map_prod (\<lambda>b. b) (on_net f) (dup_filter env c w)"
  by (simp add: dup_filter_def get_timems_def on_net_def split_beta split: option.split)

lemma dup_filter_or20: "fst (dup_filter env c (or20_ok env fd w)) = fst (dup_filter env c w)"
proof -
  have "or20_ok env fd w = w \<or> (\<exists>n. or20_ok env fd w = on_net (\<lambda>_. n) w)"
    by (auto simp: or20_ok_def tell_def split_beta on_net_def)
  then show ?thesis by (auto simp: dup_filter_on_net)
qed

lemma repeatRF_effect:
  assumes "take len buf = x # tl frame" "frame = 0xEB # tl frame"
  shows "repeatRF env fd buf len w =
    (if RfToRf16 w \<noteq> 0 then
       transmit env (if Cm19a (w_usb w) then tl frame else frame) (say env fd (''RfToRf repeat'' @ nl) w) else w)"
  using assms(2) by (simp add: repeatRF_def Let_def assms(1))

text \<open>The device state, relay and packets of a report of an RF frame that is not a duplicate.\<close>

lemma rf_standard_switch:
  assumes hu: "h < 16" "u < 16" and f: "f = FUNC_ON \<or> f = FUNC_OFF"
    and frame: "rf_frame h (int u) f = Some frame" "take 6 buf = x # tl frame"
    and dup: "dup_filter env (Some (take 6 buf)) w = (False, w1)"
  shows "\<exists>ev. rf_standard (relay_command env) env fd buf 6 w =
    (let w2 = mochad_dispatch_event env fd ev
                (on_x10 (if f = FUNC_ON then hua_func_on h else hua_func_off h) (on_x10 (hua_add h u) w1));
         w3 = repeatRF env fd buf 6 w2
     in if \<not> Cm19a (w_usb w3) \<and> bit (RfToPl16 w3) h then pl_switch env h u f (or20_ok env fd w3) else w3)"
proof -
  from rf_frame_on_off [OF hu f] frame(1) obtain b2 b4 where
    fr: "frame = [0xEB, 0x20, b2, NOT b2, b4, NOT b4]" and dec: "hufc_decode b2 b4 = (chr (65 + h), f - 2, u + 1)"
    by auto
  have bytes: "buf ! 2 = b2" "buf ! 3 = NOT b2" "buf ! 4 = b4" "buf ! 5 = NOT b4"
    using nth_take [of 2 6 buf] nth_take [of 3 6 buf] nth_take [of 4 6 buf] nth_take [of 5 6 buf]
    unfolding frame(2) fr by simp_all
  have f2: "f - 2 \<le> 1" "f - 2 + 2 = f" "f - 2 \<noteq> 0 \<longleftrightarrow> f \<noteq> FUNC_ON" using f by (auto simp: func_defs)
  let ?cmd = "''PL '' @ [chr (65 + h)] @ fmt_d (int (u + 1)) @ '' '' @ Funcname ! f"
  have "length (Funcname ! f) \<le> 3" using f by (auto simp: func_defs Funcname_def)
  moreover have "length (fmt_d (int (u + 1))) \<le> 2"
    unfolding fmt_d_nat using length_num_str_le [of "u + 1" 10 1] hu(2) by simp
  ultimately have "length ?cmd < 79" by (simp del: of_nat_add of_nat_Suc)
  then have cmd: "snprintf_text 80 ?cmd = ?cmd" by (simp add: snprintf_text_def)
  have relay: "rf_relay (relay_command env) env fd buf 6 (chr (65 + h)) ?cmd v =
      (if \<not> Cm19a (w_usb v) \<and> bit (RfToPl16 v) h then pl_switch env h u f (or20_ok env fd v) else v)" for v
    using hu unfolding rf_relay_def cmd relay_switch [OF hu f] by (simp add: rf_to_pl_def)
  show ?thesis
    using hu f2 unfolding rf_standard_def Let_def bytes byte_xor_not dec dup split f2(2) relay
    by auto
qed

lemma rf_standard_dup:
  assumes "h < 16" "u < 16" "f = FUNC_ON \<or> f = FUNC_OFF"
    and frame: "rf_frame h (int u) f = Some frame" "take 6 buf = x # tl frame"
    and dup: "dup_filter env (Some (take 6 buf)) w = (True, w1)"
  shows "rf_standard pcl env fd buf 6 w = w1"
proof -
  from rf_frame_on_off [OF assms(1-3)] frame(1) obtain b2 b4 where
    fr: "frame = [0xEB, 0x20, b2, NOT b2, b4, NOT b4]" by auto
  have bytes: "buf ! 2 = b2" "buf ! 3 = NOT b2" "buf ! 4 = b4" "buf ! 5 = NOT b4"
    using nth_take [of 2 6 buf] nth_take [of 3 6 buf] nth_take [of 4 6 buf] nth_take [of 5 6 buf]
    unfolding frame(2) fr by simp_all
  show ?thesis unfolding rf_standard_def Let_def bytes byte_xor_not dup by simp
qed

lemma rf_frame_shape:
  assumes "h < 16" "u < 16" "f = FUNC_ON \<or> f = FUNC_OFF" "rf_frame h (int u) f = Some frame"
  shows "length frame = 6" "frame = 0xEB # tl frame" "hd (tl frame) = 0x20"
  using rf_frame_on_off [OF assms(1-3)] assms(4) by auto

lemma decode_rf_standard:
  assumes "take 6 buf = x # 0x20 # r"
  shows "cm15a_decode_rf env fd buf 6 w = rf_standard (relay_command env) env fd buf 6 w"
proof -
  have "buf ! 1 = 0x20" using nth_take [of 1 6 buf] unfolding assms by simp
  then show ?thesis by (simp add: cm15a_decode_rf_def decode_rf_with_def skip_5d.simps [of buf 6])
qed

text \<open>The bytes the controller reports for a frame: a CM19A leaves out the first.\<close>

definition rf_report :: "bool \<Rightarrow> byte list \<Rightarrow> byte list \<Rightarrow> nat \<Rightarrow> bool" where
  "rf_report cm19a frame buf len \<longleftrightarrow>
     (if cm19a then len = length frame - 1 \<and> take len buf = tl frame
      else len = length frame \<and> take len buf = 0x5d # tl frame)"

lemma cm15a_decode_report:
  assumes "rf_report (Cm19a (w_usb w)) frame buf len" "frame \<noteq> []" "5 \<le> length frame" "length frame \<le> 8"
  shows "\<exists>p n. take (length frame) p = 0x5d # tl frame \<and>
    cm15a_decode env junk fd buf len w =
      cm15a_decode_rf env fd p (length frame)
        (if cfg_raw_data (e_config env) then on_net (mh_sockhexdump env fd p n) w else w)"
proof -
  let ?p = "if Cm19a (w_usb w) then 0x5d # take len buf @ drop (len + 1) junk else buf"
  have p: "take (length frame) ?p = 0x5d # tl frame"
  proof (cases "Cm19a (w_usb w)")
    case True
    with assms(1) have "take len buf = tl frame" "length (tl frame) = len" unfolding rf_report_def by auto
    moreover have "length frame = Suc len" using assms(2) calculation(2) by (cases frame) simp_all
    ultimately show ?thesis using True by simp
  qed (use assms(1) in \<open>auto simp: rf_report_def\<close>)
  then have "?p ! 0 = 0x5d" using nth_take [of 0 "length frame" ?p] assms(2,3) by simp
  moreover have "(if Cm19a (w_usb w) then len + 1 else len) = length frame" "\<not> len < 4" "\<not> 8 < len"
    using assms by (auto simp: rf_report_def split: if_splits)
  ultimately have "cm15a_decode env junk fd buf len w = cm15a_decode_rf env fd ?p (length frame)
      (if cfg_raw_data (e_config env) then on_net (mh_sockhexdump env fd ?p (length frame)) w else w)"
    by (simp add: cm15a_decode_def cm15a_decode_with_def Let_def)
  with p show ?thesis by metis
qed

lemma repeat_packets:
  assumes room: "tx_room (Suc n) (w_usb w)" and dev: "\<forall>k. 0 \<le> e_submit env k"
    and "take 6 buf = x # tl frame" "frame = 0xEB # tl frame" "length frame = 6"
  shows "tx_room n (w_usb (repeatRF env fd buf 6 w))"
    "tx_log (w_usb (repeatRF env fd buf 6 w)) =
       tx_log (w_usb w) @ (if RfToRf16 w \<noteq> 0 then [if Cm19a (w_usb w) then tl frame else frame] else [])"
    "w_x10 (repeatRF env fd buf 6 w) = w_x10 w" "Cm19a (w_usb (repeatRF env fd buf 6 w)) = Cm19a (w_usb w)"
    "RfToPl16 (repeatRF env fd buf 6 w) = RfToPl16 w"
proof -
  let ?b = "if Cm19a (w_usb w) then tl frame else frame"
  note r = repeatRF_effect [OF assms(3,4), of env fd w]
  obtain q t where "x10_write (e_submit env) ?b (w_usb w) = (q, t)" by fastforce
  then have "Cm19a (w_usb (repeatRF env fd buf 6 w)) = Cm19a (w_usb w)"
    using x10_write_frame unfolding r by (simp add: transmit_def)
  moreover have "length ?b \<le> 8" using assms(5) by simp
  moreover have "tx_room (Suc n) (w_usb (say env fd (''RfToRf repeat'' @ nl) w))" using room by simp
  moreover have "tx_room n (w_usb w)" using room by (simp add: tx_room_def)
  ultimately show "tx_room n (w_usb (repeatRF env fd buf 6 w))"
    "tx_log (w_usb (repeatRF env fd buf 6 w)) =
       tx_log (w_usb w) @ (if RfToRf16 w \<noteq> 0 then [if Cm19a (w_usb w) then tl frame else frame] else [])"
    "w_x10 (repeatRF env fd buf 6 w) = w_x10 w" "Cm19a (w_usb (repeatRF env fd buf 6 w)) = Cm19a (w_usb w)"
    "RfToPl16 (repeatRF env fd buf 6 w) = RfToPl16 w"
    unfolding r using transmit_room [where n = n and w = "say env fd (''RfToRf repeat'' @ nl) w", OF _ dev] by simp_all
qed

lemma lit_twice:
  "lit (spec_func on (spec_add u (spec_func on (spec_add u a)))) = lit (spec_func on (spec_add u a))"
  by (auto simp: spec_func_def spec_add_def)

text \<open>The state after the dispatch of a report, before repeating and relaying.\<close>

lemma switched_state:
  assumes "x10_wf (w_x10 v)" "h < 16" "u < 16" "f = FUNC_ON \<or> f = FUNC_OFF"
    "w2 = mochad_dispatch_event env fd ev
       (on_x10 (if f = FUNC_ON then hua_func_on h else hua_func_off h) (on_x10 (hua_add h u) v))"
  shows "x10_wf (w_x10 w2)" "house_abs h (w_x10 w2) = spec_func (f = FUNC_ON) (spec_add u (house_abs h (w_x10 v)))"
    "k \<noteq> h \<Longrightarrow> house_abs k (w_x10 w2) = house_abs k (w_x10 v)"
    "w_usb w2 = w_usb v" "RfToRf16 w2 = RfToRf16 v" "RfToPl16 w2 = RfToPl16 v"
  using assms x10_wf_add [OF assms(1), of h u] house_abs_func house_abs_add [OF assms(1-3)]
  by (auto simp: x10_wf_funcs house_abs_other func_defs)

text \<open>A report reaches the duplicate filter with the bytes of its frame.\<close>

lemma report_filtered:
  assumes hu: "h < 16" "u < 16" and f: "f = FUNC_ON \<or> f = FUNC_OFF"
    and frame: "rf_frame h (int u) f = Some frame" "rf_report (Cm19a (w_usb w)) frame buf len"
  shows "\<exists>p w0 v. take 6 p = 0x5d # tl frame \<and>
    cm15a_decode env junk fd buf len w = rf_standard (relay_command env) env fd p 6 w0 \<and>
    dup_filter env (Some (take 6 p)) w0 = (fst (dup_filter env (Some (0x5d # tl frame)) w), v) \<and>
    w_x10 v = w_x10 w \<and> w_usb v = w_usb w \<and> RfToRf16 v = RfToRf16 w \<and> RfToPl16 v = RfToPl16 w"
proof -
  note shape = rf_frame_shape [OF hu f frame(1)]
  obtain r where r: "tl frame = 0x20 # r" using shape by (cases "tl frame") auto
  have "frame \<noteq> []" "5 \<le> length frame" "length frame \<le> 8" using shape by auto
  from cm15a_decode_report [OF frame(2) this, of env junk fd] shape(1) obtain p n where
    p: "take 6 p = 0x5d # tl frame" and eq: "cm15a_decode env junk fd buf len w = cm15a_decode_rf env fd p 6
      (if cfg_raw_data (e_config env) then on_net (mh_sockhexdump env fd p n) w else w)"
    by auto
  let ?w = "if cfg_raw_data (e_config env) then on_net (mh_sockhexdump env fd p n) w else w"
  obtain d v where dv: "dup_filter env (Some (take 6 p)) ?w = (d, v)" by fastforce
  then have "fst (dup_filter env (Some (0x5d # tl frame)) ?w) = d" unfolding p by simp
  then have "fst (dup_filter env (Some (0x5d # tl frame)) w) = d" by (simp add: dup_filter_on_net split: if_splits)
  with dv p eq [unfolded decode_rf_standard [OF p [unfolded r]]] dup_filter_frame [OF dv] show ?thesis
    by (intro exI [of _ p] exI [of _ ?w] exI [of _ v]) simp
qed

text \<open>
  What the decoder of standard RF frames does with a frame \<open>p\<close>: the device state, and the packets
  it hands over, with room for \<open>n\<close> more.
\<close>

lemma rf_standard_effect:
  assumes hu: "h < 16" "u < 16" and f: "f = FUNC_ON \<or> f = FUNC_OFF" and wf: "x10_wf (w_x10 v)"
    and room: "tx_room (n + 3) (w_usb v)" and dev: "\<forall>k. 0 \<le> e_submit env k"
    and frame: "rf_frame h (int u) f = Some frame" "take 6 p = x # tl frame"
    and dv: "dup_filter env (Some (take 6 p)) w0 = (False, v)"
    and run: "w' = rf_standard (relay_command env) env fd p 6 w0"
  shows "lit (house_abs h (w_x10 w')) = lit (spec_func (f = FUNC_ON) (spec_add u (house_abs h (w_x10 v))))"
    "\<forall>k. k \<noteq> h \<longrightarrow> house_abs k (w_x10 w') = house_abs k (w_x10 v)"
    "tx_log (w_usb w') = tx_log (w_usb v) @
        (if RfToRf16 v \<noteq> 0 then [if Cm19a (w_usb v) then tl frame else frame] else []) @
        (if \<not> Cm19a (w_usb v) \<and> bit (RfToPl16 v) h then [pl_houseunit_tx h u, pl_housefunc_tx h f 0] else [])"
    "tx_room n (w_usb w')" "Cm19a (w_usb w') = Cm19a (w_usb v)"
proof -
  note shape = rf_frame_shape [OF hu f frame(1)]
  from rf_standard_switch [OF hu f frame dv, of fd] obtain ev w2 where
    w2: "w2 = mochad_dispatch_event env fd ev
       (on_x10 (if f = FUNC_ON then hua_func_on h else hua_func_off h) (on_x10 (hua_add h u) v))"
    and eq3: "w' = (let w3 = repeatRF env fd p 6 w2
       in if \<not> Cm19a (w_usb w3) \<and> bit (RfToPl16 w3) h then pl_switch env h u f (or20_ok env fd w3) else w3)"
    using run unfolding Let_def by metis
  note s = switched_state [OF wf hu f w2]
  have room2: "tx_room (Suc (Suc (Suc n))) (w_usb w2)" using room s by (simp add: numeral_3_eq_3)
  note rep = repeat_packets [OF room2 dev frame(2) shape(2,1), of fd]
  have "lit (house_abs h (w_x10 w')) = lit (spec_func (f = FUNC_ON) (spec_add u (house_abs h (w_x10 v)))) \<and>
    (\<forall>k. k \<noteq> h \<longrightarrow> house_abs k (w_x10 w') = house_abs k (w_x10 v)) \<and>
    tx_log (w_usb w') = tx_log (w_usb v) @
        (if RfToRf16 v \<noteq> 0 then [if Cm19a (w_usb v) then tl frame else frame] else []) @
        (if \<not> Cm19a (w_usb v) \<and> bit (RfToPl16 v) h then [pl_houseunit_tx h u, pl_housefunc_tx h f 0] else []) \<and>
    tx_room n (w_usb w') \<and> Cm19a (w_usb w') = Cm19a (w_usb v)"
  proof (cases "\<not> Cm19a (w_usb v) \<and> bit (RfToPl16 v) h")
    case True
    let ?w3 = "or20_ok env fd (repeatRF env fd p 6 w2)"
    from True eq3 rep s have w': "w' = pl_switch env h u f ?w3" by simp
    have wf3: "x10_wf (w_x10 ?w3)" and room3: "tx_room (Suc (Suc n)) (w_usb ?w3)" using s rep by simp_all
    show ?thesis using True pl_switch_effect [OF hu f wf3, where env = env] pl_switch_packets [OF hu f room3 dev] rep s
      unfolding w' by (simp add: lit_twice)
  next
    case False
    with eq3 rep s have w': "w' = repeatRF env fd p 6 w2" by auto
    have "tx_room n (w_usb w')" using rep(1) unfolding w' by (simp add: tx_room_def)
    then show ?thesis using False rep s unfolding w' by auto
  qed
  then show "lit (house_abs h (w_x10 w')) = lit (spec_func (f = FUNC_ON) (spec_add u (house_abs h (w_x10 v))))"
    "\<forall>k. k \<noteq> h \<longrightarrow> house_abs k (w_x10 w') = house_abs k (w_x10 v)"
    "tx_log (w_usb w') = tx_log (w_usb v) @
        (if RfToRf16 v \<noteq> 0 then [if Cm19a (w_usb v) then tl frame else frame] else []) @
        (if \<not> Cm19a (w_usb v) \<and> bit (RfToPl16 v) h then [pl_houseunit_tx h u, pl_housefunc_tx h f 0] else [])"
    "tx_room n (w_usb w')" "Cm19a (w_usb w') = Cm19a (w_usb v)" by blast+
qed

text \<open>
  C6: What a report of a radio frame does. A frame on or off for a unit, as a CM15A or a CM19A
  reports it, is dropped when the duplicate filter holds it; otherwise its unit joins the selection
  and is switched with it, no other house changes, and the packets are: the frame again if
  repeating is enabled, and then, on a CM15A with relaying enabled for the house, the power-line
  address and function packets.
\<close>

theorem rf_report_switches:
  assumes hu: "h < 16" "u < 16" and f: "f = FUNC_ON \<or> f = FUNC_OFF" and wf: "x10_wf (w_x10 w)"
    and room: "tx_room 3 (w_usb w)" and dev: "\<forall>k. 0 \<le> e_submit env k"
    and frame: "rf_frame h (int u) f = Some frame" "rf_report (Cm19a (w_usb w)) frame buf len"
    and run: "w' = cm15a_decode env junk fd buf len w"
  shows "if fst (dup_filter env (Some (0x5d # tl frame)) w) then w_x10 w' = w_x10 w \<and> w_usb w' = w_usb w
    else lit (house_abs h (w_x10 w')) = lit (spec_func (f = FUNC_ON) (spec_add u (house_abs h (w_x10 w)))) \<and>
      (\<forall>k. k \<noteq> h \<longrightarrow> house_abs k (w_x10 w') = house_abs k (w_x10 w)) \<and>
      tx_log (w_usb w') = tx_log (w_usb w) @
        (if RfToRf16 w \<noteq> 0 then [if Cm19a (w_usb w) then tl frame else frame] else []) @
        (if \<not> Cm19a (w_usb w) \<and> bit (RfToPl16 w) h then [pl_houseunit_tx h u, pl_housefunc_tx h f 0] else [])"
proof -
  define d where "d = fst (dup_filter env (Some (0x5d # tl frame)) w)"
  obtain p w0 v where p: "take 6 p = 0x5d # tl frame" and eq: "w' = rf_standard (relay_command env) env fd p 6 w0"
    and dv: "dup_filter env (Some (take 6 p)) w0 = (d, v)"
    and v: "w_x10 v = w_x10 w" "w_usb v = w_usb w" "RfToRf16 v = RfToRf16 w" "RfToPl16 v = RfToPl16 w"
    using report_filtered [OF hu f frame, of env junk fd] unfolding run d_def by blast
  show ?thesis
  proof (cases d)
    case True
    with rf_standard_dup [OF hu f frame(1) p] dv eq v show ?thesis by (simp add: d_def [symmetric])
  next
    case False
    with dv have acc: "dup_filter env (Some (take 6 p)) w0 = (False, v)" by simp
    have "x10_wf (w_x10 v)" "tx_room (0 + 3) (w_usb v)" using wf room v by simp_all
    from rf_standard_effect [OF hu f this dev frame(1) p acc eq] False v show ?thesis
      by (simp add: d_def [symmetric])
  qed
qed

theorem rf_report_switches_witness:
  "lit (house_abs 0 (w_x10 (cm15a_decode env_zero [] (-1) ([0x5d, 0x20, 0x60, 0x9f, 0x00, 0xff, 0, 0] @ [0]) 6 world_one))) = {0}"
proof -
  have frame: "rf_frame 0 (int 0) FUNC_ON = Some [0xEB, 0x20, 0x60, 0x9f, 0x00, 0xff]"
    by (simp add: rf_frame_def Let_def func_defs x10housecoderf_def)
  have "\<not> fst (dup_filter env_zero (Some [0x5d, 0x20, 0x60, 0x9f, 0x00, 0xff]) world_one)"
    by (simp add: dup_filter_def get_timems_def world_one_def env_zero_def numeral_eq_Suc)
  with rf_report_switches [OF _ _ _ _ _ _ frame _ refl, of world_one env_zero "[0x5d, 0x20, 0x60, 0x9f, 0x00, 0xff, 0, 0] @ [0]" 6 "[]" "-1"]
  show ?thesis
    by (simp add: world_one_frame tx_room_one rf_report_def house_abs_zero spec_add_def spec_func_def)
qed

text \<open>
  C12: What a radio command does. \<open>RF <house><unit> ON\<close> (or OFF), in any case and spacing, always ends
  by sending the radio frame that decodes to this house, unit and function (without its first byte
  on a CM19A). Before that the daemon treats the frame as if it had heard it: unless the duplicate
  filter holds it, the unit is switched with the selection and no other house changes, and, ahead of
  the frame, the frame is repeated if repeating is enabled and relayed to the power line if this is
  enabled for the house.
\<close>

theorem rf_command_switches:
  assumes hu: "h < 16" "u < 16" and f: "f = FUNC_ON \<or> f = FUNC_OFF" and wf: "x10_wf (w_x10 w)"
    and room: "tx_room 4 (w_usb w)" and dev: "\<forall>k. 0 \<le> e_submit env k"
    and line: "words (strupper line) = [''RF'', unit_word h u, funccommands ! f]"
    and run: "processcommandline env fd line w = (r, w')"
  shows "r = 0 \<and> (\<exists>b2 b4 frame packet.
    hufc_decode b2 b4 = (chr (65 + h), f - 2, u + 1) \<and> frame = [0xEB, 0x20, b2, NOT b2, b4, NOT b4] \<and>
    packet = (if Cm19a (w_usb w) then tl frame else frame) \<and>
    (if fst (dup_filter env (Some frame) w)
     then w_x10 w' = w_x10 w \<and> tx_log (w_usb w') = tx_log (w_usb w) @ [packet]
     else lit (house_abs h (w_x10 w')) = lit (spec_func (f = FUNC_ON) (spec_add u (house_abs h (w_x10 w)))) \<and>
       (\<forall>k. k \<noteq> h \<longrightarrow> house_abs k (w_x10 w') = house_abs k (w_x10 w)) \<and>
       tx_log (w_usb w') = tx_log (w_usb w) @ (if RfToRf16 w \<noteq> 0 then [packet] else []) @
         (if \<not> Cm19a (w_usb w) \<and> bit (RfToPl16 w) h then [pl_houseunit_tx h u, pl_housefunc_tx h f 0] else []) @
         [packet]))"
proof -
  obtain b2 b4 where frame: "rf_frame h (int u) f = Some [0xEB, 0x20, b2, NOT b2, b4, NOT b4]"
    and dec: "hufc_decode b2 b4 = (chr (65 + h), f - 2, u + 1)"
    using rf_frame_on_off [OF hu f] by blast
  define frame where "frame = [0xEB, 0x20, b2, NOT b2, b4, NOT b4]"
  define v where "v = or20_ok env fd w"
  define w1 where "w1 = cm15a_decode_rf env (-1) frame 6 v"
  have eqs: "w_x10 v = w_x10 w" "w_usb v = w_usb w" "RfToRf16 v = RfToRf16 w" "RfToPl16 v = RfToPl16 w"
    by (simp_all add: v_def)
  have "run_command (cm15a_decode_rf env) env fd ''RF'' [unit_word h u, funccommands ! f] w =
      Inr ([], transmit env (if Cm19a (w_usb w1) then tl frame else frame) w1)"
  proof -
    have "f < 17" using f by (auto simp: func_defs)
    moreover have "length frame = 6" by (simp add: frame_def)
    ultimately show ?thesis
      using hu getfunc_name [of f "[]"] frame [folded frame_def]
      by (simp add: run_command_def command_rf_def getdeviceaddr_unit_word rf_tx_houseunitfunc_def rf_transmit_def
          w1_def v_def)
  qed
  with processcommandline_words [OF not_policy [OF line] line, of env fd w] run
  have rw: "r = 0" "w' = transmit env (if Cm19a (w_usb w1) then tl frame else frame) w1" by simp_all
  have p: "take 6 frame = 0xEB # tl frame" "frame = 0xEB # 0x20 # drop 2 frame" by (simp_all add: frame_def)
  have w1: "w1 = rf_standard (relay_command env) env (-1) frame 6 v"
    unfolding w1_def by (rule decode_rf_standard) (simp add: frame_def)
  obtain d x where dv: "dup_filter env (Some (take 6 frame)) v = (d, x)" by fastforce
  have d: "d = fst (dup_filter env (Some frame) w)" using dv dup_filter_or20 [of env "Some frame" fd w]
    by (simp add: v_def frame_def)
  note x = dup_filter_frame [OF dv]
  have len: "length (if Cm19a (w_usb w) then tl frame else frame) \<le> 8" by (simp add: frame_def)
  have fr: "rf_frame h (int u) f = Some frame" using frame by (simp add: frame_def)
  define packet where "packet = (if Cm19a (w_usb w) then tl frame else frame)"
  have "if fst (dup_filter env (Some frame) w)
     then w_x10 w' = w_x10 w \<and> tx_log (w_usb w') = tx_log (w_usb w) @ [packet]
     else lit (house_abs h (w_x10 w')) = lit (spec_func (f = FUNC_ON) (spec_add u (house_abs h (w_x10 w)))) \<and>
       (\<forall>k. k \<noteq> h \<longrightarrow> house_abs k (w_x10 w') = house_abs k (w_x10 w)) \<and>
       tx_log (w_usb w') = tx_log (w_usb w) @ (if RfToRf16 w \<noteq> 0 then [packet] else []) @
         (if \<not> Cm19a (w_usb w) \<and> bit (RfToPl16 w) h then [pl_houseunit_tx h u, pl_housefunc_tx h f 0] else []) @
         [packet]"
  proof (cases d)
    case True
    have w1x: "w1 = x" unfolding w1 by (rule rf_standard_dup [OF hu f fr p(1)]) (use dv True in simp)
    have "tx_room (Suc 3) (w_usb w1)" using room x eqs by (simp add: w1x)
    from transmit_room(2) [OF this dev len] True show ?thesis
      by (simp add: d [symmetric] rw w1x x eqs packet_def)
  next
    case False
    have acc: "dup_filter env (Some (take 6 frame)) v = (False, x)" using dv False by simp
    have "x10_wf (w_x10 x)" "tx_room (1 + 3) (w_usb x)" using wf room x eqs by simp_all
    note e = rf_standard_effect [OF hu f this dev fr p(1) acc w1, unfolded x eqs, folded packet_def]
    have "tx_room (Suc 0) (w_usb w1)" using e(4) by simp
    from transmit_room(2) [OF this dev len] False e show ?thesis
      by (simp add: d [symmetric] rw packet_def)
  qed
  with rw(1) dec show ?thesis unfolding frame_def packet_def by blast
qed

text \<open>Repeating and relaying are on: the frame goes out twice, around its power-line command.\<close>

lemma fresh_table: "c \<noteq> [] \<Longrightarrow> \<not> fst (dup_filter env_zero (Some c) (world_one\<lparr>RfToRf16 := m, RfToPl16 := k\<rparr>))"
  by (simp add: dup_filter_def get_timems_def world_one_def env_zero_def numeral_eq_Suc)

theorem rf_command_switches_witness:
  "\<exists>b2 b4. hufc_decode b2 b4 = (CHR ''A'', 0, 1) \<and>
     tx_log (w_usb (snd (processcommandline env_zero 5 ''rf a1 on'' (world_one\<lparr>RfToRf16 := 1, RfToPl16 := 0xFFFF\<rparr>)))) =
       [[0xEB, 0x20, b2, NOT b2, b4, NOT b4], pl_houseunit_tx 0 0, pl_housefunc_tx 0 FUNC_ON 0,
        [0xEB, 0x20, b2, NOT b2, b4, NOT b4]]"
proof -
  let ?w = "world_one\<lparr>RfToRf16 := 1, RfToPl16 := 0xFFFF\<rparr>"
  obtain r w' where run: "processcommandline env_zero 5 ''rf a1 on'' ?w = (r, w')" by fastforce
  have ws: "words (strupper ''rf a1 on'') = [''RF'', unit_word 0 0, funccommands ! FUNC_ON]"
    by (simp add: eval_words)
  have "x10_wf (w_x10 ?w)" "tx_room 4 (w_usb ?w)" "\<not> Cm19a (w_usb ?w)" "tx_log (w_usb ?w) = []" "bit (RfToPl16 ?w) 0"
    using world_one_frame tx_room_one by simp_all
  with rf_command_switches [OF _ _ _ _ _ _ ws run] world_one_frame(3) fresh_table
  show ?thesis by (fastforce simp: run chr_def char_of_def bit_0 func_defs)
qed

end
