(* ===== verification/Rf_Security.thy ===== *)
theory Rf_Security
  imports Rf_Reports
begin

text \<open>Reports of security sensors and the queries that answer from them.\<close>

section \<open>Reports of security sensors\<close>

lemma sec_update_entry:
  "sec_update A f now ss = Some ss' \<Longrightarrow> \<forall>x \<in> set ss. secaddr x = A \<longrightarrow> secaddr8 x = a8 \<Longrightarrow>
     \<exists>x \<in> set ss'. secaddr x = A \<and> secaddr8 x = a8 \<and> sensorstatus x = f"
  by (induction ss arbitrary: ss') (fastforce split: if_splits)+

lemma sec_event_entry:
  assumes "\<forall>x \<in> set (X10sensors s). secaddr x = secaddr32 a \<longrightarrow> secaddr8 x = a8"
    and "secaddr32 a \<in> secaddr ` set (X10sensors s) \<or> length (X10sensors s) + 1 < X10SENSORS_MAX"
  shows "\<exists>x \<in> set (X10sensors (hua_sec_event now a f a8 s)). secaddr x = secaddr32 a \<and> secaddr8 x = a8 \<and> sensorstatus x = f"
proof (cases "sec_update (secaddr32 a) f now (X10sensors s)")
  case None
  then have "secaddr32 a \<notin> secaddr ` set (X10sensors s)" by (simp add: sec_update_None)
  with None assms(2) show ?thesis by (simp add: hua_sec_event_None)
next
  case (Some ss)
  from sec_update_entry [OF this assms(1)] Some show ?thesis by (simp add: hua_sec_event_def)
qed

lemma house_abs_sec_event [simp]: "house_abs h (hua_sec_event now a f a8 s) = house_abs h s"
  by (simp add: hua_sec_event_def house_abs_def split: option.split)

lemma sec_event_x10:
  assumes "secaddr32 a \<in> secaddr ` set (X10sensors (w_x10 w)) \<or> length (X10sensors (w_x10 w)) + 1 < X10SENSORS_MAX"
  shows "\<exists>now. w_x10 (sec_event env a f a8 w) = hua_sec_event now a f a8 (w_x10 w)"
  using assms by (auto simp: sec_event_def Let_def list_ex_iff split_beta)

lemma getrfaddr_long:
  assumes "n < 2 ^ 24"
  shows "getrfaddr (fmt_X 6 n # toks) = (Some (False, word_of_nat n), toks)"
proof -
  let ?s = "fmt_X 6 n"
  have "length (num_str 16 (n)) \<le> 6" using length_num_str_le [of "n" 16 5] assms by simp
  then have len: "int (length ?s) = 6" by (simp add: fmt_X_def)
  have p: "parse_hex_ulong ?s 6 = Some (int (n))"
    using parse_hex_digits [of ?s 6] fmt_X_props [of 6 "n"] len assms by (simp add: ULONG_MAX_def)
  have "\<not> (take 2 ?s = ''0x'' \<or> take 2 ?s = ''0X'')"
  proof
    assume "take 2 ?s = ''0x'' \<or> take 2 ?s = ''0X''"
    then have "CHR ''x'' \<in> set ?s \<or> CHR ''X'' \<in> set ?s" using set_take_subset [of 2 ?s] by auto
    with fmt_X_props(2) [of 6 "n"] isxdigit_plain show False by blast
  qed
  then show ?thesis unfolding getrfaddr_def by (simp only: list.case if_False p option.case) simp
qed

lemma secaddr32_unat: "unat (secaddr32 a) < 2 ^ 24"
  using secaddr32_less [of a] by (simp add: word_less_nat_alt)

text \<open>
  C8: An alarm can be queried: after the report of a security sensor that passes the checks and is
  no duplicate, \<open>GETSTATUSSEC\<close> with the sensor's address in six hexadecimal digits answers on
  exactly when the code is one of the alert codes. No device changes. The sensor must be known
  as one with a long address, or new with room in the table.
\<close>

theorem security_report_then_query:
  assumes wf: "x10_wf (w_x10 w)"
    and frame: "frame = [0xEB, 0x29, a0, a0 XOR 0x0F, code, NOT code, a1, a2]" "parity8 (unat (a1 XOR a2)) = 0"
    and report: "rf_report (Cm19a (w_usb w)) frame buf len" "\<not> fst (dup_filter env (Some (0x5d # tl frame)) w)"
    and sensor: "\<forall>x \<in> set (X10sensors (w_x10 w)). secaddr x = secaddr32 (a0, a1, a2) \<longrightarrow> secaddr8 x = 0"
      "secaddr32 (a0, a1, a2) \<in> secaddr ` set (X10sensors (w_x10 w)) \<or> length (X10sensors (w_x10 w)) + 1 < X10SENSORS_MAX"
    and query: "words (strupper query) = [''GETSTATUSSEC'', fmt_X 6 (unat (secaddr32 (a0, a1, a2)))]"
    and run: "w' = cm15a_decode env junk fd buf len w"
  shows "processcommandline env fd' query w' =
      (0, snd (tell env fd' (on_off (code \<in> set sec_alert_codes) @ nlcr) w')) \<and>
    (\<forall>h. house_abs h (w_x10 w') = house_abs h (w_x10 w))"
proof -
  have len8: "length frame = 8" by (simp add: frame(1))
  obtain p n where p: "take 8 p = 0x5d # tl frame" and eq: "w' = cm15a_decode_rf env fd p 8
      (if cfg_raw_data (e_config env) then on_net (mh_sockhexdump env fd p n) w else w)"
    using cm15a_decode_report [OF report(1), of env junk fd] unfolding run len8 by (auto simp: frame(1))
  let ?w = "if cfg_raw_data (e_config env) then on_net (mh_sockhexdump env fd p n) w else w"
  have b: "p ! 1 = 0x29" "p ! 2 = a0" "p ! 3 = a0 XOR 0x0F" "p ! 4 = code" "p ! 5 = NOT code" "p ! 6 = a1" "p ! 7 = a2"
    using nth_take [of 1 8 p] nth_take [of 2 8 p] nth_take [of 3 8 p] nth_take [of 4 8 p]
      nth_take [of 5 8 p] nth_take [of 6 8 p] nth_take [of 7 8 p]
    unfolding p frame(1) by simp_all
  have dec: "secaf_decode p 8 = Inr ((a0, a1, a2), code)"
    using frame(2) by (simp add: secaf_decode_def b Paritytable_nth)
  obtain d v where dv: "dup_filter env (Some (take 8 p)) ?w = (d, v)" by fastforce
  then have "fst (dup_filter env (Some (0x5d # tl frame)) ?w) = d" unfolding p by simp
  with report(2) have "\<not> d" by (simp add: dup_filter_on_net split: if_splits)
  have v: "w_x10 v = w_x10 w" using dup_filter_frame [OF dv] by simp
  obtain now where now: "w_x10 (sec_event env (a0, a1, a2) code 0 v) = hua_sec_event now (a0, a1, a2) code 0 (w_x10 w)"
    using sec_event_x10 [of "(a0, a1, a2)" v env code 0] sensor(2) unfolding v by blast
  have "cm15a_decode_rf env fd p 8 ?w = rf_security env fd p 8 ?w"
    using b(1) by (simp only: cm15a_decode_rf_def decode_rf_with_def skip_5d.simps [of p 8] Let_def) simp
  then have x: "w_x10 w' = hua_sec_event now (a0, a1, a2) code 0 (w_x10 w)"
    using dv \<open>\<not> d\<close> now unfolding eq by (simp add: rf_security_def dec repeatRF_def Let_def)
  obtain y where y: "y \<in> set (X10sensors (w_x10 w'))" "secaddr y = secaddr32 (a0, a1, a2)" "secaddr8 y = 0" "sensorstatus y = code"
    using sec_event_entry [OF sensor] unfolding x by blast
  have "distinct (map secaddr (X10sensors (w_x10 w')))"
    using x10_wf_sec_event [OF wf] unfolding x by (simp add: x10_wf_def sensors_ok_def)
  from getstatus_sec_found [OF this y(1), of False] y
  have q: "hua_getstatus_sec False (secaddr32 (a0, a1, a2)) (w_x10 w') = 1 \<longleftrightarrow> code \<in> set sec_alert_codes"
    by (simp add: hua_getstatus_sec_def)
  have g: "getrfaddr [fmt_X 6 (unat (secaddr32 (a0, a1, a2)))] = (Some (False, secaddr32 (a0, a1, a2)), [])"
    using getrfaddr_long [OF secaddr32_unat, of "(a0, a1, a2)" "[]"] by simp
  have "run_command (cm15a_decode_rf env) env fd' ''GETSTATUSSEC'' [fmt_X 6 (unat (secaddr32 (a0, a1, a2)))] w' =
      Inr ([], snd (tell env fd' (on_off (code \<in> set sec_alert_codes) @ nlcr) w'))"
    by (simp add: run_command_def command_getstatussec_def g q)
  with processcommandline_words [OF not_policy [OF query] query, of env fd' w'] x
  show ?thesis by simp
qed

theorem security_report_then_query_witness:
  "\<exists>w'. w' = cm15a_decode env_zero [] (-1) ([0x5d, 0x29, 0x12, 0x1d, 0x0c, NOT 0x0c, 0x34] @ [0x34]) 8 world_one \<and>
     processcommandline env_zero 5 ''getstatussec 123434'' w' = (0, snd (tell env_zero 5 (''on'' @ nlcr) w'))"
proof -
  have a: "secaddr32 (0x12, 0x34, 0x34) = 0x123434" by (simp add: secaddr32_def)
  have q: "words (strupper ''getstatussec 123434'') = [''GETSTATUSSEC'', fmt_X 6 (unat (secaddr32 (0x12, 0x34, 0x34)))]"
    unfolding a by (simp add: eval_words fmt_X_def num_str_step pad0_def)
  have d: "\<not> fst (dup_filter env_zero (Some [0x5d, 0x29, 0x12, 0x1d, 0x0c, NOT 0x0c, 0x34, 0x34]) world_one)"
    by (simp add: dup_filter_def get_timems_def world_one_def env_zero_def numeral_eq_Suc)
  have "parity8 (unat ((0x34 :: byte) XOR 0x34)) = 0" by (simp add: parity8_def)
  from security_report_then_query [OF _ refl this _ _ _ _ q refl, where w = world_one and code = "0x0c"
      and env = env_zero and len = 8 and junk = "[]" and fd = "-1" and fd' = 5
      and buf = "[0x5d, 0x29, 0x12, 0x1d, 0x0c, NOT 0x0c, 0x34] @ [0x34]"] d
  show ?thesis
    using world_one_frame(2) by (simp add: world_one_frame(1,6) rf_report_def x10_zero_def X10SENSORS_MAX_def on_off_def sec_alert_codes_def)
qed

end
