(* ===== verification/Duplicate_Filter.thy ===== *)
theory Duplicate_Filter
  imports End_To_End
begin

text \<open>
  The filter for repeated radio frames of \<open>src/x10/decode.c\<close> (\<open>dup_filter\<close>): what a call does to
  the table of 16 entries, and what a sequence of calls accepts.
\<close>

section \<open>One call\<close>

text \<open>The scan clears expired entries and finds the first entry for the command.\<close>

lemma dup_scan_nth:
  assumes "dup_scan now (Some c) ds = (es, hit)"
  shows "length es = length ds"
    "j < length ds \<Longrightarrow> es ! j = ds ! j \<or> timems (ds ! j) < now \<and> es ! j = (ds ! j)\<lparr>rf_command := []\<rparr>"
proof -
  have "length es = length ds \<and>
      (\<forall>j < length ds. es ! j = ds ! j \<or> timems (ds ! j) < now \<and> es ! j = (ds ! j)\<lparr>rf_command := []\<rparr>)"
    using assms
  proof (induction ds arbitrary: es hit)
    case (Cons p ps)
    obtain es' hit' where s: "dup_scan now (Some c) ps = (es', hit')" by fastforce
    have "es = (p # ps) \<or> es = (if rf_command p \<noteq> [] \<and> now > timems p then p\<lparr>rf_command := []\<rparr> else p) # es'"
      using Cons.prems s by (auto simp: Let_def split: if_splits)
    then show ?case using Cons.IH [OF s] by (auto simp: less_Suc_eq_0_disj split: if_splits)
  qed simp
  then show "length es = length ds"
    "j < length ds \<Longrightarrow> es ! j = ds ! j \<or> timems (ds ! j) < now \<and> es ! j = (ds ! j)\<lparr>rf_command := []\<rparr>"
    by blast+
qed

lemma dup_scan_first:
  assumes "dup_scan now (Some c) ds = (es, hit)" "c \<noteq> []"
  shows "\<forall>j < (case hit of Some i \<Rightarrow> i | None \<Rightarrow> length es). rf_command (es ! j) \<noteq> c"
  using assms(1)
proof (induction ds arbitrary: es hit)
  case (Cons p ps)
  obtain es' hit' where s: "dup_scan now (Some c) ps = (es', hit')" by fastforce
  show ?case
  proof (cases "rf_command p = c")
    case True
    with Cons.prems assms(2) show ?thesis by auto
  next
    case False
    let ?p = "if rf_command p \<noteq> [] \<and> now > timems p then p\<lparr>rf_command := []\<rparr> else p"
    from False s Cons.prems assms(2) have r: "es = ?p # es'" "hit = map_option Suc hit'" by (auto simp: Let_def)
    have "rf_command ?p \<noteq> c" using False assms(2) by auto
    with Cons.IH [OF s] show ?thesis unfolding r
      by (auto simp: nth_Cons' split: option.splits)
  qed
qed simp

lemma first_unused_cases:
  "case first_unused ds of Some i \<Rightarrow> i < length ds \<and> rf_command (ds ! i) = [] | None \<Rightarrow> \<forall>p \<in> set ds. rf_command p \<noteq> []"
  by (induction ds) (auto split: option.splits)

text \<open>The entry that expires first.\<close>

lemma min_fold:
  fixes ds :: "dup_entry list"
  defines "step \<equiv> (\<lambda>i (m, a). if timems (ds ! i) < m then (timems (ds ! i), i) else (m, a))"
  assumes "\<forall>i \<in> set is. i < length ds" "a0 < length ds" "m0 = timems (ds ! a0)"
  shows "snd (fold step is (m0, a0)) < length ds \<and>
    (\<forall>i \<in> insert a0 (set is). timems (ds ! snd (fold step is (m0, a0))) \<le> timems (ds ! i))"
  using assms(2-)
proof (induction "is" arbitrary: m0 a0)
  case (Cons i "is")
  show ?case
  proof (cases "timems (ds ! i) < m0")
    case True
    then show ?thesis using Cons.IH [of i "timems (ds ! i)"] Cons.prems by (auto simp: step_def)
  next
    case False
    then show ?thesis using Cons.IH [of a0 m0] Cons.prems by (auto simp: step_def)
  qed
qed simp

lemma min_index_min:
  assumes "ds \<noteq> []"
  shows "min_index ds < length ds" "i < length ds \<Longrightarrow> timems (ds ! min_index ds) \<le> timems (ds ! i)"
proof -
  have m: "min_index ds < length ds \<and> (\<forall>i \<in> insert 0 (set [1..<length ds]). timems (ds ! min_index ds) \<le> timems (ds ! i))"
    unfolding min_index_def by (rule min_fold) (use assms in auto)
  then show "min_index ds < length ds" by blast
  show "i < length ds \<Longrightarrow> timems (ds ! min_index ds) \<le> timems (ds ! i)"
    using m by (cases "i = 0") auto
qed

text \<open>
  What a call of the filter does to the table \<open>ds\<close>: the frame is dropped for an entry that has
  not expired, or it is stored: over its own expired entry, over an unused one, or, when all
  are in use, over the one that expires first.
\<close>

definition dup_dropped :: "64 word \<Rightarrow> byte list \<Rightarrow> dup_entry list \<Rightarrow> bool" where
  "dup_dropped now c es \<longleftrightarrow> (\<exists>i < length es. rf_command (es ! i) = c \<and> now \<le> timems (es ! i))"

definition dup_stored :: "64 word \<Rightarrow> 64 word \<Rightarrow> byte list \<Rightarrow> dup_entry list \<Rightarrow> dup_entry list \<Rightarrow> bool" where
  "dup_stored now t c es ds' \<longleftrightarrow>
     (\<exists>i < length es. ds' = es[i := \<lparr>timems = t, rf_command = c\<rparr>] \<and>
       (rf_command (es ! i) = c \<and> timems (es ! i) < now \<or>
        (\<forall>p \<in> set es. rf_command p \<noteq> c) \<and>
        (rf_command (es ! i) = [] \<or>
         (\<forall>p \<in> set es. rf_command p \<noteq> []) \<and> (\<forall>j < length es. timems (es ! i) \<le> timems (es ! j)))))"

definition dup_cleared :: "64 word \<Rightarrow> dup_entry list \<Rightarrow> dup_entry list \<Rightarrow> bool" where
  "dup_cleared now ds es \<longleftrightarrow> length es = length ds \<and>
     (\<forall>j < length ds. es ! j = ds ! j \<or> timems (ds ! j) < now \<and> es ! j = (ds ! j)\<lparr>rf_command := []\<rparr>)"

lemma dup_filter_effect:
  assumes "c \<noteq> []" "w_dups w \<noteq> []" "dup_filter env (Some c) w = (d, v)" "now = e_mono env (n_mono w)"
  obtains es where "dup_cleared now (w_dups w) es" "d" "dup_dropped now c es" "w_dups v = es" "n_mono v = n_mono w + 1"
  | es where "dup_cleared now (w_dups w) es" "\<not> d" "n_mono v = n_mono w + 2"
      "dup_stored now (e_mono env (n_mono v - 1) + DUP_TIME) c es (w_dups v)"
proof -
  obtain es hit where s: "dup_scan now (Some c) (w_dups w) = (es, hit)" by fastforce
  have cl: "dup_cleared now (w_dups w) es" using dup_scan_nth [OF s] by (simp add: dup_cleared_def)
  note first = dup_scan_first [OF s assms(1)]
  show ?thesis
  proof (cases hit)
    case None
    define i where "i = (case first_unused es of Some i \<Rightarrow> i | None \<Rightarrow> min_index es)"
    have ne: "es \<noteq> []" using cl assms(2) by (auto simp: dup_cleared_def)
    have i: "i < length es \<and> (rf_command (es ! i) = [] \<or>
         (\<forall>p \<in> set es. rf_command p \<noteq> []) \<and> (\<forall>j < length es. timems (es ! i) \<le> timems (es ! j)))"
      using first_unused_cases [of es] min_index_min [OF ne] by (auto simp: i_def split: option.splits)
    have v: "d = False" "v = w\<lparr>n_mono := n_mono w + 2,
        w_dups := es[i := \<lparr>timems = e_mono env (n_mono w + 1) + DUP_TIME, rf_command = c\<rparr>]\<rparr>"
      using assms(3,4) s None by (simp_all add: dup_filter_def get_timems_def i_def)
    have "\<forall>p \<in> set es. rf_command p \<noteq> c" using first None by (auto simp: in_set_conv_nth)
    with i v have "dup_stored now (e_mono env (n_mono v - 1) + DUP_TIME) c es (w_dups v)"
      by (auto simp: dup_stored_def)
    with v cl show ?thesis by (intro that(2)) simp_all
  next
    case (Some i)
    then have i: "i < length es" "rf_command (es ! i) = c" using dup_scan_hit s by fastforce+
    show ?thesis
    proof (cases "timems (es ! i) < now")
      case True
      have "(es ! i)\<lparr>timems := t\<rparr> = \<lparr>timems = t, rf_command = c\<rparr>" for t using i(2) by (cases "es ! i") simp
      then have v: "d = False" "v = w\<lparr>n_mono := n_mono w + 2,
          w_dups := es[i := \<lparr>timems = e_mono env (n_mono w + 1) + DUP_TIME, rf_command = c\<rparr>]\<rparr>"
        using assms(3,4) s Some True by (simp_all add: dup_filter_def get_timems_def)
      then have "dup_stored now (e_mono env (n_mono v - 1) + DUP_TIME) c es (w_dups v)"
        using i True by (auto simp: dup_stored_def)
      with v cl show ?thesis by (intro that(2)) simp_all
    next
      case False
      then have v: "d = True" "v = w\<lparr>n_mono := n_mono w + 1, w_dups := es\<rparr>"
        using assms(3,4) s Some by (simp_all add: dup_filter_def get_timems_def)
      have "dup_dropped now c es" using i False by (auto simp: dup_dropped_def not_less)
      with v cl show ?thesis by (intro that(1)) simp_all
    qed
  qed
qed

section \<open>Sequences of calls\<close>

text \<open>No frame is stored twice.\<close>

definition dups_distinct :: "dup_entry list \<Rightarrow> bool" where
  "dups_distinct ds \<longleftrightarrow>
     (\<forall>i < length ds. \<forall>j < length ds. rf_command (ds ! i) = rf_command (ds ! j) \<and> rf_command (ds ! i) \<noteq> [] \<longrightarrow> i = j)"

lemma cleared_nth:
  assumes "dup_cleared now ds es" "j < length es"
  shows "j < length ds" "rf_command (es ! j) = [] \<or> es ! j = ds ! j" "es ! j = ds ! j \<or> timems (ds ! j) < now"
  using assms by (auto simp: dup_cleared_def)

lemma dups_distinct_cleared:
  assumes "dup_cleared now ds es" "dups_distinct ds"
  shows "dups_distinct es"
  unfolding dups_distinct_def
proof (intro allI impI, elim conjE)
  fix i j
  assume ij: "i < length es" "j < length es" "rf_command (es ! i) = rf_command (es ! j)" "rf_command (es ! i) \<noteq> []"
  then have "es ! i = ds ! i" "es ! j = ds ! j" using cleared_nth(2) [OF assms(1)] by metis+
  moreover have "i < length ds" "j < length ds" using cleared_nth(1) [OF assms(1)] ij(1,2) by auto
  ultimately show "i = j" using ij(3,4) assms(2) unfolding dups_distinct_def by metis
qed

lemma dups_distinct_stored:
  assumes "dup_stored now t c es ds'" "dups_distinct es"
  shows "dups_distinct ds'"
proof -
  from assms(1) obtain k where k: "k < length es" "ds' = es[k := \<lparr>timems = t, rf_command = c\<rparr>]"
    and why: "rf_command (es ! k) = c \<or> (\<forall>p \<in> set es. rf_command p \<noteq> c)"
    by (auto simp: dup_stored_def)
  have other: "rf_command (es ! j) \<noteq> c" if "j < length es" "j \<noteq> k" "c \<noteq> []" for j
    using why that k(1) assms(2) nth_mem [OF that(1)] unfolding dups_distinct_def by metis
  show ?thesis
    unfolding dups_distinct_def
  proof (intro allI impI, elim conjE)
    fix i j
    assume ij: "i < length ds'" "j < length ds'" "rf_command (ds' ! i) = rf_command (ds' ! j)" "rf_command (ds' ! i) \<noteq> []"
    show "i = j"
    proof (cases "i = k \<or> j = k")
      case True
      with ij k other [of i] other [of j] show ?thesis by (auto simp: nth_list_update split: if_splits)
    next
      case False
      with ij k assms(2) show ?thesis by (auto simp: dups_distinct_def)
    qed
  qed
qed

lemma dups_distinct_filter:
  assumes "dups_distinct (w_dups w)" "w_dups w \<noteq> []" "c \<noteq> []" "dup_filter env (Some c) w = (d, v)"
  shows "dups_distinct (w_dups v)" "length (w_dups v) = length (w_dups w)"
proof -
  have "dups_distinct (w_dups v) \<and> length (w_dups v) = length (w_dups w)"
  proof (rule dup_filter_effect [OF assms(3,2,4) refl])
    fix es
    assume cl: "dup_cleared (e_mono env (n_mono w)) (w_dups w) es" and "w_dups v = es"
    then show ?thesis using dups_distinct_cleared [OF cl assms(1)] by (simp add: dup_cleared_def)
  next
    fix es
    assume cl: "dup_cleared (e_mono env (n_mono w)) (w_dups w) es"
      and st: "dup_stored (e_mono env (n_mono w)) (e_mono env (n_mono v - 1) + DUP_TIME) c es (w_dups v)"
    have "length es = length (w_dups w)" using cl by (simp add: dup_cleared_def)
    moreover have "length (w_dups v) = length es" using st by (auto simp: dup_stored_def)
    ultimately show ?thesis
      using dups_distinct_stored [OF st dups_distinct_cleared [OF cl assms(1)]] by simp
  qed
  then show "dups_distinct (w_dups v)" "length (w_dups v) = length (w_dups w)" by auto
qed

text \<open>The frames heard one after the other: which are dropped.\<close>

fun dup_run :: "env \<Rightarrow> byte list list \<Rightarrow> world \<Rightarrow> bool list \<times> world" where
  "dup_run env [] w = ([], w)"
| "dup_run env (c # cs) w =
     (case dup_filter env (Some c) w of (d, w) \<Rightarrow> case dup_run env cs w of (ds, w) \<Rightarrow> (d # ds, w))"

lemma dups_distinct_run:
  assumes "dup_run env cs w = (ds, v)" "dups_distinct (w_dups w)" "w_dups w \<noteq> []" "[] \<notin> set cs"
  shows "dups_distinct (w_dups v) \<and> length (w_dups v) = length (w_dups w)"
  using assms
proof (induction cs arbitrary: w ds)
  case (Cons c cs)
  obtain d u where f: "dup_filter env (Some c) w = (d, u)" by fastforce
  obtain ds' where r: "dup_run env cs u = (ds', v)" using Cons.prems(1) f by (auto split: prod.splits)
  have "c \<noteq> []" using Cons.prems(4) by auto
  note u = dups_distinct_filter [OF Cons.prems(2,3) this f]
  then have "w_dups u \<noteq> []" using Cons.prems(3) by (metis length_0_conv)
  with Cons.IH [OF r u(1)] u(2) Cons.prems(4) show ?case by simp
qed simp

text \<open>A frame is held with its stamp; the frames stamped no earlier.\<close>

definition held :: "byte list \<Rightarrow> 64 word \<Rightarrow> nat \<Rightarrow> dup_entry list \<Rightarrow> bool" where
  "held c stamp i ds \<longleftrightarrow> length ds = 16 \<and> dups_distinct ds \<and> i < 16 \<and> ds ! i = \<lparr>timems = stamp, rf_command = c\<rparr>"

definition recent :: "64 word \<Rightarrow> dup_entry list \<Rightarrow> byte list set" where
  "recent stamp ds = rf_command ` {p \<in> set ds. rf_command p \<noteq> [] \<and> stamp \<le> timems p}"

lemma cleared_held:
  assumes "dup_cleared now ds es" "held c stamp i ds" "now \<le> stamp"
  shows "held c stamp i es"
proof -
  from assms(1) have "length es = length ds"
    "i < length ds \<longrightarrow> es ! i = ds ! i \<or> timems (ds ! i) < now" unfolding dup_cleared_def by auto
  with assms dups_distinct_cleared [OF assms(1)] show ?thesis by (auto simp: held_def)
qed

lemma cleared_recent: "dup_cleared now ds es \<Longrightarrow> recent stamp es \<subseteq> recent stamp ds"
  by (force simp: dup_cleared_def recent_def in_set_conv_nth)

text \<open>The entry is not evicted while there is room for the frames of the window.\<close>

lemma stored_elsewhere:
  assumes "held c stamp i es" "c \<noteq> []" "now \<le> stamp" "recent stamp es \<subseteq> K" "x \<in> K" "card K \<le> 16" "finite K"
    "dup_stored now t x es ds'"
  shows "x \<noteq> c \<and> (\<exists>j < 16. j \<noteq> i \<and> ds' = es[j := \<lparr>timems = t, rf_command = x\<rparr>])"
proof -
  from assms(1) have len: "length es = 16" and i: "i < 16" "es ! i = \<lparr>timems = stamp, rf_command = c\<rparr>"
    and dist: "dups_distinct es" by (auto simp: held_def)
  from assms(8) obtain j where j: "j < 16" "ds' = es[j := \<lparr>timems = t, rf_command = x\<rparr>]"
    and why: "rf_command (es ! j) = x \<and> timems (es ! j) < now \<or>
      (\<forall>p \<in> set es. rf_command p \<noteq> x) \<and> (rf_command (es ! j) = [] \<or>
         (\<forall>p \<in> set es. rf_command p \<noteq> []) \<and> (\<forall>k < 16. timems (es ! j) \<le> timems (es ! k)))"
    by (auto simp: dup_stored_def len)
  have "j \<noteq> i"
  proof
    assume "j = i"
    with why i assms(2,3) have fresh: "\<forall>p \<in> set es. rf_command p \<noteq> x" and
      full: "\<forall>p \<in> set es. rf_command p \<noteq> [] \<and> stamp \<le> timems p"
      by (auto simp: in_set_conv_nth len)
    have "distinct (map rf_command es)"
      using dist full by (auto simp: distinct_conv_nth dups_distinct_def)
    then have "card (rf_command ` set es) = 16" using distinct_card [of "map rf_command es"] len by simp
    moreover have "rf_command ` set es \<subseteq> K - {x}" using full fresh assms(4) by (auto simp: recent_def)
    ultimately have "16 \<le> card (K - {x})" using card_mono [of "K - {x}" "rf_command ` set es"] assms(7) by simp
    with assms(5-7) show False by (simp add: card_Diff_singleton)
  qed
  moreover have "x \<noteq> c"
  proof
    assume "x = c"
    have "es ! i \<in> set es" using i(1) len by simp
    with why i \<open>x = c\<close> have "rf_command (es ! j) = c" by force
    with dist i j(1) len assms(2) \<open>j \<noteq> i\<close> show False by (auto simp: dups_distinct_def)
  qed
  ultimately show ?thesis using j by blast
qed

lemma held_step:
  assumes "held c stamp i (w_dups w)" "c \<noteq> []" "x \<noteq> []" "e_mono env (n_mono w) \<le> stamp"
    "recent stamp (w_dups w) \<subseteq> K" "x \<in> K" "card K \<le> 16" "finite K" "dup_filter env (Some x) w = (d, v)"
  shows "held c stamp i (w_dups v)" "recent stamp (w_dups v) \<subseteq> K" "x = c \<Longrightarrow> d"
proof -
  have ne: "w_dups w \<noteq> []" using assms(1) by (auto simp: held_def)
  have "held c stamp i (w_dups v) \<and> recent stamp (w_dups v) \<subseteq> K \<and> (x = c \<longrightarrow> d)"
  proof (rule dup_filter_effect [OF assms(3) ne assms(9) refl])
    fix es
    assume cl: "dup_cleared (e_mono env (n_mono w)) (w_dups w) es" and "d" "w_dups v = es"
    then show ?thesis using cleared_held [OF cl assms(1,4)] cleared_recent [OF cl] assms(5) by auto
  next
    fix es
    assume cl: "dup_cleared (e_mono env (n_mono w)) (w_dups w) es"
      and st: "dup_stored (e_mono env (n_mono w)) (e_mono env (n_mono v - 1) + DUP_TIME) x es (w_dups v)"
    have h: "held c stamp i es" "recent stamp es \<subseteq> K"
      using cleared_held [OF cl assms(1,4)] cleared_recent [OF cl] assms(5) by auto
    obtain j where j: "x \<noteq> c" "j < 16" "j \<noteq> i"
      "w_dups v = es[j := \<lparr>timems = e_mono env (n_mono v - 1) + DUP_TIME, rf_command = x\<rparr>]"
      using stored_elsewhere [OF h(1) assms(2,4) h(2) assms(6-8) st] by blast
    have "recent stamp (w_dups v) \<subseteq> insert x (recent stamp es)"
      unfolding recent_def j(4) by (auto dest!: set_update_subset_insert [THEN subsetD])
    with h j assms(6) dups_distinct_stored [OF st] show ?thesis by (auto simp: held_def)
  qed
  then show "held c stamp i (w_dups v)" "recent stamp (w_dups v) \<subseteq> K" "x = c \<Longrightarrow> d" by auto
qed

text \<open>The clock is \<open>CLOCK_MONOTONIC\<close>.\<close>

definition clock_monotone :: "env \<Rightarrow> bool" where
  "clock_monotone env \<longleftrightarrow> (\<forall>i j. i \<le> j \<longrightarrow> e_mono env i \<le> e_mono env j)"

lemma dup_run_clock: "dup_run env cs w = (ds, v) \<Longrightarrow> n_mono w \<le> n_mono v"
proof (induction cs arbitrary: w ds)
  case (Cons c cs)
  obtain d u where f: "dup_filter env (Some c) w = (d, u)" by fastforce
  then have "n_mono w \<le> n_mono u" by (auto simp: dup_filter_def get_timems_def split: prod.splits option.splits if_splits)
  moreover obtain ds' where "dup_run env cs u = (ds', v)" using Cons.prems f by (auto split: prod.splits)
  ultimately show ?case using Cons.IH order_trans by blast
qed simp

lemma held_run:
  assumes "dup_run env cs w = (ds, v)" "held c stamp i (w_dups w)" "c \<noteq> []" "[] \<notin> set cs" "clock_monotone env"
    "e_mono env (n_mono v) \<le> stamp" "recent stamp (w_dups w) \<subseteq> K" "set cs \<subseteq> K" "card K \<le> 16" "finite K"
  shows "held c stamp i (w_dups v) \<and> recent stamp (w_dups v) \<subseteq> K \<and> list_all2 (\<lambda>x d. x = c \<longrightarrow> d) cs ds"
  using assms
proof (induction cs arbitrary: w ds)
  case (Cons x cs)
  obtain d u where f: "dup_filter env (Some x) w = (d, u)" by fastforce
  obtain ds' where r: "dup_run env cs u = (ds', v)" "ds = d # ds'"
    using Cons.prems(1) f by (auto split: prod.splits)
  have "n_mono w \<le> n_mono v" using dup_run_clock [OF Cons.prems(1)] .
  then have "e_mono env (n_mono w) \<le> stamp" using Cons.prems(5,6) by (meson clock_monotone_def order_trans)
  note h = held_step [OF Cons.prems(2,3) _ this Cons.prems(7) _ Cons.prems(9,10) f]
  have "held c stamp i (w_dups v) \<and> recent stamp (w_dups v) \<subseteq> K \<and> list_all2 (\<lambda>x d. x = c \<longrightarrow> d) cs ds'"
    by (rule Cons.IH [OF r(1)]) (use h Cons.prems in auto)
  with h(3) Cons.prems(4,8) r(2) show ?case by auto
qed auto

text \<open>Every entry of the frame has the stamp, as long as its repetitions are dropped.\<close>

lemma stamp_step:
  assumes "\<forall>p \<in> set (w_dups w). rf_command p = c \<longrightarrow> timems p = stamp" "c \<noteq> []" "x \<noteq> []" "w_dups w \<noteq> []"
    "dup_filter env (Some x) w = (d, v)"
  shows "x = c \<longrightarrow> d \<Longrightarrow> \<forall>p \<in> set (w_dups v). rf_command p = c \<longrightarrow> timems p = stamp"
    "x = c \<Longrightarrow> d \<Longrightarrow> e_mono env (n_mono w) \<le> stamp" "w_dups v \<noteq> []"
proof -
  have cl: "\<forall>p \<in> set es. rf_command p = c \<longrightarrow> timems p = stamp" if "dup_cleared now (w_dups w) es" for now es
  proof (intro ballI impI)
    fix p
    assume "p \<in> set es" "rf_command p = c"
    then obtain j where j: "j < length es" "p = es ! j" by (auto simp: in_set_conv_nth)
    with cleared_nth [OF that j(1)] \<open>rf_command p = c\<close> assms(2) have "p = w_dups w ! j" "j < length (w_dups w)" by auto
    with assms(1) \<open>rf_command p = c\<close> show "timems p = stamp" by simp
  qed
  have "((x = c \<longrightarrow> d) \<longrightarrow> (\<forall>p \<in> set (w_dups v). rf_command p = c \<longrightarrow> timems p = stamp)) \<and>
      (x = c \<longrightarrow> d \<longrightarrow> e_mono env (n_mono w) \<le> stamp) \<and> w_dups v \<noteq> []"
  proof (rule dup_filter_effect [OF assms(3-5) refl])
    fix es
    assume es: "dup_cleared (e_mono env (n_mono w)) (w_dups w) es" "dup_dropped (e_mono env (n_mono w)) x es" "w_dups v = es"
    then obtain i where i: "i < length es" "rf_command (es ! i) = x" "e_mono env (n_mono w) \<le> timems (es ! i)"
      by (auto simp: dup_dropped_def)
    have "x = c \<longrightarrow> timems (es ! i) = stamp" using cl [OF es(1)] i(1,2) nth_mem by blast
    moreover have "es \<noteq> []" using i(1) by auto
    ultimately show ?thesis using cl [OF es(1)] es(3) i(3) by blast
  next
    fix es
    let ?t = "e_mono env (n_mono v - 1) + DUP_TIME"
    assume "dup_cleared (e_mono env (n_mono w)) (w_dups w) es" and d: "\<not> d"
      and st: "dup_stored (e_mono env (n_mono w)) ?t x es (w_dups v)"
    then have es: "\<forall>p \<in> set es. rf_command p = c \<longrightarrow> timems p = stamp" using cl by blast
    from st obtain i where i: "i < length es" "w_dups v = es[i := \<lparr>timems = ?t, rf_command = x\<rparr>]"
      by (auto simp: dup_stored_def)
    then have "set (w_dups v) \<subseteq> insert \<lparr>timems = ?t, rf_command = x\<rparr> (set es)"
      by (simp add: set_update_subset_insert)
    with es have "x \<noteq> c \<longrightarrow> (\<forall>p \<in> set (w_dups v). rf_command p = c \<longrightarrow> timems p = stamp)" by auto
    moreover have "w_dups v \<noteq> []" using i by (metis length_list_update less_nat_zero_code list.size(3))
    ultimately show ?thesis using d by auto
  qed
  then show "x = c \<longrightarrow> d \<Longrightarrow> \<forall>p \<in> set (w_dups v). rf_command p = c \<longrightarrow> timems p = stamp"
    "x = c \<Longrightarrow> d \<Longrightarrow> e_mono env (n_mono w) \<le> stamp" "w_dups v \<noteq> []" by auto
qed

lemma stamp_run:
  assumes "dup_run env cs w = (ds, v)" "\<forall>p \<in> set (w_dups w). rf_command p = c \<longrightarrow> timems p = stamp" "c \<noteq> []"
    "[] \<notin> set cs" "w_dups w \<noteq> []" "list_all2 (\<lambda>x d. x = c \<longrightarrow> d) cs ds"
  shows "(\<forall>p \<in> set (w_dups v). rf_command p = c \<longrightarrow> timems p = stamp) \<and> w_dups v \<noteq> []"
  using assms
proof (induction cs arbitrary: w ds)
  case (Cons x cs)
  obtain d u where f: "dup_filter env (Some x) w = (d, u)" by fastforce
  obtain ds' where r: "dup_run env cs u = (ds', v)" "ds = d # ds'"
    using Cons.prems(1) f by (auto split: prod.splits)
  with Cons.prems have x: "x \<noteq> []" "x = c \<longrightarrow> d" by auto
  note st = stamp_step [OF Cons.prems(2,3) x(1) Cons.prems(5) f]
  show ?case by (rule Cons.IH [OF r(1) st(1) [OF x(2)] Cons.prems(3) _ st(3)]) (use Cons.prems r in auto)
qed auto

lemma dup_accepted:
  assumes "length (w_dups w) = 16" "dups_distinct (w_dups w)" "c \<noteq> []" "dup_filter env (Some c) w = (False, v)"
  shows "\<exists>i. held c (e_mono env (n_mono v - 1) + DUP_TIME) i (w_dups v)"
    "\<forall>p \<in> set (w_dups v). rf_command p = c \<longrightarrow> timems p = e_mono env (n_mono v - 1) + DUP_TIME"
proof -
  let ?t = "e_mono env (n_mono v - 1) + DUP_TIME"
  have ne: "w_dups w \<noteq> []" using assms(1) by auto
  obtain es where cl: "dup_cleared (e_mono env (n_mono w)) (w_dups w) es"
    and st: "dup_stored (e_mono env (n_mono w)) ?t c es (w_dups v)"
    using dup_filter_effect [OF assms(3) ne assms(4) refl] by blast
  from st obtain i where i: "i < length es" "w_dups v = es[i := \<lparr>timems = ?t, rf_command = c\<rparr>]"
    by (auto simp: dup_stored_def)
  have dist: "dups_distinct (w_dups v)" and len: "length (w_dups v) = 16"
    using dups_distinct_filter [OF assms(2) ne assms(3,4)] assms(1) by auto
  then show h: "\<exists>i. held c ?t i (w_dups v)" using i by (intro exI [of _ i]) (simp add: held_def)
  show "\<forall>p \<in> set (w_dups v). rf_command p = c \<longrightarrow> timems p = ?t"
  proof (intro ballI impI)
    fix p
    assume "p \<in> set (w_dups v)" "rf_command p = c"
    then obtain j where "j < length (w_dups v)" "p = w_dups v ! j" by (auto simp: in_set_conv_nth)
    moreover have "rf_command (w_dups v ! i) = c" "timems (w_dups v ! i) = ?t" using i by simp_all
    moreover have "i < length (w_dups v)" using i by simp
    ultimately show "timems p = ?t"
      using dist \<open>rf_command p = c\<close> assms(3) unfolding dups_distinct_def by metis
  qed
qed

section \<open>Properties\<close>

text \<open>
  C19: The duplicate filter suppresses the repetitions of a frame for 650 milliseconds (the value of
  \<open>DUP_TIME\<close> in the code; the comment above it says 100). A frame \<open>c\<close> has been accepted at the time
  \<open>accepted\<close> and the frames \<open>cs\<close> have been heard since, \<open>ds\<close> telling which were dropped. Up to 650 ms
  after the acceptance every repetition of \<open>c\<close> among them was dropped and so is one heard now; after
  650 ms, when its repetitions so far were dropped, \<open>c\<close> is accepted again. The 16 entries suffice as
  long as at most 16 different frames, with those already stored with no earlier stamp, share the
  window; other frames in between, with their own repetitions and expirations, do not matter. The
  table never holds a frame twice.
\<close>

theorem dup_window:
  assumes table: "length (w_dups w) = 16" "dups_distinct (w_dups w)" and c: "c \<noteq> []" "[] \<notin> set cs"
    and accepted: "dup_filter env (Some c) w = (False, v)" "accepted = e_mono env (n_mono v - 1)"
    and run: "dup_run env cs v = (ds, w')" "now = e_mono env (n_mono w')" "clock_monotone env"
    and few: "card (recent (accepted + 650) (w_dups v) \<union> set cs) \<le> 16"
  shows "(now \<le> accepted + 650 \<longrightarrow>
      list_all2 (\<lambda>x d. x = c \<longrightarrow> d) cs ds \<and> fst (dup_filter env (Some c) w')) \<and>
    (accepted + 650 < now \<and> list_all2 (\<lambda>x d. x = c \<longrightarrow> d) cs ds \<longrightarrow> \<not> fst (dup_filter env (Some c) w')) \<and>
    length (w_dups w') = 16 \<and> dups_distinct (w_dups w')"
proof -
  obtain d u where last: "dup_filter env (Some c) w' = (d, u)" by fastforce
  let ?K = "recent (accepted + 650) (w_dups v) \<union> set cs"
  have fin: "finite ?K" by (simp add: recent_def)
  obtain i where i: "held c (accepted + 650) i (w_dups v)"
    using dup_accepted(1) [OF table c(1) accepted(1)] accepted(2) by (auto simp: DUP_TIME_def)
  then have ne: "w_dups v \<noteq> []" "c \<in> ?K"
    using c(1) by (auto simp: held_def recent_def in_set_conv_nth image_iff intro!: bexI [of _ "w_dups v ! i"])
  have stamp: "\<forall>p \<in> set (w_dups v). rf_command p = c \<longrightarrow> timems p = accepted + 650"
    using dup_accepted(2) [OF table c(1) accepted(1)] accepted(2) by (simp add: DUP_TIME_def)
  note keep = dups_distinct_run [OF run(1) _ ne(1) c(2)] dups_distinct_filter [OF table(2) _ c(1) accepted(1)]
  have "w_dups w \<noteq> []" using table(1) by auto
  with keep table(1) have "length (w_dups w') = 16" "dups_distinct (w_dups w')" by simp_all
  then show ?thesis
  proof (intro conjI impI)
    assume early: "now \<le> accepted + 650"
    then have "e_mono env (n_mono w') \<le> accepted + 650" by (simp add: run(2))
    note h = held_run [OF run(1) i c run(3) this _ _ few fin]
    then show "list_all2 (\<lambda>x d. x = c \<longrightarrow> d) cs ds" by auto
    have "held c (accepted + 650) i (w_dups w')" "recent (accepted + 650) (w_dups w') \<subseteq> ?K" using h by auto
    from held_step(3) [OF this(1) c(1) c(1) _ this(2) ne(2) few fin last refl] early
    show "fst (dup_filter env (Some c) w')" by (simp add: last run(2))
  next
    assume late: "accepted + 650 < now \<and> list_all2 (\<lambda>x d. x = c \<longrightarrow> d) cs ds"
    with stamp_run [OF run(1) stamp c ne(1)]
    have "\<forall>p \<in> set (w_dups w'). rf_command p = c \<longrightarrow> timems p = accepted + 650" "w_dups w' \<noteq> []" by auto
    from stamp_step(2) [OF this(1) c(1) c(1) this(2) last refl] late
    show "\<not> fst (dup_filter env (Some c) w')" by (auto simp: last run(2))
  qed
qed


text \<open>
  A frame is accepted at 0 ms and heard again at 600 ms, followed by another frame, and once more
  at \<open>t\<close> ms.
\<close>

definition env_repeat :: "64 word \<Rightarrow> env" where
  "env_repeat t = env_zero\<lparr>e_mono := (\<lambda>k. if k \<le> 1 then 0 else if k \<le> 4 then 600 else t)\<rparr>"

lemma repeat_accepted:
  "\<exists>v. dup_filter (env_repeat t) (Some [0x5d]) world_one = (False, v) \<and> n_mono v = 2 \<and>
     w_dups v = \<lparr>timems = 650, rf_command = [0x5d]\<rparr> # replicate 15 \<lparr>timems = 0, rf_command = []\<rparr>"
  by (simp add: dup_filter_def get_timems_def world_one_def env_repeat_def DUP_TIME_def numeral_eq_Suc)

lemma replicate_15: "replicate 15 p = [p, p, p, p, p, p, p, p, p, p, p, p, p, p, p]"
  by (simp add: numeral_eq_Suc)

lemma repeat_run:
  assumes "n_mono v = 2" "w_dups v = \<lparr>timems = 650, rf_command = [0x5d]\<rparr> # replicate 15 \<lparr>timems = 0, rf_command = []\<rparr>"
  shows "\<exists>w'. dup_run (env_repeat t) [[0x5d], [0x20]] v = ([True, False], w') \<and> n_mono w' = 5"
  using assms by (simp add: dup_filter_def get_timems_def env_repeat_def replicate_15)

lemma clock_repeat: "600 \<le> t \<Longrightarrow> clock_monotone (env_repeat t)"
  by (auto simp: clock_monotone_def env_repeat_def intro: order_trans)

lemma dups_distinct_one: "dups_distinct (w_dups world_one)" "length (w_dups world_one) = 16"
  by (simp_all add: world_one_def dups_distinct_def)

lemma repeat_few:
  "w_dups v = \<lparr>timems = 650, rf_command = [0x5d]\<rparr> # replicate 15 \<lparr>timems = 0, rf_command = []\<rparr> \<Longrightarrow>
     card (recent (0 + 650) (w_dups v) \<union> set [[0x5d], [0x20]]) \<le> 16"
proof -
  assume "w_dups v = \<lparr>timems = 650, rf_command = [0x5d]\<rparr> # replicate 15 \<lparr>timems = 0, rf_command = []\<rparr>"
  then have "recent (0 + 650) (w_dups v) \<union> set [[0x5d], [0x20]] = set [[0x5d], [0x20]]"
    by (auto simp: recent_def)
  then show ?thesis by (simp add: card_insert_if)
qed

theorem dup_window_witness:
  "(\<exists>v w'. dup_filter (env_repeat 650) (Some [0x5d]) world_one = (False, v) \<and>
     dup_run (env_repeat 650) [[0x5d], [0x20]] v = ([True, False], w') \<and>
     fst (dup_filter (env_repeat 650) (Some [0x5d]) w')) \<and>
   (\<exists>v w'. dup_filter (env_repeat 651) (Some [0x5d]) world_one = (False, v) \<and>
     dup_run (env_repeat 651) [[0x5d], [0x20]] v = ([True, False], w') \<and>
     \<not> fst (dup_filter (env_repeat 651) (Some [0x5d]) w'))"
proof -
  have window: "\<exists>v w'. dup_filter (env_repeat t) (Some [0x5d]) world_one = (False, v) \<and>
     dup_run (env_repeat t) [[0x5d], [0x20]] v = ([True, False], w') \<and>
     (fst (dup_filter (env_repeat t) (Some [0x5d]) w') \<longleftrightarrow> t \<le> 650)" if "600 \<le> t" for t
  proof -
    obtain v where v: "dup_filter (env_repeat t) (Some [0x5d]) world_one = (False, v)" "n_mono v = 2"
      "w_dups v = \<lparr>timems = 650, rf_command = [0x5d]\<rparr> # replicate 15 \<lparr>timems = 0, rf_command = []\<rparr>"
      using repeat_accepted by blast
    obtain w' where w': "dup_run (env_repeat t) [[0x5d], [0x20]] v = ([True, False], w')" "n_mono w' = 5"
      using repeat_run [OF v(2,3)] by blast
    have "0 = e_mono (env_repeat t) (n_mono v - 1)" "t = e_mono (env_repeat t) (n_mono w')"
      by (simp_all add: v(2) w'(2) env_repeat_def)
    from dup_window [OF dups_distinct_one(2,1) _ _ v(1) this(1) w'(1) this(2) clock_repeat [OF that] repeat_few [OF v(3)]]
    have "fst (dup_filter (env_repeat t) (Some [0x5d]) w') \<longleftrightarrow> t \<le> 650" by (auto simp: not_le)
    with v(1) w'(1) show ?thesis by blast
  qed
  from window [of 650] window [of 651] show ?thesis by simp
qed

end
