(* ===== verification/Command_Line.thy ===== *)
theory Command_Line
  imports Config
begin

text \<open>
  What the command line does to the configuration (\<open>apply_cli\<close> of \<open>src/config/config.c\<close>): the
  options as they are written, and the settings after them as a function of the last options.
\<close>

section \<open>The options of a command line\<close>

text \<open>The options as they are written, each with its argument, empty when it takes none.\<close>

definition argument_options :: "string list" where
  "argument_options =
     [''--config'', ''--bind'', ''--port'', ''--xml-port'', ''--openremote-port'', ''--dual-stack'', ''--log-level'']"

fun cli_split :: "string list \<Rightarrow> (string \<times> string) list" where
  "cli_split [] = []"
| "cli_split (a # as) =
     (if a \<in> set argument_options
      then (case as of [] \<Rightarrow> [] | v # as' \<Rightarrow> (a, v) # cli_split as')
      else (a, []) # cli_split as)"

text \<open>The last of some options.\<close>

fun last_option :: "string list \<Rightarrow> (string \<times> string) list \<Rightarrow> (string \<times> string) option" where
  "last_option opts [] = None"
| "last_option opts ((a, v) # xs) =
     (case last_option opts xs of Some y \<Rightarrow> Some y | None \<Rightarrow> if a \<in> set opts then Some (a, v) else None)"

definition given :: "string list \<Rightarrow> string list \<Rightarrow> (string \<times> string) option" where
  "given opts args = last_option opts (cli_split args)"

lemma given_Nil: "given opts [] = None"
  by (simp add: given_def)

lemma cli_names:
  "map_of cli_flags a = Some f \<Longrightarrow> a \<notin> set argument_options"
  "map_of cli_keys a = Some k \<Longrightarrow> a \<in> set argument_options"
  by (drule map_of_SomeD; auto simp: cli_flags_def cli_keys_def argument_options_def)+

lemma given_flag:
  "map_of cli_flags a = Some f \<Longrightarrow> given opts (a # as) =
     (case given opts as of Some y \<Rightarrow> Some y | None \<Rightarrow> if a \<in> set opts then Some (a, []) else None)"
  using cli_names(1) [of a f] by (simp add: given_def)

lemma given_key:
  "a \<in> set argument_options \<Longrightarrow> given opts (a # v # as) =
     (case given opts as of Some y \<Rightarrow> Some y | None \<Rightarrow> if a \<in> set opts then Some (a, v) else None)"
  by (simp add: given_def)

text \<open>
  A setting that some options change, each to a value that its argument determines, has after the
  command line the value of the last of them, or is unchanged when there is none.
\<close>

lemma apply_cli_setting:
  assumes flags: "\<And>a f c. map_of cli_flags a = Some f \<Longrightarrow> if a \<in> set opts then R (a, []) (get (f c)) else get (f c) = get c"
    and keys: "\<And>a k v c c'. map_of cli_keys a = Some k \<Longrightarrow> apply_key_value n k v c = Inr c' \<Longrightarrow>
      if a \<in> set opts then R (a, v) (get c') else get c' = get c"
    and config: "''--config'' \<notin> set opts" and run: "apply_cli n args c = Inr c'"
  shows "case given opts args of None \<Rightarrow> get c' = get c | Some av \<Rightarrow> R av (get c')"
  using run
proof (induction args arbitrary: c rule: length_induct)
  case (1 args)
  show ?case
  proof (cases args)
    case Nil
    with "1.prems" show ?thesis by (simp add: given_Nil)
  next
    case (Cons a bs)
    have IH: "apply_cli n as d = Inr c' \<Longrightarrow> length as < length args \<Longrightarrow>
        case given opts as of None \<Rightarrow> get c' = get d | Some av \<Rightarrow> R av (get c')" for as d
      using "1.IH" by blast
    from "1.prems" [unfolded Cons] show ?thesis
    proof (cases rule: apply_cli_Cons)
      case (1 v as')
      have "a \<in> set argument_options" by (simp add: 1(3) argument_options_def)
      with IH [OF 1(2)] given_key [of a opts v as'] config Cons 1(1,3) show ?thesis
        by (auto split: option.splits)
    next
      case (2 f)
      with IH [OF 2(2)] flags [OF 2(1), of c] given_flag [OF 2(1), of opts bs] Cons show ?thesis
        by (auto split: option.splits if_splits)
    next
      case (3 k v as' c1)
      with IH [OF 3(4)] keys [OF 3(1,3)] given_key [OF cli_names(2) [OF 3(1)], of opts v as'] Cons 3(2) show ?thesis
        by (auto split: option.splits if_splits)
    qed
  qed
qed

text \<open>What the options do to the settings.\<close>

lemma cli_flag_effect:
  assumes "map_of cli_flags a = Some f"
  shows "bind_address (f c) = bind_address c \<and> server_port (f c) = server_port c \<and> xml_port (f c) = xml_port c \<and>
      openremote_port (f c) = openremote_port c \<and> dual_stack (f c) = dual_stack c \<and> log_level (f c) = log_level c"
    "foreground (f c) = (if a \<in> set [''-d'', ''--foreground'', ''--background''] then a \<noteq> ''--background'' else foreground c)"
    "cfg_raw_data (f c) = (if a \<in> set [''--raw-data'', ''--no-raw-data''] then a = ''--raw-data'' else cfg_raw_data c)"
    "xml_enabled (f c) = (if a \<in> set [''--enable-xml'', ''--disable-xml''] then a = ''--enable-xml'' else xml_enabled c)"
    "openremote_enabled (f c) = (if a \<in> set [''--enable-openremote'', ''--disable-openremote'']
       then a = ''--enable-openremote'' else openremote_enabled c)"
    "check_config (f c) = (if a \<in> set [''--check-config''] then True else check_config c)"
    "print_config (f c) = (if a \<in> set [''--print-config''] then True else print_config c)"
    "show_version (f c) = (if a \<in> set [''--version''] then True else show_version c)"
    "show_help (f c) = (if a \<in> set [''-h'', ''--help''] then True else show_help c)"
    "a \<notin> set argument_options"
  using map_of_SomeD [OF assms] unfolding cli_flags_def argument_options_def
  by (simp_all only: set_simps insert_iff prod.inject empty_iff simp_thms) (elim disjE conjE; simp)+

lemma key_names:
  "normalize_key ''bind'' = ''bind''" "normalize_key ''port'' = ''port''" "normalize_key ''xml_port'' = ''xml_port''"
  "normalize_key ''openremote_port'' = ''openremote_port''" "normalize_key ''dual_stack'' = ''dual_stack''"
  "normalize_key ''log_level'' = ''log_level''"
  by (simp_all add: normalize_key_def dash_to_underscore_def tolower_def isupper_def ord_def Let_def)

lemma parse_port_name: "parse_port n k v = Inr p \<Longrightarrow> parse_port n ''port'' v = Inr p"
  by (simp add: parse_port_def Let_def split: if_splits)

lemma cli_key_effect:
  assumes "map_of cli_keys a = Some k" "apply_key_value n k v c = Inr c'"
  obtains "a = ''--bind''" "c' = c\<lparr>bind_address := strip_optional_quotes v\<rparr>"
  | p where "a = ''--port''" "c' = c\<lparr>server_port := p\<rparr>" "parse_port n ''port'' (strip_optional_quotes v) = Inr p"
  | p where "a = ''--xml-port''" "c' = c\<lparr>xml_port := p\<rparr>" "parse_port n ''port'' (strip_optional_quotes v) = Inr p"
  | p where "a = ''--openremote-port''" "c' = c\<lparr>openremote_port := p\<rparr>" "parse_port n ''port'' (strip_optional_quotes v) = Inr p"
  | p where "a = ''--dual-stack''" "c' = c\<lparr>dual_stack := p\<rparr>" "parse_dual_stack (strip_optional_quotes v) = Some p"
  | l where "a = ''--log-level''" "c' = c\<lparr>log_level := l\<rparr>" "parse_log_level (strip_optional_quotes v) = Some l"
proof -
  have kv: "(256 \<le> length v) = False" using assms(2) by (auto simp: apply_key_value_def split: if_splits)
  have key: "(a, k) \<in> set cli_keys" using map_of_SomeD [OF assms(1)] .
  note step = assms(2) [unfolded apply_key_value_def Let_def]
  have "(a = ''--bind'' \<and> k = ''bind'') \<or> (a = ''--port'' \<and> k = ''port'') \<or> (a = ''--xml-port'' \<and> k = ''xml_port'') \<or>
      (a = ''--openremote-port'' \<and> k = ''openremote_port'') \<or> (a = ''--dual-stack'' \<and> k = ''dual_stack'') \<or>
      (a = ''--log-level'' \<and> k = ''log_level'')"
    using key unfolding cli_keys_def by (simp only: set_simps insert_iff prod.inject empty_iff simp_thms)
  then show ?thesis
  proof (elim disjE)
    assume 1: "a = ''--bind'' \<and> k = ''bind''"
    from step have "(case copy_string n MOCHAD_CONFIG_BIND_ADDRESS_LEN (strip_optional_quotes v) of
        Inl e \<Rightarrow> Inl e | Inr v \<Rightarrow> Inr (c\<lparr>bind_address := v\<rparr>)) = Inr c'" unfolding 1 [THEN conjunct2] by (simp add: key_names kv)
    then have "c' = c\<lparr>bind_address := strip_optional_quotes v\<rparr>"
      by (cases "copy_string n MOCHAD_CONFIG_BIND_ADDRESS_LEN (strip_optional_quotes v)") (auto simp: copy_string_Inr)
    with 1 that(1) show ?thesis by blast
  next
    assume 2: "a = ''--port'' \<and> k = ''port''"
    from step have "set_port n k (strip_optional_quotes v) (\<lambda>p. c\<lparr>server_port := p\<rparr>) = Inr c'" unfolding 2 [THEN conjunct2] by (simp add: key_names kv)
    from set_port_Inr [OF this] 2 parse_port_name show ?thesis by (metis that(2))
  next
    assume 3: "a = ''--xml-port'' \<and> k = ''xml_port''"
    from step have "set_port n k (strip_optional_quotes v) (\<lambda>p. c\<lparr>xml_port := p\<rparr>) = Inr c'" unfolding 3 [THEN conjunct2] by (simp add: key_names kv)
    from set_port_Inr [OF this] 3 parse_port_name show ?thesis by (metis that(3))
  next
    assume 4: "a = ''--openremote-port'' \<and> k = ''openremote_port''"
    from step have "set_port n k (strip_optional_quotes v) (\<lambda>p. c\<lparr>openremote_port := p\<rparr>) = Inr c'" unfolding 4 [THEN conjunct2] by (simp add: key_names kv)
    from set_port_Inr [OF this] 4 parse_port_name show ?thesis by (metis that(4))
  next
    assume 5: "a = ''--dual-stack'' \<and> k = ''dual_stack''"
    from step have "\<exists>p. c' = c\<lparr>dual_stack := p\<rparr> \<and> parse_dual_stack (strip_optional_quotes v) = Some p"
      unfolding 5 [THEN conjunct2] by (simp add: key_names kv split: option.splits)
    with 5 that(5) show ?thesis by blast
  next
    assume 6: "a = ''--log-level'' \<and> k = ''log_level''"
    from step have "\<exists>l. c' = c\<lparr>log_level := l\<rparr> \<and> parse_log_level (strip_optional_quotes v) = Some l"
      unfolding 6 [THEN conjunct2] by (simp add: key_names kv split: option.splits)
    with 6 that(6) show ?thesis by blast

  qed
qed

text \<open>A port after the command line: as before, or what the last option says.\<close>

definition port_setting :: "nat \<Rightarrow> (string \<times> string) option \<Rightarrow> int \<Rightarrow> int \<Rightarrow> bool" where
  "port_setting n opt before p \<longleftrightarrow>
     (case opt of
        None \<Rightarrow> p = before
      | Some (_, v) \<Rightarrow>
          parse_port n ''port'' (strip_optional_quotes v) = Inr p \<and>
          (v \<noteq> [] \<and> list_all isdigit v \<longrightarrow> p = int (digits_val 10 v)))"

lemma port_decimal:
  assumes "parse_port n ''port'' (strip_optional_quotes v) = Inr p" "v \<noteq> []" "list_all isdigit v"
  shows "p = int (digits_val 10 v)"
proof -
  have d: "\<forall>ch \<in> set v. isdigit ch" using assms(3) by (simp add: list_all_iff)
  with assms(1) strip_digits [OF d] strtol10_digits [OF assms(2) d] show ?thesis
    by (auto simp: parse_port_def Let_def split: if_splits)
qed

lemma cli_ports:
  assumes "apply_cli n args b = Inr c"
  shows "port_setting n (given [''--port''] args) (server_port b) (server_port c)"
    "port_setting n (given [''--xml-port''] args) (xml_port b) (xml_port c)"
    "port_setting n (given [''--openremote-port''] args) (openremote_port b) (openremote_port c)"
proof -
  let ?R = "\<lambda>(a, v) p. parse_port n ''port'' (strip_optional_quotes v) = Inr p"
  have f: "map_of cli_flags a = Some f \<Longrightarrow> a \<notin> set argument_options" for a f by (rule cli_names(1))
  have port: "case given opts args of None \<Rightarrow> get c = get b | Some av \<Rightarrow> ?R av (get c) \<Longrightarrow>
      port_setting n (given opts args) (get b) (get c)" for opts get
    using port_decimal by (auto simp: port_setting_def split: option.splits prod.splits)
  show "port_setting n (given [''--port''] args) (server_port b) (server_port c)"
    by (rule port, rule apply_cli_setting [where R = ?R, OF _ _ _ assms])
      (auto simp: cli_flag_effect(1) argument_options_def dest: cli_names(1) elim!: cli_key_effect)
  show "port_setting n (given [''--xml-port''] args) (xml_port b) (xml_port c)"
    by (rule port, rule apply_cli_setting [where R = ?R, OF _ _ _ assms])
      (auto simp: cli_flag_effect(1) argument_options_def dest: cli_names(1) elim!: cli_key_effect)
  show "port_setting n (given [''--openremote-port''] args) (openremote_port b) (openremote_port c)"
    by (rule port, rule apply_cli_setting [where R = ?R, OF _ _ _ assms])
      (auto simp: cli_flag_effect(1) argument_options_def dest: cli_names(1) elim!: cli_key_effect)
qed

lemma cli_values:
  assumes "apply_cli n args b = Inr c"
  shows "bind_address c = (case given [''--bind''] args of None \<Rightarrow> bind_address b | Some (_, v) \<Rightarrow> strip_optional_quotes v)"
    "case given [''--dual-stack''] args of None \<Rightarrow> dual_stack c = dual_stack b
       | Some (_, v) \<Rightarrow> parse_dual_stack (strip_optional_quotes v) = Some (dual_stack c)"
    "case given [''--log-level''] args of None \<Rightarrow> log_level c = log_level b
       | Some (_, v) \<Rightarrow> parse_log_level (strip_optional_quotes v) = Some (log_level c)"
proof -
  have "case given [''--bind''] args of None \<Rightarrow> bind_address c = bind_address b
       | Some av \<Rightarrow> (\<lambda>(a, v) x. x = strip_optional_quotes v) av (bind_address c)"
    by (rule apply_cli_setting [OF _ _ _ assms])
      (auto simp: cli_flag_effect(1) argument_options_def dest: cli_names(1) elim!: cli_key_effect)
  then show "bind_address c = (case given [''--bind''] args of None \<Rightarrow> bind_address b | Some (_, v) \<Rightarrow> strip_optional_quotes v)"
    by (auto split: option.splits)
  have "case given [''--dual-stack''] args of None \<Rightarrow> dual_stack c = dual_stack b
       | Some av \<Rightarrow> (\<lambda>(a, v) x. parse_dual_stack (strip_optional_quotes v) = Some x) av (dual_stack c)"
    by (rule apply_cli_setting [OF _ _ _ assms])
      (auto simp: cli_flag_effect(1) argument_options_def dest: cli_names(1) elim!: cli_key_effect)
  then show "case given [''--dual-stack''] args of None \<Rightarrow> dual_stack c = dual_stack b
       | Some (_, v) \<Rightarrow> parse_dual_stack (strip_optional_quotes v) = Some (dual_stack c)"
    by (auto split: option.splits)
  have "case given [''--log-level''] args of None \<Rightarrow> log_level c = log_level b
       | Some av \<Rightarrow> (\<lambda>(a, v) x. parse_log_level (strip_optional_quotes v) = Some x) av (log_level c)"
    by (rule apply_cli_setting [OF _ _ _ assms])
      (auto simp: cli_flag_effect(1) argument_options_def dest: cli_names(1) elim!: cli_key_effect)
  then show "case given [''--log-level''] args of None \<Rightarrow> log_level c = log_level b
       | Some (_, v) \<Rightarrow> parse_log_level (strip_optional_quotes v) = Some (log_level c)"
    by (auto split: option.splits)
qed

lemma apply_cli_switch:
  assumes flags: "\<And>a f c. map_of cli_flags a = Some f \<Longrightarrow> if a \<in> set opts then R (a, []) (get (f c)) else get (f c) = get c"
    and keys: "\<And>a k v c c'. map_of cli_keys a = Some k \<Longrightarrow> apply_key_value n k v c = Inr c' \<Longrightarrow> get c' = get c"
    and names: "set opts \<inter> set argument_options = {}" and run: "apply_cli n args c = Inr c'"
  shows "case given opts args of None \<Rightarrow> get c' = get c | Some av \<Rightarrow> R av (get c')"
proof (rule apply_cli_setting [OF _ _ _ run])
  show "map_of cli_flags a = Some f \<Longrightarrow> if a \<in> set opts then R (a, []) (get (f c)) else get (f c) = get c" for a f c
    by (rule flags)
  show "if a \<in> set opts then R (a, v) (get c') else get c' = get c"
    if "map_of cli_keys a = Some k" "apply_key_value n k v c = Inr c'" for a k v c c'
  proof -
    have "a \<notin> set opts" using names cli_names(2) [OF that(1)] by blast
    then show ?thesis using keys [OF that] by simp
  qed
  have "''--config'' \<in> set argument_options" by (simp add: argument_options_def)
  then show "''--config'' \<notin> set opts" using names by blast
qed

lemma cli_key_leaves:
  assumes "map_of cli_keys a = Some k" "apply_key_value n k v c = Inr c'"
  shows "foreground c' = foreground c"
    "cfg_raw_data c' = cfg_raw_data c"
    "xml_enabled c' = xml_enabled c"
    "openremote_enabled c' = openremote_enabled c"
    "check_config c' = check_config c"
    "print_config c' = print_config c"
    "show_version c' = show_version c"
    "show_help c' = show_help c"
  by (rule cli_key_effect [OF assms]; simp)+

lemma if_equal: "x = (if P then e else y) \<Longrightarrow> if P then x = e else x = y"
  by simp

lemma argument_names:
  "set [''-d'', ''--foreground'', ''--background''] \<inter> set argument_options = {}"
  "set [''--raw-data'', ''--no-raw-data''] \<inter> set argument_options = {}"
  "set [''--enable-xml'', ''--disable-xml''] \<inter> set argument_options = {}"
  "set [''--enable-openremote'', ''--disable-openremote''] \<inter> set argument_options = {}"
  "set [''--check-config''] \<inter> set argument_options = {}"
  "set [''--print-config''] \<inter> set argument_options = {}"
  "set [''--version''] \<inter> set argument_options = {}"
  "set [''-h'', ''--help''] \<inter> set argument_options = {}"
  by (simp_all add: argument_options_def)

lemma cli_switches:
  assumes "apply_cli n args b = Inr c"
  shows "foreground c = (case given [''-d'', ''--foreground'', ''--background''] args of None \<Rightarrow> foreground b | Some (a, _) \<Rightarrow> a \<noteq> ''--background'')"
    "cfg_raw_data c = (case given [''--raw-data'', ''--no-raw-data''] args of None \<Rightarrow> cfg_raw_data b | Some (a, _) \<Rightarrow> a = ''--raw-data'')"
    "xml_enabled c = (case given [''--enable-xml'', ''--disable-xml''] args of None \<Rightarrow> xml_enabled b | Some (a, _) \<Rightarrow> a = ''--enable-xml'')"
    "openremote_enabled c = (case given [''--enable-openremote'', ''--disable-openremote''] args of None \<Rightarrow> openremote_enabled b | Some (a, _) \<Rightarrow> a = ''--enable-openremote'')"
    "check_config c = (check_config b \<or> given [''--check-config''] args \<noteq> None)"
    "print_config c = (print_config b \<or> given [''--print-config''] args \<noteq> None)"
    "show_version c = (show_version b \<or> given [''--version''] args \<noteq> None)"
    "show_help c = (show_help b \<or> given [''-h'', ''--help''] args \<noteq> None)"
proof -
  have "case given [''-d'', ''--foreground'', ''--background''] args of None \<Rightarrow> foreground c = foreground b
      | Some av \<Rightarrow> foreground c = (fst av \<noteq> ''--background'')"
    by (rule apply_cli_switch [where get = foreground and R = "\<lambda>av x. x = (fst av \<noteq> ''--background'')", OF _ _ _ assms])
      (rule if_equal, simp only: fst_conv, erule cli_flag_effect(2), erule (1) cli_key_leaves(1), rule argument_names(1))
  then show "foreground c = (case given [''-d'', ''--foreground'', ''--background''] args of None \<Rightarrow> foreground b | Some (a, _) \<Rightarrow> a \<noteq> ''--background'')"
    by (auto split: option.splits)
  have "case given [''--raw-data'', ''--no-raw-data''] args of None \<Rightarrow> cfg_raw_data c = cfg_raw_data b
      | Some av \<Rightarrow> cfg_raw_data c = (fst av = ''--raw-data'')"
    by (rule apply_cli_switch [where get = cfg_raw_data and R = "\<lambda>av x. x = (fst av = ''--raw-data'')", OF _ _ _ assms])
      (rule if_equal, simp only: fst_conv, erule cli_flag_effect(3), erule (1) cli_key_leaves(2), rule argument_names(2))
  then show "cfg_raw_data c = (case given [''--raw-data'', ''--no-raw-data''] args of None \<Rightarrow> cfg_raw_data b | Some (a, _) \<Rightarrow> a = ''--raw-data'')"
    by (auto split: option.splits)
  have "case given [''--enable-xml'', ''--disable-xml''] args of None \<Rightarrow> xml_enabled c = xml_enabled b
      | Some av \<Rightarrow> xml_enabled c = (fst av = ''--enable-xml'')"
    by (rule apply_cli_switch [where get = xml_enabled and R = "\<lambda>av x. x = (fst av = ''--enable-xml'')", OF _ _ _ assms])
      (rule if_equal, simp only: fst_conv, erule cli_flag_effect(4), erule (1) cli_key_leaves(3), rule argument_names(3))
  then show "xml_enabled c = (case given [''--enable-xml'', ''--disable-xml''] args of None \<Rightarrow> xml_enabled b | Some (a, _) \<Rightarrow> a = ''--enable-xml'')"
    by (auto split: option.splits)
  have "case given [''--enable-openremote'', ''--disable-openremote''] args of None \<Rightarrow> openremote_enabled c = openremote_enabled b
      | Some av \<Rightarrow> openremote_enabled c = (fst av = ''--enable-openremote'')"
    by (rule apply_cli_switch [where get = openremote_enabled and R = "\<lambda>av x. x = (fst av = ''--enable-openremote'')", OF _ _ _ assms])
      (rule if_equal, simp only: fst_conv, erule cli_flag_effect(5), erule (1) cli_key_leaves(4), rule argument_names(4))
  then show "openremote_enabled c = (case given [''--enable-openremote'', ''--disable-openremote''] args of None \<Rightarrow> openremote_enabled b | Some (a, _) \<Rightarrow> a = ''--enable-openremote'')"
    by (auto split: option.splits)
  have "case given [''--check-config''] args of None \<Rightarrow> check_config c = check_config b | Some av \<Rightarrow> check_config c = True"
    by (rule apply_cli_switch [where get = check_config and R = "\<lambda>av x. x = True", OF _ _ _ assms])
      (rule if_equal, erule cli_flag_effect(6), erule (1) cli_key_leaves(5), rule argument_names(5))
  then show "check_config c = (check_config b \<or> given [''--check-config''] args \<noteq> None)"
    by (auto split: option.splits)
  have "case given [''--print-config''] args of None \<Rightarrow> print_config c = print_config b | Some av \<Rightarrow> print_config c = True"
    by (rule apply_cli_switch [where get = print_config and R = "\<lambda>av x. x = True", OF _ _ _ assms])
      (rule if_equal, erule cli_flag_effect(7), erule (1) cli_key_leaves(6), rule argument_names(6))
  then show "print_config c = (print_config b \<or> given [''--print-config''] args \<noteq> None)"
    by (auto split: option.splits)
  have "case given [''--version''] args of None \<Rightarrow> show_version c = show_version b | Some av \<Rightarrow> show_version c = True"
    by (rule apply_cli_switch [where get = show_version and R = "\<lambda>av x. x = True", OF _ _ _ assms])
      (rule if_equal, erule cli_flag_effect(8), erule (1) cli_key_leaves(7), rule argument_names(7))
  then show "show_version c = (show_version b \<or> given [''--version''] args \<noteq> None)"
    by (auto split: option.splits)
  have "case given [''-h'', ''--help''] args of None \<Rightarrow> show_help c = show_help b | Some av \<Rightarrow> show_help c = True"
    by (rule apply_cli_switch [where get = show_help and R = "\<lambda>av x. x = True", OF _ _ _ assms])
      (rule if_equal, erule cli_flag_effect(9), erule (1) cli_key_leaves(8), rule argument_names(8))
  then show "show_help c = (show_help b \<or> given [''-h'', ''--help''] args \<noteq> None)"
    by (auto split: option.splits)
qed

section \<open>Properties\<close>

text \<open>
  C23: The command line overrides the file and the environment, and nothing else: a configuration
  that loads is the one of the defaults, the file and the environment (\<open>b\<close>) except for the settings
  the command line gives. Each of these has the value of the last of its options, at whatever place
  among the other options and their arguments: the bind address, the three ports (a decimal text is
  its number), the dual-stack policy, the log level, and the switches with their opposites; the
  options that ask for a check, a print, the version or the help add to it.
\<close>

theorem config_cli_wins:
  assumes "mochad_config_load n numeric_host files getenv args = Inr c"
  shows "\<exists>path c1 b. find_config_file_arg n getenv args = Inr path \<and> config_base n files path = Inr c1 \<and>
    apply_environment n getenv c1 = Inr b \<and>
    bind_address c = (case given [''--bind''] args of None \<Rightarrow> bind_address b | Some (_, v) \<Rightarrow> strip_optional_quotes v) \<and>
    port_setting n (given [''--port''] args) (server_port b) (server_port c) \<and>
    port_setting n (given [''--xml-port''] args) (xml_port b) (xml_port c) \<and>
    port_setting n (given [''--openremote-port''] args) (openremote_port b) (openremote_port c) \<and>
    (case given [''--dual-stack''] args of None \<Rightarrow> dual_stack c = dual_stack b
       | Some (_, v) \<Rightarrow> parse_dual_stack (strip_optional_quotes v) = Some (dual_stack c)) \<and>
    (case given [''--log-level''] args of None \<Rightarrow> log_level c = log_level b
       | Some (_, v) \<Rightarrow> parse_log_level (strip_optional_quotes v) = Some (log_level c)) \<and>
    foreground c = (case given [''-d'', ''--foreground'', ''--background''] args of None \<Rightarrow> foreground b | Some (a, _) \<Rightarrow> a \<noteq> ''--background'') \<and>
    cfg_raw_data c = (case given [''--raw-data'', ''--no-raw-data''] args of None \<Rightarrow> cfg_raw_data b | Some (a, _) \<Rightarrow> a = ''--raw-data'') \<and>
    xml_enabled c = (case given [''--enable-xml'', ''--disable-xml''] args of None \<Rightarrow> xml_enabled b | Some (a, _) \<Rightarrow> a = ''--enable-xml'') \<and>
    openremote_enabled c = (case given [''--enable-openremote'', ''--disable-openremote''] args of None \<Rightarrow> openremote_enabled b | Some (a, _) \<Rightarrow> a = ''--enable-openremote'') \<and>
    check_config c = (check_config b \<or> given [''--check-config''] args \<noteq> None) \<and>
    print_config c = (print_config b \<or> given [''--print-config''] args \<noteq> None) \<and>
    show_version c = (show_version b \<or> given [''--version''] args \<noteq> None) \<and>
    show_help c = (show_help b \<or> given [''-h'', ''--help''] args \<noteq> None)"
proof -
  obtain path where path: "find_config_file_arg n getenv args = Inr path"
    using assms by (cases "find_config_file_arg n getenv args") (simp_all add: mochad_config_load_def)
  obtain c1 where c1: "config_base n files path = Inr c1"
    using assms path by (cases "config_base n files path") (simp_all add: mochad_config_load_def)
  obtain b where b: "apply_environment n getenv c1 = Inr b"
    using assms path c1 by (cases "apply_environment n getenv c1") (simp_all add: mochad_config_load_def)
  obtain c' where c': "apply_cli n args b = Inr c'"
    using assms path c1 b by (cases "apply_cli n args b") (simp_all add: mochad_config_load_def)
  then have "mochad_config_validate n numeric_host c' = Inr c"
    using assms path c1 b by (simp add: mochad_config_load_def)
  then have "c' = c" using validate_Inr by blast
  with c' have cli: "apply_cli n args b = Inr c" by simp
  show ?thesis
    by (intro exI [of _ path] exI [of _ c1] exI [of _ b] conjI path c1 b cli_values [OF cli] cli_ports [OF cli]
        cli_switches [OF cli])
qed

text \<open>A port set by the environment and twice on the command line, around another option.\<close>

lemma cli_env_load:
  "\<exists>c. mochad_config_load 256 (\<lambda>_ _. True) no_files one_env
     [''--port'', ''1'', ''--disable-xml'', ''--port'', ''1234''] = Inr c"
proof -
  have e: "apply_environment 256 one_env mochad_config_defaults = Inr (mochad_config_defaults\<lparr>server_port := 2000\<rparr>)"
    by (simp add: apply_environment_def env_keys_def apply_env_value_def one_env_def apply_port
        strip_optional_quotes_def set_port_def parse_port_def strtol10_digits isdigit_def ord_def
        digits_val_def digit_val_def LONG_MAX_def)
  have k: "map_of cli_flags ''--port'' = None" "map_of cli_keys ''--port'' = Some ''port''"
    "map_of cli_flags ''--disable-xml'' = Some (\<lambda>c. c\<lparr>xml_enabled := False\<rparr>)"
    by (simp_all add: cli_flags_def cli_keys_def)
  have cli: "apply_cli 256 [''--port'', ''1'', ''--disable-xml'', ''--port'', ''1234''] (mochad_config_defaults\<lparr>server_port := 2000\<rparr>) =
      Inr (mochad_config_defaults\<lparr>server_port := 1234, xml_enabled := False\<rparr>)"
    by (simp add: k apply_port strip_optional_quotes_def set_port_def parse_port_def strtol10_digits isdigit_def ord_def
        digits_val_def digit_val_def LONG_MAX_def)
  show ?thesis
    by (simp add: mochad_config_load_def find_config_file_arg_def one_env_def [of "''MOCHAD_CONFIG''"] config_base_def e cli
        del: apply_cli.simps)
      (simp add: mochad_config_validate_def mochad_config_defaults_def log_defs)
qed

theorem config_cli_wins_witness:
  "\<exists>c. mochad_config_load 256 (\<lambda>_ _. True) no_files one_env
     [''--port'', ''1'', ''--disable-xml'', ''--port'', ''1234''] = Inr c \<and> server_port c = 1234 \<and> \<not> xml_enabled c"
proof -
  let ?args = "[''--port'', ''1'', ''--disable-xml'', ''--port'', ''1234'']"
  obtain c where c: "mochad_config_load 256 (\<lambda>_ _. True) no_files one_env ?args = Inr c" using cli_env_load by blast
  have g: "given [''--port''] ?args = Some (''--port'', ''1234'')"
    "given [''--enable-xml'', ''--disable-xml''] ?args = Some (''--disable-xml'', [])"
    by (simp_all add: given_def argument_options_def)
  from config_cli_wins [OF c] show ?thesis
  proof (elim exE conjE)
    fix b
    assume p: "port_setting 256 (given [''--port''] ?args) (server_port b) (server_port c)"
      and x: "xml_enabled c = (case given [''--enable-xml'', ''--disable-xml''] ?args of None \<Rightarrow> xml_enabled b
         | Some (a, _) \<Rightarrow> a = ''--enable-xml'')"
    have "server_port c = 1234"
      using p unfolding g by (simp add: port_setting_def isdigit_def digits_val_def digit_val_def ord_def)
    moreover have "\<not> xml_enabled c" using x unfolding g by simp
    ultimately show ?thesis using c by blast
  qed
qed

end
