(* ===== verification/Spec2Isabelle.thy ===== *)
theory Spec2Isabelle
  imports Daemon_Process Rf_Security Duplicate_Filter Command_Line
begin

text \<open>
  A model of mochad, the TCP gateway daemon for the X10 controllers CM15A and CM19A
  (\<open>src/src\<close> of the repository), and the theorems that make it correct.

  \<^bold>\<open>The program.\<close> Clients connect to one of three TCP listeners and send text commands
  (\<open>x10/encode.c\<close>); a command sends packets to the controller (\<open>usb/x10_write.c\<close>, the interrupt
  transfers of \<open>core/mochad.c\<close>) and updates tables of the state of lamps and security sensors
  (\<open>x10/x10state.c\<close>). The controller reports what it hears on the power line and by radio;
  \<open>x10/decode.c\<close> decodes a report, updates the same tables, may relay it to the power line
  through the command processor, and broadcasts an event line (\<open>x10/mochad_event.c\<close>) to the
  clients, whose output is queued (\<open>core/mochad.c\<close>, \<open>net/socket_io.c\<close>). One thread runs the
  event loop of \<open>mydaemon\<close> in \<open>core/mochad.c\<close>.

  \<^bold>\<open>The theories.\<close> State is explicit: a component has a record for its static variables and one
  definition per C function, under its name; \<open>Decode.world\<close> and \<open>Event_Loop.daemon\<close> put the
  records together. The answers of the operating system and of libusb are arguments: the record
  \<open>Clients.env\<close> (clock, calendar, \<open>send\<close>, \<open>libusb_submit_transfer\<close>), \<open>Event_Loop.turn\<close> (one turn of
  the loop: \<open>poll\<close>, \<open>accept\<close>, \<open>read\<close>, the events of libusb), \<open>Daemon_Process.start_answers\<close> and
  \<open>stop_answers\<close>. Bytes are \<open>8 word\<close>, C integers are words where they wrap and \<open>int\<close> or \<open>nat\<close>
  where they cannot.

  \<^item> \<open>Mochad_Prelude\<close>: characters, number formats, \<open>strtol\<close>, the collections \<open>mochad_inv\<close> and
    \<open>mochad_frame\<close>. \<open>Bounded_Queue\<close>: the contract of a bounded queue as a locale, interpreted for
    the packet FIFO and the client output queue.
  \<^item> \<open>X10_Codes\<close>, \<open>X10_Frames\<close>: the code tables and their decoders, the frames the transmitter
    builds; round trips.
  \<^item> \<open>X10_State\<close>: the device and sensor tables, refined to the protocol of a house (\<open>house_spec\<close>)
    and to a map of sensors. \<open>X10_Event\<close>: event lines and their bounds.
  \<^item> \<open>Usb_Transmit\<close>: the packet FIFO and the transfers as a state machine: conservation, pacing,
    draining.
  \<^item> \<open>Config\<close>, \<open>Command_Line\<close>: \<open>config/config.c\<close>. \<open>Client_Output\<close>, \<open>Clients\<close>: output queues, the client tables,
    broadcast, flushing. \<open>Diagnostics\<close>: the JSON diagnostics.
  \<^item> \<open>Decode\<close>, \<open>Encode\<close>: the decoder and the command processor on the state of the daemon. The
    two call each other in C; here the relay from the decoder runs the command processor without
    its RF decoder, and \<open>cm15a_decode_rf_closed\<close> shows that this satisfies the recursive equations.
  \<^item> \<open>Daemon_Steps\<close>, \<open>Daemon_Invariants\<close>: everything the two do as sequences of primitive steps,
    and the invariants by rule induction over them. \<open>Commands\<close>: the tokenizer and the argument
    parsers. \<open>End_To_End\<close>, \<open>Rf_Reports\<close>, \<open>Rf_Security\<close>: what whole commands and reports do.
    \<open>Duplicate_Filter\<close>: what the filter of repeated radio frames accepts over time.
  \<^item> \<open>Line_Reader\<close>: how input becomes commands. \<open>Client_Sessions\<close>: invariants of the client tables
    under everything the daemon does, as a locale with two interpretations.
  \<^item> \<open>Poll_Support\<close>: descriptor arrays and timeouts. \<open>Endpoint_Selection\<close>: \<open>usb_endpoint_selection.c\<close>.
  \<^item> \<open>Event_Loop\<close>, \<open>Event_Loop_Safety\<close>, \<open>Loop_Turns\<close>: the callbacks, one turn of the loop with all
    its branches, the loop, and what they keep and do. \<open>Daemon_Process\<close>: opening the controller,
    the listeners, the start and the end of \<open>mydaemon\<close> and \<open>main\<close>.

  \<^bold>\<open>What the theorems show.\<close> From the start of the program over any run of the event loop the
  daemon stays well-formed and loses no packet; packets go out one at a time, paced by the
  controller's answers in whatever order they come, and a cooperating controller drains the queue; commands and reports have exactly
  their effect on the tables and the controller, and read back; output to clients is a bounded
  FIFO that is flushed completely and in order or the client is disconnected; the reader runs
  exactly the lines of the input; texts fit their buffers; a loaded configuration is valid and
  obeys its command line; the shutdown ends with everything freed once libusb has called back.

  \<^bold>\<open>Bounds and fuel.\<close> The drain of the shutdown has the bound of 100 calls of the code. The
  results of \<open>send\<close> in a loop are a list: when it is used up, \<open>send_all\<close> fails and a flush sees
  \<open>EAGAIN\<close>; every loop of the code that is bounded by its data is a structural recursion, and the
  doubling of \<open>ensure_pollfd_capacity\<close> has a termination proof. A run of the event loop is over a
  list of turns of any length. Reads of bytes past a report see what the buffer holds (\<open>IntrInBuf\<close>
  keeps the bytes of earlier reports, \<open>t_junk\<close> are uninitialised ones).

  \<^bold>\<open>Not modelled.\<close> Logging (\<open>core/global.c\<close>, syslog) and the names it prints, the hotplug monitor
  (it only logs), the printed help, signal registration and \<open>daemon()\<close>, the debug output of the
  decoder, and \<open>cm15a_encode\<close>, which nothing calls. The log format is not observable by the
  rest of the program. Signals are events between callbacks or interruptions of \<open>poll\<close>, the places
  where the program can observe them. The counts of descriptors are taken to be below \<open>INT_MAX\<close>.
\<close>

end
